(* ===== verification/Prelude.thy ===== *)
theory Prelude
  imports Main
begin

text \<open>
  Shared vocabulary of the development: keyed tables as lists of rows (the way a
  relation is stored, in insertion order), the decimal rendering of integers that
  Go's strconv and fmt produce, and the collections of facts the component proofs use.

  The collections are: prog_simps (how a program runs), row_simps (what a
  statement does to the tables), good_intros (how a program is shown to commit
  balanced writes only).
\<close>

named_theorems prog_simps \<open>running programs\<close>
named_theorems row_simps \<open>tables under row writes\<close>
named_theorems stmt_defs \<open>definitions of the SQL statements\<close>
named_theorems good_intros \<open>programs that commit balanced writes only\<close>

section \<open>Keyed tables\<close>

definition find_by :: "('r \<Rightarrow> 'k) \<Rightarrow> 'k \<Rightarrow> 'r list \<Rightarrow> 'r option" where
  "find_by key k xs = List.find (\<lambda>x. key x = k) xs"

primrec put_by :: "('r \<Rightarrow> 'k) \<Rightarrow> 'r \<Rightarrow> 'r list \<Rightarrow> 'r list" where
  "put_by key x [] = [x]"
| "put_by key x (y # ys) = (if key y = key x then x # ys else y # put_by key x ys)"

definition del_by :: "('r \<Rightarrow> 'k) \<Rightarrow> 'k \<Rightarrow> 'r list \<Rightarrow> 'r list" where
  "del_by key k xs = filter (\<lambda>x. key x \<noteq> k) xs"

lemma find_by_Nil [simp]: "find_by key k [] = None"
  by (simp add: find_by_def)

lemma find_by_Cons [simp]:
  "find_by key k (x # xs) = (if key x = k then Some x else find_by key k xs)"
  by (simp add: find_by_def)

lemma find_by_SomeD: "find_by key k xs = Some x \<Longrightarrow> x \<in> set xs \<and> key x = k"
  by (induction xs) (auto split: if_splits)

lemma find_by_None_iff: "find_by key k xs = None \<longleftrightarrow> (\<forall>x \<in> set xs. key x \<noteq> k)"
  by (induction xs) auto

lemma find_by_member: "x \<in> set xs \<Longrightarrow> find_by key (key x) xs \<noteq> None"
  by (auto simp: find_by_None_iff)

lemma find_by_distinct:
  "distinct (map key xs) \<Longrightarrow> x \<in> set xs \<Longrightarrow> find_by key (key x) xs = Some x"
  by (induction xs) auto

lemma find_by_put [row_simps]:
  "find_by key k (put_by key x xs) = (if key x = k then Some x else find_by key k xs)"
  by (induction xs) auto

lemma find_by_del [row_simps]:
  "find_by key k (del_by key j xs) = (if k = j then None else find_by key k xs)"
  by (induction xs) (auto simp: del_by_def)

lemma set_put_by: "set (put_by key x xs) \<subseteq> insert x (set xs)"
  by (induction xs) auto

lemma in_put_by: "y \<in> set (put_by key x xs) \<Longrightarrow> y = x \<or> y \<in> set xs"
  using set_put_by by fastforce

lemma set_put_by_distinct:
  "distinct (map key xs) \<Longrightarrow> set (put_by key x xs) = insert x {y \<in> set xs. key y \<noteq> key x}"
  by (induction xs) (auto simp: image_iff)

lemma keys_put_by:
  "map key (put_by key x xs) =
     (if key x \<in> key ` set xs then map key xs else map key xs @ [key x])"
  by (induction xs) auto

lemma distinct_put_by [row_simps]:
  "distinct (map key xs) \<Longrightarrow> distinct (map key (put_by key x xs))"
  by (simp add: keys_put_by)

lemma distinct_del_by [row_simps]:
  "distinct (map key xs) \<Longrightarrow> distinct (map key (del_by key k xs))"
  by (simp add: del_by_def distinct_map_filter)

text \<open>
  Writing one row changes a row count by that row's own difference. The statement
  is over the integers, so that differences of several writes add up.
\<close>

lemma count_put_by:
  "int (length (filter P (put_by key x xs))) =
     int (length (filter P xs)) + of_bool (P x)
       - (case find_by key (key x) xs of None \<Rightarrow> 0 | Some y \<Rightarrow> of_bool (P y))"
  by (induction xs) (auto split: option.splits)

lemma sum_put_by:
  fixes f :: "'r \<Rightarrow> nat"
  shows "find_by key (key y) xs = Some x \<Longrightarrow>
     sum_list (map f (put_by key y xs)) + f x = sum_list (map f xs) + f y"
  by (induction xs) (auto split: if_splits)

section \<open>Decimal rendering\<close>

definition digit :: "nat \<Rightarrow> char" where
  "digit n = char_of (48 + n)"

definition digit_value :: "char \<Rightarrow> nat" where
  "digit_value c = (of_char c :: nat) - 48"

definition is_digit :: "char \<Rightarrow> bool" where
  "is_digit c = (48 \<le> (of_char c :: nat) \<and> (of_char c :: nat) \<le> 57)"

fun show_nat :: "nat \<Rightarrow> string" where
  "show_nat n = (if n < 10 then [digit n] else show_nat (n div 10) @ [digit (n mod 10)])"

declare show_nat.simps [simp del]

definition show_int :: "int \<Rightarrow> string" where
  "show_int i = (if i < 0 then ''-'' @ show_nat (nat (- i)) else show_nat (nat i))"

definition read_nat :: "string \<Rightarrow> nat" where
  "read_nat s = foldl (\<lambda>n c. 10 * n + digit_value c) 0 s"

lemma of_char_digit: "n < 10 \<Longrightarrow> (of_char (digit n) :: nat) = 48 + n"
  by (simp add: digit_def of_char_of)

lemma digit_value_digit [simp]: "n < 10 \<Longrightarrow> digit_value (digit n) = n"
  by (simp add: digit_value_def of_char_digit)

lemma is_digit_digit [simp]: "n < 10 \<Longrightarrow> is_digit (digit n)"
  by (simp add: is_digit_def of_char_digit)

lemma show_nat_digits: "\<forall>c \<in> set (show_nat n). is_digit c"
proof (induction n rule: show_nat.induct)
  case (1 n)
  show ?case
  proof (cases "n < 10")
    case True
    then show ?thesis by (subst show_nat.simps) simp
  next
    case False
    with 1 show ?thesis by (subst show_nat.simps) auto
  qed
qed

lemma show_nat_nonempty [simp]: "show_nat n \<noteq> []"
  by (subst show_nat.simps) simp

lemma read_show_nat [simp]: "read_nat (show_nat n) = n"
proof (induction n rule: show_nat.induct)
  case (1 n)
  show ?case
  proof (cases "n < 10")
    case True
    then show ?thesis by (subst show_nat.simps) (simp add: read_nat_def)
  next
    case False
    with 1 have "read_nat (show_nat (n div 10)) = n div 10" by simp
    with False show ?thesis
      by (subst show_nat.simps) (simp add: read_nat_def)
  qed
qed

lemma minus_not_digit: "\<not> is_digit (CHR ''-'')"
  by (simp add: is_digit_def)

lemma show_int_inject: "show_int a = show_int b \<longleftrightarrow> a = b"
proof
  assume eq: "show_int a = show_int b"
  have neg: "x < 0 \<longleftrightarrow> hd (show_int x) = CHR ''-''" for x
  proof (cases "x < 0")
    case True
    then show ?thesis by (simp add: show_int_def)
  next
    case False
    then have "hd (show_int x) \<in> set (show_nat (nat x))"
      by (simp add: show_int_def)
    then have "is_digit (hd (show_int x))" using show_nat_digits by blast
    with False show ?thesis using minus_not_digit by metis
  qed
  have same: "a < 0 \<longleftrightarrow> b < 0" using neg[of a] neg[of b] eq by simp
  have "nat \<bar>a\<bar> = nat \<bar>b\<bar>"
    using eq same by (auto simp: show_int_def split: if_splits dest!: arg_cong[where f = read_nat])
  with same show "a = b" by linarith
qed simp

section \<open>Strings\<close>

text \<open>The %q verb, for strings without characters to escape.\<close>

definition quoted :: "string \<Rightarrow> string" where
  "quoted s = [CHR 0x22] @ s @ [CHR 0x22]"

text \<open>The %v verb on a list of strings.\<close>

definition bracketed :: "string list \<Rightarrow> string" where
  "bracketed xs = ''['' @ (case xs of [] \<Rightarrow> [] | y # ys \<Rightarrow> fold (\<lambda>z acc. acc @ '' '' @ z) ys y) @ '']''"

definition has_prefix :: "string \<Rightarrow> string \<Rightarrow> bool" where
  "has_prefix s p = (take (length p) s = p)"

lemma has_prefix_append [simp]: "has_prefix (p @ s) p"
  by (simp add: has_prefix_def)

text \<open>The dash of the source's messages, three bytes of UTF-8.\<close>

definition em_dash :: string where "em_dash = [char_of (226 :: nat), char_of (128 :: nat), char_of (148 :: nat)]"

end
