(* ===== verification/Rows.thy ===== *)
theory Rows
  imports Prelude
begin

text \<open>
  The data of the program: the rows of internal/adapters/postgresql/sqlc/models.go,
  the order statuses of internal/orders/status.go, the errors that cross package
  boundaries, the database as a record of tables and sequences, and row writes.

  A nullable column (pgtype.Text, pgtype.Timestamptz, pgtype.Int8 with Valid) is an
  option; timestamps are integers on one clock (microseconds); int64 ids and INTEGER
  columns are integers, the range and CHECK constraints of the migrations being tested by the
  statements that write them.

  A row write carries the version it replaces (old) and the version it installs
  (new), as PostgreSQL's tuple versions do. The accounting lemmas at the end say by how
  much a list of writes moves the two stock counters and the order counts of a product.
\<close>

section \<open>Errors\<close>

text \<open>
  The sentinel errors of the orders package, pgx.ErrNoRows, the server's error classes
  the code can meet, the driver's transaction errors, infrastructure failures (a lost
  connection, a cancelled context), and Go's %w wrapping.
\<close>

datatype error =
    ErrNoRows
  | UniqueViolation
  | CheckViolation
  | ForeignKeyViolation
  | InvalidLimit
  | ErrTxAborted
  | ErrTxClosed
  | ErrCommitRollback
  | Infra string
  | ErrOutOfStock
  | ErrOrderNotPending
  | ErrForbidden
  | ErrPaidButNotFulfillable
  | ErrIdempotencyKeyReused
  | ErrReserveInProgress
  | ErrPayload string
  | ErrConfig string
  | Wrapped string error
  | Noted error string

text \<open>
  errors.Is unwraps before it compares. Wrapped m e is fmt.Errorf of m followed by %w,
  Noted e m is %w followed by m.
\<close>

fun errors_Is :: "error \<Rightarrow> error \<Rightarrow> bool" where
  "errors_Is (Wrapped m e) t = (Wrapped m e = t \<or> errors_Is e t)"
| "errors_Is (Noted e m) t = (Noted e m = t \<or> errors_Is e t)"
| "errors_Is e t = (e = t)"

text \<open>
  Error(): the texts the repository itself fixes; those of the database driver (drv) are
  not part of it.
\<close>

fun error_text :: "(error \<Rightarrow> string) \<Rightarrow> error \<Rightarrow> string" where
  "error_text drv (Wrapped m e) = m @ '': '' @ error_text drv e"
| "error_text drv (Noted e m) = error_text drv e @ '': '' @ m"
| "error_text drv (Infra s) = s"
| "error_text drv (ErrPayload s) = s"
| "error_text drv (ErrConfig s) = s"
| "error_text drv ErrOutOfStock = ''product is out of stock''"
| "error_text drv ErrOrderNotPending = ''order is not pending''"
| "error_text drv ErrForbidden = ''caller does not own this order''"
| "error_text drv ErrPaidButNotFulfillable =
     ''payment succeeded for an order that is no longer awaiting payment''"
| "error_text drv ErrIdempotencyKeyReused = ''idempotency key already used with a different request''"
| "error_text drv ErrReserveInProgress = ''a request with this idempotency key is still in progress''"
| "error_text drv e = drv e"

section \<open>Order status\<close>

definition StatusPending :: string where "StatusPending = ''pending''"
definition StatusAwaitingPayment :: string where "StatusAwaitingPayment = ''awaiting_payment''"
definition StatusCompleted :: string where "StatusCompleted = ''completed''"
definition StatusFailed :: string where "StatusFailed = ''failed''"
definition StatusExpired :: string where "StatusExpired = ''expired''"
definition StatusCancelled :: string where "StatusCancelled = ''cancelled''"

lemmas status_defs = StatusPending_def StatusAwaitingPayment_def StatusCompleted_def
  StatusFailed_def StatusExpired_def StatusCancelled_def

lemma status_distinct [simp]:
  "distinct [StatusPending, StatusAwaitingPayment, StatusCompleted, StatusFailed,
     StatusExpired, StatusCancelled]"
  by (simp add: status_defs)

lemma status_neqs [simp]:
  "StatusPending \<noteq> StatusAwaitingPayment" "StatusPending \<noteq> StatusCompleted"
  "StatusPending \<noteq> StatusFailed" "StatusPending \<noteq> StatusExpired"
  "StatusPending \<noteq> StatusCancelled" "StatusAwaitingPayment \<noteq> StatusCompleted"
  "StatusAwaitingPayment \<noteq> StatusFailed" "StatusAwaitingPayment \<noteq> StatusExpired"
  "StatusAwaitingPayment \<noteq> StatusCancelled" "StatusCompleted \<noteq> StatusFailed"
  "StatusCompleted \<noteq> StatusExpired" "StatusCompleted \<noteq> StatusCancelled"
  "StatusFailed \<noteq> StatusExpired" "StatusFailed \<noteq> StatusCancelled"
  "StatusExpired \<noteq> StatusCancelled"
  using status_distinct by auto

lemmas status_neqs' [simp] = status_neqs [symmetric]

text \<open>The states that hold a unit of stock.\<close>

definition live_status :: "string \<Rightarrow> bool" where
  "live_status st = (st = StatusPending \<or> st = StatusAwaitingPayment)"

lemma live_status_simps [simp]:
  "live_status StatusPending" "live_status StatusAwaitingPayment"
  "\<not> live_status StatusCompleted" "\<not> live_status StatusFailed"
  "\<not> live_status StatusExpired" "\<not> live_status StatusCancelled"
  by (simp_all add: live_status_def)

text \<open>
  The lifecycle diagram of status.go, one edge per guarded UPDATE. Expiry leaves both
  live states, DELETE only the first.
\<close>

inductive lifecycle :: "string \<Rightarrow> string \<Rightarrow> bool" where
  checkout: "lifecycle StatusPending StatusAwaitingPayment"
| cancel: "lifecycle StatusPending StatusCancelled"
| expire_pending: "lifecycle StatusPending StatusExpired"
| expire_awaiting: "lifecycle StatusAwaitingPayment StatusExpired"
| complete: "lifecycle StatusAwaitingPayment StatusCompleted"
| fail: "lifecycle StatusAwaitingPayment StatusFailed"

inductive_simps lifecycle_from_pending [simp]: "lifecycle StatusPending t"
inductive_simps lifecycle_from_awaiting [simp]: "lifecycle StatusAwaitingPayment t"

lemma lifecycle_from_terminal: "\<not> live_status s \<Longrightarrow> \<not> lifecycle s t"
  by (auto elim: lifecycle.cases)

section \<open>Rows\<close>

record customer =
  c_ID :: int
  c_Email :: string
  c_CreatedAt :: int
  c_CognitoSub :: "string option"

record order =
  o_ID :: int
  o_CustomerID :: int
  o_ProductID :: int
  o_Status :: string
  o_CreatedAt :: int
  o_TotalInCents :: int
  o_ExpiresAt :: "int option"
  o_StripePaymentIntentID :: "string option"

record order_idempotency =
  i_CognitoSub :: string
  i_IdemKey :: string
  i_RequestHash :: string
  i_OrderID :: "int option"
  i_CreatedAt :: int

record product =
  p_ID :: int
  p_Name :: string
  p_PriceInCents :: int
  p_CreatedAt :: int
  p_StartAt :: int

record stock =
  s_ID :: int
  s_ProductID :: int
  s_Quantity :: int
  s_NumReserved :: int

record stripe_event =
  e_ID :: string
  e_Type :: string
  e_Payload :: string
  e_ReceivedAt :: int
  e_ProcessedAt :: "int option"
  e_Attempts :: int
  e_LastError :: "string option"
  e_StripeCreatedAt :: "int option"

text \<open>The key of an order_idempotency row is the pair of its first two columns.\<close>

definition i_key :: "order_idempotency \<Rightarrow> string \<times> string" where
  "i_key r = (i_CognitoSub r, i_IdemKey r)"

section \<open>The database\<close>

record db =
  customers :: "customer list"
  products :: "product list"
  stocks :: "stock list"
  orders :: "order list"
  idems :: "order_idempotency list"
  events :: "stripe_event list"
  customer_seq :: int
  product_seq :: int
  stock_seq :: int
  order_seq :: int

definition empty_db :: db where
  "empty_db = \<lparr>customers = [], products = [], stocks = [], orders = [], idems = [], events = [],
     customer_seq = 1, product_seq = 1, stock_seq = 1, order_seq = 1\<rparr>"

datatype seqname = CustomerSeq | ProductSeq | StockSeq | OrderSeq

text \<open>nextval is not transactional: a sequence keeps its advance when the transaction rolls back.\<close>

fun burn :: "seqname \<Rightarrow> db \<Rightarrow> db" where
  "burn CustomerSeq d = d\<lparr>customer_seq := customer_seq d + 1\<rparr>"
| "burn ProductSeq d = d\<lparr>product_seq := product_seq d + 1\<rparr>"
| "burn StockSeq d = d\<lparr>stock_seq := stock_seq d + 1\<rparr>"
| "burn OrderSeq d = d\<lparr>order_seq := order_seq d + 1\<rparr>"

definition burns :: "seqname list \<Rightarrow> db \<Rightarrow> db" where
  "burns sq d = fold burn sq d"

lemma burns_Nil [simp]: "burns [] d = d"
  by (simp add: burns_def)

lemma burns_Cons [simp]: "burns (s # sq) d = burns sq (burn s d)"
  by (simp add: burns_def)

definition find_order :: "int \<Rightarrow> db \<Rightarrow> order option" where
  "find_order i d = find_by o_ID i (orders d)"

definition find_stock :: "int \<Rightarrow> db \<Rightarrow> stock option" where
  "find_stock p d = find_by s_ProductID p (stocks d)"

definition find_product :: "int \<Rightarrow> db \<Rightarrow> product option" where
  "find_product p d = find_by p_ID p (products d)"

definition find_customer :: "int \<Rightarrow> db \<Rightarrow> customer option" where
  "find_customer i d = find_by c_ID i (customers d)"

definition find_idem :: "string \<times> string \<Rightarrow> db \<Rightarrow> order_idempotency option" where
  "find_idem k d = find_by i_key k (idems d)"

definition find_event :: "string \<Rightarrow> db \<Rightarrow> stripe_event option" where
  "find_event i d = find_by e_ID i (events d)"

definition put_order :: "order \<Rightarrow> db \<Rightarrow> db" where
  "put_order r d = d\<lparr>orders := put_by o_ID r (orders d)\<rparr>"

definition put_stock :: "stock \<Rightarrow> db \<Rightarrow> db" where
  "put_stock r d = d\<lparr>stocks := put_by s_ProductID r (stocks d)\<rparr>"

definition put_product :: "product \<Rightarrow> db \<Rightarrow> db" where
  "put_product r d = d\<lparr>products := put_by p_ID r (products d)\<rparr>"

definition put_customer :: "customer \<Rightarrow> db \<Rightarrow> db" where
  "put_customer r d = d\<lparr>customers := put_by c_ID r (customers d)\<rparr>"

definition put_idem :: "order_idempotency \<Rightarrow> db \<Rightarrow> db" where
  "put_idem r d = d\<lparr>idems := put_by i_key r (idems d)\<rparr>"

definition del_idem :: "string \<times> string \<Rightarrow> db \<Rightarrow> db" where
  "del_idem k d = d\<lparr>idems := del_by i_key k (idems d)\<rparr>"

definition put_event :: "stripe_event \<Rightarrow> db \<Rightarrow> db" where
  "put_event r d = d\<lparr>events := put_by e_ID r (events d)\<rparr>"

lemmas table_defs = find_order_def find_stock_def find_product_def find_customer_def
  find_idem_def find_event_def put_order_def put_stock_def put_product_def
  put_customer_def put_idem_def del_idem_def put_event_def

text \<open>
  Every table obeys the same law, stated once as an interface: a put is seen by the find
  with its own key and by no other.
\<close>

locale row_store =
  fixes find :: "'k \<Rightarrow> 'd \<Rightarrow> 'r option"
    and put :: "'r \<Rightarrow> 'd \<Rightarrow> 'd"
    and key :: "'r \<Rightarrow> 'k"
  assumes find_put: "find k (put r d) = (if key r = k then Some r else find k d)"
begin

lemma find_put_same: "find (key r) (put r d) = Some r"
  by (simp add: find_put)

lemma find_put_other: "k \<noteq> key r \<Longrightarrow> find k (put r d) = find k d"
  by (simp add: find_put)

lemma find_never_lost: "find k d \<noteq> None \<Longrightarrow> find k (put r d) \<noteq> None"
  by (simp add: find_put)

lemma last_put_wins: "key r = key r' \<Longrightarrow> find k (put r (put r' d)) = find k (put r d)"
  by (simp add: find_put)

end

interpretation order_rows: row_store find_order put_order o_ID
  by unfold_locales (simp add: table_defs row_simps)
interpretation stock_rows: row_store find_stock put_stock s_ProductID
  by unfold_locales (simp add: table_defs row_simps)
interpretation product_rows: row_store find_product put_product p_ID
  by unfold_locales (simp add: table_defs row_simps)
interpretation customer_rows: row_store find_customer put_customer c_ID
  by unfold_locales (simp add: table_defs row_simps)
interpretation idem_rows: row_store find_idem put_idem i_key
  by unfold_locales (simp add: table_defs row_simps)
interpretation event_rows: row_store find_event put_event e_ID
  by unfold_locales (simp add: table_defs row_simps)

lemmas find_puts [row_simps] = order_rows.find_put stock_rows.find_put product_rows.find_put
  customer_rows.find_put idem_rows.find_put event_rows.find_put

lemma find_del_idem [row_simps]: "find_idem k (del_idem j d) = (if k = j then None else find_idem k d)"
  by (simp add: table_defs row_simps)

text \<open>Tables do not disturb each other.\<close>

lemma find_frame [row_simps]:
  "find_order i (put_stock s d) = find_order i d" "find_order i (put_product q d) = find_order i d"
  "find_order i (put_customer c d) = find_order i d" "find_order i (put_idem m d) = find_order i d"
  "find_order i (put_event e d) = find_order i d" "find_order i (del_idem k d) = find_order i d"
  "find_stock p (put_order r d) = find_stock p d" "find_stock p (put_product q d) = find_stock p d"
  "find_stock p (put_customer c d) = find_stock p d" "find_stock p (put_idem m d) = find_stock p d"
  "find_stock p (put_event e d) = find_stock p d" "find_stock p (del_idem k d) = find_stock p d"
  "find_product p (put_order r d) = find_product p d" "find_product p (put_stock s d) = find_product p d"
  "find_product p (put_customer c d) = find_product p d" "find_product p (put_idem m d) = find_product p d"
  "find_product p (put_event e d) = find_product p d" "find_product p (del_idem k d) = find_product p d"
  "find_customer i (put_order r d) = find_customer i d" "find_customer i (put_stock s d) = find_customer i d"
  "find_customer i (put_product q d) = find_customer i d" "find_customer i (put_idem m d) = find_customer i d"
  "find_customer i (put_event e d) = find_customer i d" "find_customer i (del_idem k d) = find_customer i d"
  "find_idem j (put_order r d) = find_idem j d" "find_idem j (put_stock s d) = find_idem j d"
  "find_idem j (put_product q d) = find_idem j d" "find_idem j (put_customer c d) = find_idem j d"
  "find_idem j (put_event e d) = find_idem j d"
  "find_event v (put_order r d) = find_event v d" "find_event v (put_stock s d) = find_event v d"
  "find_event v (put_product q d) = find_event v d" "find_event v (put_customer c d) = find_event v d"
  "find_event v (put_idem m d) = find_event v d" "find_event v (del_idem k d) = find_event v d"
  by (simp_all add: table_defs)

lemma find_burns [row_simps]:
  "orders (burns sq d) = orders d" "stocks (burns sq d) = stocks d"
  "customers (burns sq d) = customers d" "products (burns sq d) = products d"
  "idems (burns sq d) = idems d" "events (burns sq d) = events d"
  "find_order i (burns sq d) = find_order i d" "find_stock p (burns sq d) = find_stock p d"
  "find_product p (burns sq d) = find_product p d" "find_customer i (burns sq d) = find_customer i d"
  "find_idem k (burns sq d) = find_idem k d" "find_event v (burns sq d) = find_event v d"
proof -
  have tables: "orders (burns sq d) = orders d \<and> stocks (burns sq d) = stocks d \<and>
    customers (burns sq d) = customers d \<and> products (burns sq d) = products d \<and>
    idems (burns sq d) = idems d \<and> events (burns sq d) = events d" for d
  proof (induction sq arbitrary: d)
    case (Cons s sq)
    then show ?case by (cases s) simp_all
  qed simp
  then show "orders (burns sq d) = orders d" "stocks (burns sq d) = stocks d"
    "customers (burns sq d) = customers d" "products (burns sq d) = products d"
    "idems (burns sq d) = idems d" "events (burns sq d) = events d" by simp_all
  from tables show "find_order i (burns sq d) = find_order i d" "find_stock p (burns sq d) = find_stock p d"
    "find_product p (burns sq d) = find_product p d" "find_customer i (burns sq d) = find_customer i d"
    "find_idem k (burns sq d) = find_idem k d" "find_event v (burns sq d) = find_event v d"
    by (simp_all add: find_order_def find_stock_def find_product_def find_customer_def
        find_idem_def find_event_def)
qed

end
