(* ===== verification/Writes.thy ===== *)
theory Writes
  imports Rows
begin

text \<open>
  Row versions. A statement does not change the tables: it yields the row versions it
  wants installed, and the session decides when they become visible. Stock and order
  versions carry the version they replace, because the inventory accounting is about
  differences; every write names the lock keys it needs (row locks, and the entries of
  the unique indexes it inserts into).

  The theory ends with the invariant of the committed database and the lemma the whole
  development rests on: installing a list of versions that was computed against the
  current rows (chain), changes only what the row rules allow (row_ok), and moves the
  counters of every product by the same amount as its orders (balanced) keeps the
  invariant.
\<close>

section \<open>Lock keys and row versions\<close>

datatype lockkey =
    KStock int
  | KOrder int
  | KIntent string
  | KCustomer int
  | KEmail string
  | KSub string
  | KProduct int
  | KIdem "string \<times> string"
  | KEvent string

datatype version =
    WStock "stock option" stock
  | WOrder "order option" order
  | WCustomer "customer option" customer
  | WProduct product
  | WIdem "order_idempotency option" order_idempotency
  | WIdemDel order_idempotency
  | WEvent "stripe_event option" stripe_event
  | WLock lockkey

definition key_list :: "('a \<Rightarrow> lockkey) \<Rightarrow> 'a option \<Rightarrow> lockkey list" where
  "key_list f x = (case x of None \<Rightarrow> [] | Some a \<Rightarrow> [f a])"

fun keys_of :: "version \<Rightarrow> lockkey list" where
  "keys_of (WStock _ s) = [KStock (s_ProductID s)]"
| "keys_of (WOrder _ r) = KOrder (o_ID r) # key_list KIntent (o_StripePaymentIntentID r)"
| "keys_of (WCustomer _ c) = [KCustomer (c_ID c), KEmail (c_Email c)] @ key_list KSub (c_CognitoSub c)"
| "keys_of (WProduct p) = [KProduct (p_ID p)]"
| "keys_of (WIdem _ r) = [KIdem (i_key r)]"
| "keys_of (WIdemDel r) = [KIdem (i_key r)]"
| "keys_of (WEvent _ e) = [KEvent (e_ID e)]"
| "keys_of (WLock k) = [k]"

fun apply_write :: "version \<Rightarrow> db \<Rightarrow> db" where
  "apply_write (WStock _ s) d = put_stock s d"
| "apply_write (WOrder _ r) d = put_order r d"
| "apply_write (WCustomer _ c) d = put_customer c d"
| "apply_write (WProduct p) d = put_product p d"
| "apply_write (WIdem _ r) d = put_idem r d"
| "apply_write (WIdemDel r) d = del_idem (i_key r) d"
| "apply_write (WEvent _ e) d = put_event e d"
| "apply_write (WLock k) d = d"

definition applys :: "version list \<Rightarrow> db \<Rightarrow> db" where
  "applys ws d = fold apply_write ws d"

lemma applys_Nil [simp]: "applys [] d = d"
  by (simp add: applys_def)

lemma applys_Cons [simp]: "applys (w # ws) d = applys ws (apply_write w d)"
  by (simp add: applys_def)

lemma applys_append [simp]: "applys (ws @ vs) d = applys vs (applys ws d)"
  by (simp add: applys_def)

section \<open>Versions computed against the current rows\<close>

fun old_ok :: "version \<Rightarrow> db \<Rightarrow> bool" where
  "old_ok (WStock old s) d =
     (find_stock (s_ProductID s) d = old \<and> (old = None \<longrightarrow> find_product (s_ProductID s) d \<noteq> None))"
| "old_ok (WOrder old r) d = (find_order (o_ID r) d = old)"
| "old_ok (WCustomer old c) d = (find_customer (c_ID c) d = old)"
| "old_ok (WProduct p) d = (find_product (p_ID p) d = None)"
| "old_ok (WIdem old r) d = (find_idem (i_key r) d = old)"
| "old_ok (WIdemDel r) d = (find_idem (i_key r) d = Some r)"
| "old_ok (WEvent old v) d = (find_event (e_ID v) d = old)"
| "old_ok (WLock k) d = True"

fun chain :: "db \<Rightarrow> version list \<Rightarrow> bool" where
  "chain d [] = True"
| "chain d (w # ws) = (old_ok w d \<and> chain (apply_write w d) ws)"

lemma chain_append [simp]: "chain d (ws @ vs) = (chain d ws \<and> chain (applys ws d) vs)"
  by (induction ws arbitrary: d) auto

text \<open>
  Only the rows whose locks are taken matter to the chain, and that the products a new
  stock row refers to are still there (products are never deleted).
\<close>

definition agree_on :: "lockkey list \<Rightarrow> db \<Rightarrow> db \<Rightarrow> bool" where
  "agree_on ks d d' =
     ((\<forall>p. KStock p \<in> set ks \<longrightarrow> find_stock p d = find_stock p d') \<and>
      (\<forall>i. KOrder i \<in> set ks \<longrightarrow> find_order i d = find_order i d') \<and>
      (\<forall>i. KCustomer i \<in> set ks \<longrightarrow> find_customer i d = find_customer i d') \<and>
      (\<forall>p. KProduct p \<in> set ks \<longrightarrow> find_product p d = find_product p d') \<and>
      (\<forall>k. KIdem k \<in> set ks \<longrightarrow> find_idem k d = find_idem k d') \<and>
      (\<forall>i. KEvent i \<in> set ks \<longrightarrow> find_event i d = find_event i d') \<and>
      (\<forall>p. find_product p d \<noteq> None \<longrightarrow> find_product p d' \<noteq> None))"

abbreviation keys_of_all :: "version list \<Rightarrow> lockkey list" where
  "keys_of_all ws \<equiv> concat (map keys_of ws)"

lemma agree_on_apply: "agree_on ks d d' \<Longrightarrow> agree_on ks (apply_write w d) (apply_write w d')"
  by (cases w) (auto simp: agree_on_def row_simps)

lemma chain_agree:
  "agree_on (keys_of_all ws) d d' \<Longrightarrow> chain d ws \<Longrightarrow> chain d' ws"
proof (induction ws arbitrary: d d')
  case (Cons w ws)
  have head: "old_ok w d'"
    using Cons.prems by (cases w) (auto simp: agree_on_def simp del: split_paired_All)
  have "agree_on (keys_of_all ws) d d'"
    using Cons.prems by (simp add: agree_on_def)
  then have "agree_on (keys_of_all ws) (apply_write w d) (apply_write w d')"
    by (rule agree_on_apply)
  then have "chain (apply_write w d') ws"
    by (rule Cons.IH) (use Cons.prems in simp)
  with head show ?case by simp
qed simp

lemma find_product_kept: "find_product p d \<noteq> None \<Longrightarrow> find_product p (apply_write w d) \<noteq> None"
  by (cases w) (auto simp: row_simps)

lemma find_product_kept_all: "find_product p d \<noteq> None \<Longrightarrow> find_product p (applys ws d) \<noteq> None"
proof (induction ws arbitrary: d)
  case (Cons w ws)
  then have "find_product p (apply_write w d) \<noteq> None" by (intro find_product_kept)
  then have "find_product p (applys ws (apply_write w d)) \<noteq> None" by (rule Cons.IH)
  then show ?case by simp
qed simp

text \<open>Versions only change the rows whose keys they name.\<close>

lemma apply_write_other:
  "KStock p \<notin> set (keys_of w) \<Longrightarrow> find_stock p (apply_write w d) = find_stock p d"
  "KOrder i \<notin> set (keys_of w) \<Longrightarrow> find_order i (apply_write w d) = find_order i d"
  "KCustomer i \<notin> set (keys_of w) \<Longrightarrow> find_customer i (apply_write w d) = find_customer i d"
  "KProduct p \<notin> set (keys_of w) \<Longrightarrow> find_product p (apply_write w d) = find_product p d"
  "KIdem k \<notin> set (keys_of w) \<Longrightarrow> find_idem k (apply_write w d) = find_idem k d"
  "KEvent v \<notin> set (keys_of w) \<Longrightarrow> find_event v (apply_write w d) = find_event v d"
  by (cases w; auto simp: row_simps)+

lemma applys_other:
  "KStock p \<notin> set (keys_of_all ws) \<Longrightarrow> find_stock p (applys ws d) = find_stock p d"
  "KOrder i \<notin> set (keys_of_all ws) \<Longrightarrow> find_order i (applys ws d) = find_order i d"
  "KCustomer i \<notin> set (keys_of_all ws) \<Longrightarrow> find_customer i (applys ws d) = find_customer i d"
  "KProduct p \<notin> set (keys_of_all ws) \<Longrightarrow> find_product p (applys ws d) = find_product p d"
  "KIdem k \<notin> set (keys_of_all ws) \<Longrightarrow> find_idem k (applys ws d) = find_idem k d"
  "KEvent v \<notin> set (keys_of_all ws) \<Longrightarrow> find_event v (applys ws d) = find_event v d"
  by (induction ws arbitrary: d; simp add: apply_write_other)+

text \<open>A commit of one session leaves the chain of a session with other locks intact.\<close>

lemma chain_stable:
  assumes "chain d ws" and "set (keys_of_all ws) \<inter> set (keys_of_all vs) = {}"
  shows "chain (applys vs d) ws"
proof -
  have "agree_on (keys_of_all ws) d (applys vs d)"
    unfolding agree_on_def
    using assms(2) find_product_kept_all
    by (auto simp: disjoint_iff applys_other [symmetric] simp del: set_concat split_paired_All)
  with assms(1) show ?thesis using chain_agree by blast
qed

lemma chain_burns [simp]: "chain (burns sq d) ws = chain d ws"
proof -
  have "agree_on ks d (burns sq d)" "agree_on ks (burns sq d) d" for ks
    by (simp_all add: agree_on_def row_simps)
  then show ?thesis using chain_agree by blast
qed

section \<open>Row rules\<close>

text \<open>The CHECK constraints of the stock table (migration 00002).\<close>

definition stock_check :: "stock \<Rightarrow> bool" where
  "stock_check s = (0 \<le> s_Quantity s \<and> 0 \<le> s_NumReserved s \<and> s_NumReserved s \<le> s_Quantity s)"

text \<open>
  What a write may do to a row: a stock version satisfies the CHECK constraints; an
  inserted order is pending; an updated order keeps its identity, its price snapshot and
  its creation time, and moves along one lifecycle edge; both keep the shape of order_typed.
\<close>

definition same_order :: "order \<Rightarrow> order \<Rightarrow> bool" where
  "same_order a b = (o_ID a = o_ID b \<and> o_CustomerID a = o_CustomerID b \<and>
     o_ProductID a = o_ProductID b \<and> o_TotalInCents a = o_TotalInCents b \<and>
     o_CreatedAt a = o_CreatedAt b)"

text \<open>
  The shape of an order row: its amount and status are within the CHECKs of migration 00006, it
  has a deadline (a row without one would never be swept), and it carries a payment intent
  exactly when its status says that it has been checked out (an expired order may have been).
\<close>

definition order_typed :: "order \<Rightarrow> bool" where
  "order_typed r =
     (o_Status r \<in> set [StatusPending, StatusAwaitingPayment, StatusCompleted, StatusFailed, StatusExpired,
        StatusCancelled] \<and>
      0 \<le> o_TotalInCents r \<and> o_ExpiresAt r \<noteq> None \<and>
      (o_Status r \<in> {StatusPending, StatusCancelled} \<longrightarrow> o_StripePaymentIntentID r = None) \<and>
      (o_Status r \<in> {StatusAwaitingPayment, StatusCompleted, StatusFailed} \<longrightarrow> o_StripePaymentIntentID r \<noteq> None))"

fun row_ok :: "version \<Rightarrow> bool" where
  "row_ok (WStock _ s) = stock_check s"
| "row_ok (WOrder None r) = (o_Status r = StatusPending \<and> order_typed r)"
| "row_ok (WOrder (Some r) r') = (same_order r r' \<and> lifecycle (o_Status r) (o_Status r') \<and>
     (order_typed r \<longrightarrow> order_typed r'))"
| "row_ok (WCustomer None c) = True"
| "row_ok (WCustomer (Some c) c') = (c_ID c = c_ID c' \<and> (c_CognitoSub c = None \<or> c_CognitoSub c = c_CognitoSub c'))"
| "row_ok (WProduct p) = (0 \<le> p_PriceInCents p)"
| "row_ok (WIdem None r) = (i_OrderID r = None)"
| "row_ok (WIdem (Some r) r') = (i_key r = i_key r' \<and> i_RequestHash r = i_RequestHash r' \<and> i_OrderID r = None)"
| "row_ok (WIdemDel r) = (i_OrderID r = None)"
| "row_ok (WEvent None v) = (e_ProcessedAt v = None \<and> e_Attempts v = 0)"
| "row_ok (WEvent (Some v) v') = (e_ID v = e_ID v' \<and> e_Type v = e_Type v' \<and> e_Payload v = e_Payload v' \<and>
     e_StripeCreatedAt v = e_StripeCreatedAt v' \<and> e_Attempts v' = e_Attempts v + 1 \<and>
     (e_ProcessedAt v = None \<or> e_ProcessedAt v' \<noteq> None))"
| "row_ok (WLock k) = True"

section \<open>Accounting\<close>

text \<open>A stock counter as a function of the product, 0 where the product has no stock row.\<close>

definition stock_val :: "(stock \<Rightarrow> int) \<Rightarrow> int \<Rightarrow> db \<Rightarrow> int" where
  "stock_val f p d = (case find_stock p d of None \<Rightarrow> 0 | Some s \<Rightarrow> f s)"

definition count_orders :: "(order \<Rightarrow> bool) \<Rightarrow> db \<Rightarrow> int" where
  "count_orders P d = int (length (filter P (orders d)))"

definition is_live :: "int \<Rightarrow> order \<Rightarrow> bool" where
  "is_live p r = (o_ProductID r = p \<and> live_status (o_Status r))"

definition is_sold :: "int \<Rightarrow> order \<Rightarrow> bool" where
  "is_sold p r = (o_ProductID r = p \<and> o_Status r = StatusCompleted)"

abbreviation reserved_of :: "int \<Rightarrow> db \<Rightarrow> int" where
  "reserved_of p d \<equiv> stock_val s_NumReserved p d"

abbreviation quantity_of :: "int \<Rightarrow> db \<Rightarrow> int" where
  "quantity_of p d \<equiv> stock_val s_Quantity p d"

abbreviation live_orders :: "int \<Rightarrow> db \<Rightarrow> int" where
  "live_orders p d \<equiv> count_orders (is_live p) d"

abbreviation sold_orders :: "int \<Rightarrow> db \<Rightarrow> int" where
  "sold_orders p d \<equiv> count_orders (is_sold p) d"

text \<open>
  The capacity of a product: units still on the shelf (reserved ones included) plus
  units sold. Nothing in the program restocks, so this is the initial quantity.
\<close>

definition capacity :: "int \<Rightarrow> db \<Rightarrow> int" where
  "capacity p d = quantity_of p d + sold_orders p d"

fun delta_stock :: "(stock \<Rightarrow> int) \<Rightarrow> int \<Rightarrow> version \<Rightarrow> int" where
  "delta_stock f p (WStock old s) =
     (if s_ProductID s = p then f s - (case old of None \<Rightarrow> 0 | Some o' \<Rightarrow> f o') else 0)"
| "delta_stock f p _ = 0"

fun delta_orders :: "(order \<Rightarrow> bool) \<Rightarrow> version \<Rightarrow> int" where
  "delta_orders P (WOrder old r) = of_bool (P r) - (case old of None \<Rightarrow> 0 | Some o' \<Rightarrow> of_bool (P o'))"
| "delta_orders P _ = 0"

definition deltas_stock :: "(stock \<Rightarrow> int) \<Rightarrow> int \<Rightarrow> version list \<Rightarrow> int" where
  "deltas_stock f p ws = sum_list (map (delta_stock f p) ws)"

definition deltas_orders :: "(order \<Rightarrow> bool) \<Rightarrow> version list \<Rightarrow> int" where
  "deltas_orders P ws = sum_list (map (delta_orders P) ws)"

lemma deltas_simps [simp]:
  "deltas_stock f p [] = 0" "deltas_orders P [] = 0"
  "deltas_stock f p (w # ws) = delta_stock f p w + deltas_stock f p ws"
  "deltas_orders P (w # ws) = delta_orders P w + deltas_orders P ws"
  "deltas_stock f p (ws @ vs) = deltas_stock f p ws + deltas_stock f p vs"
  "deltas_orders P (ws @ vs) = deltas_orders P ws + deltas_orders P vs"
  by (simp_all add: deltas_stock_def deltas_orders_def)

lemma stock_val_apply:
  "old_ok w d \<Longrightarrow> stock_val f p (apply_write w d) = stock_val f p d + delta_stock f p w"
  by (cases w) (auto simp: stock_val_def row_simps split: option.splits)

lemma count_orders_apply:
  "old_ok w d \<Longrightarrow> count_orders P (apply_write w d) = count_orders P d + delta_orders P w"
proof (cases w)
  case (WOrder old r)
  assume "old_ok w d"
  with WOrder have "find_by o_ID (o_ID r) (orders d) = old"
    by (simp add: find_order_def)
  with WOrder show ?thesis
    by (simp add: count_orders_def put_order_def count_put_by)
qed (simp_all add: count_orders_def table_defs)

lemma stock_val_applys:
  "chain d ws \<Longrightarrow> stock_val f p (applys ws d) = stock_val f p d + deltas_stock f p ws"
  by (induction ws arbitrary: d) (auto simp: stock_val_apply)

lemma count_orders_applys:
  "chain d ws \<Longrightarrow> count_orders P (applys ws d) = count_orders P d + deltas_orders P ws"
  by (induction ws arbitrary: d) (auto simp: count_orders_apply)

section \<open>Balanced writes and the committed invariant\<close>

definition inserts_stock :: "int \<Rightarrow> version list \<Rightarrow> bool" where
  "inserts_stock p ws = (\<exists>s. WStock None s \<in> set ws \<and> s_ProductID s = p)"

text \<open>
  A list of writes is balanced when, for every product, the reservations it takes or
  gives back are exactly the orders that become or cease to be live, and the units that
  leave the shelf are exactly the orders that become completed. An order is inserted only
  together with a version of its product's stock row.
\<close>

definition balanced :: "version list \<Rightarrow> bool" where
  "balanced ws =
     ((\<forall>p. deltas_stock s_NumReserved p ws = deltas_orders (is_live p) ws) \<and>
      (\<forall>p. \<not> inserts_stock p ws \<longrightarrow>
            deltas_stock s_Quantity p ws + deltas_orders (is_sold p) ws = 0) \<and>
      (\<forall>r. WOrder None r \<in> set ws \<longrightarrow>
            (\<exists>old s. WStock old s \<in> set ws \<and> s_ProductID s = o_ProductID r)))"

definition db_inv :: "db \<Rightarrow> bool" where
  "db_inv d =
     (distinct (map o_ID (orders d)) \<and>
      distinct (map s_ProductID (stocks d)) \<and>
      (\<forall>s \<in> set (stocks d). stock_check s) \<and>
      (\<forall>p. reserved_of p d = live_orders p d) \<and>
      (\<forall>r \<in> set (orders d). find_stock (o_ProductID r) d \<noteq> None) \<and>
      (\<forall>s \<in> set (stocks d). find_product (s_ProductID s) d \<noteq> None) \<and>
      distinct (map c_ID (customers d)))"

lemma db_invD:
  assumes "db_inv d"
  shows "distinct (map o_ID (orders d))" and "distinct (map s_ProductID (stocks d))"
    and "s \<in> set (stocks d) \<Longrightarrow> stock_check s"
    and "reserved_of p d = live_orders p d"
    and "r \<in> set (orders d) \<Longrightarrow> find_stock (o_ProductID r) d \<noteq> None"
    and "s \<in> set (stocks d) \<Longrightarrow> find_product (s_ProductID s) d \<noteq> None"
    and "distinct (map c_ID (customers d))"
  using assms by (simp_all add: db_inv_def)

lemma find_stock_check: "db_inv d \<Longrightarrow> find_stock p d = Some s \<Longrightarrow> stock_check s"
  by (auto simp: find_stock_def dest: find_by_SomeD db_invD(3))

lemma distinct_orders_apply:
  "distinct (map o_ID (orders d)) \<Longrightarrow> distinct (map o_ID (orders (apply_write w d)))"
  by (cases w) (simp_all add: table_defs row_simps)

lemma distinct_stocks_apply:
  "distinct (map s_ProductID (stocks d)) \<Longrightarrow> distinct (map s_ProductID (stocks (apply_write w d)))"
  by (cases w) (simp_all add: table_defs row_simps)

lemma distinct_customers_apply:
  "distinct (map c_ID (customers d)) \<Longrightarrow> distinct (map c_ID (customers (apply_write w d)))"
  by (cases w) (simp_all add: table_defs row_simps)

lemma distinct_applys:
  "distinct (map o_ID (orders d)) \<Longrightarrow> distinct (map o_ID (orders (applys ws d)))"
  "distinct (map c_ID (customers d)) \<Longrightarrow> distinct (map c_ID (customers (applys ws d)))"
  by (induction ws arbitrary: d; simp add: distinct_orders_apply distinct_customers_apply)+

lemma stock_checks_apply:
  "row_ok w \<Longrightarrow> \<forall>s \<in> set (stocks d). stock_check s \<Longrightarrow>
     \<forall>s \<in> set (stocks (apply_write w d)). stock_check s"
  by (cases w) (auto simp: table_defs dest: in_put_by)

lemma find_stock_kept: "find_stock p d \<noteq> None \<Longrightarrow> find_stock p (apply_write w d) \<noteq> None"
  by (cases w) (auto simp: row_simps)

lemma find_stock_kept_all: "find_stock p d \<noteq> None \<Longrightarrow> find_stock p (applys ws d) \<noteq> None"
proof (induction ws arbitrary: d)
  case (Cons w ws)
  then have "find_stock p (apply_write w d) \<noteq> None" by (intro find_stock_kept)
  then have "find_stock p (applys ws (apply_write w d)) \<noteq> None" by (rule Cons.IH)
  then show ?case by simp
qed simp

lemma structure_applys:
  assumes "\<forall>w \<in> set ws. row_ok w"
    and "distinct (map o_ID (orders d))" "distinct (map s_ProductID (stocks d))"
    and "\<forall>s \<in> set (stocks d). stock_check s"
  shows "distinct (map o_ID (orders (applys ws d)))"
    and "distinct (map s_ProductID (stocks (applys ws d)))"
    and "\<forall>s \<in> set (stocks (applys ws d)). stock_check s"
proof -
  have "distinct (map o_ID (orders (applys ws d))) \<and> distinct (map s_ProductID (stocks (applys ws d))) \<and>
    (\<forall>s \<in> set (stocks (applys ws d)). stock_check s)"
    using assms
  proof (induction ws arbitrary: d)
    case (Cons w ws)
    have "\<forall>s \<in> set (stocks (apply_write w d)). stock_check s"
      using Cons.prems by (intro stock_checks_apply) simp_all
    with Cons.IH [of "apply_write w d"] Cons.prems show ?case
      by (simp add: distinct_orders_apply distinct_stocks_apply)
  qed simp
  then show "distinct (map o_ID (orders (applys ws d)))"
    "distinct (map s_ProductID (stocks (applys ws d)))"
    "\<forall>s \<in> set (stocks (applys ws d)). stock_check s" by simp_all
qed

text \<open>
  Where an order comes from: every order of the new database has the product of an order
  of the old database, or of one that the writes inserted.
\<close>

lemma in_orders_applysD:
  assumes "r \<in> set (orders (applys ws d))" "chain d ws" "\<forall>w \<in> set ws. row_ok w"
  shows "(\<exists>r0 \<in> set (orders d). o_ProductID r0 = o_ProductID r) \<or>
    (\<exists>r1. WOrder None r1 \<in> set ws \<and> o_ProductID r1 = o_ProductID r)"
  using assms
proof (induction ws arbitrary: d)
  case (Cons w ws)
  consider (before) "\<exists>r0 \<in> set (orders (apply_write w d)). o_ProductID r0 = o_ProductID r"
    | (later) "\<exists>r1. WOrder None r1 \<in> set ws \<and> o_ProductID r1 = o_ProductID r"
    using Cons by auto
  then show ?case
  proof cases
    case before
    then obtain r0 where r0: "r0 \<in> set (orders (apply_write w d))" "o_ProductID r0 = o_ProductID r"
      by blast
    show ?thesis
    proof (cases "\<exists>r1. w = WOrder None r1 \<and> o_ProductID r1 = o_ProductID r")
      case True
      then show ?thesis by auto
    next
      case False
      have "\<exists>x \<in> set (orders d). o_ProductID x = o_ProductID r0"
      proof (cases w)
        case (WOrder old r')
        show ?thesis
        proof (cases "r0 \<in> set (orders d)")
          case False': False
          then have "r0 = r'" using r0 WOrder by (auto simp: put_order_def dest: in_put_by)
          then obtain r2 where "old = Some r2" using False WOrder r0 by (cases old) auto
          then show ?thesis
            using Cons.prems \<open>r0 = r'\<close> WOrder
            by (auto simp: find_order_def same_order_def dest!: find_by_SomeD)
        qed auto
      qed (use r0 in \<open>auto simp: table_defs\<close>)
      with r0 show ?thesis by auto
    qed
  qed auto
qed auto

lemma stock_version_installed:
  "WStock old s \<in> set ws \<Longrightarrow> find_stock (s_ProductID s) (applys ws d) \<noteq> None"
proof (induction ws arbitrary: d)
  case (Cons w ws)
  show ?case
  proof (cases "w = WStock old s")
    case True
    then have "find_stock (s_ProductID s) (apply_write w d) \<noteq> None"
      by (simp add: row_simps)
    then show ?thesis by (simp only: applys_Cons find_stock_kept_all not_False_eq_True)
  next
    case False
    with Cons show ?thesis by simp
  qed
qed simp

lemma chain_no_insert:
  "chain d ws \<Longrightarrow> find_stock p d \<noteq> None \<Longrightarrow> \<not> inserts_stock p ws"
proof (induction ws arbitrary: d)
  case (Cons w ws)
  then have "find_stock p (apply_write w d) \<noteq> None" by (intro find_stock_kept)
  with Cons have "\<not> inserts_stock p ws" by auto
  moreover have "w \<noteq> WStock None s \<or> s_ProductID s \<noteq> p" for s
    using Cons.prems by auto
  ultimately show ?case by (auto simp: inserts_stock_def)
qed (simp add: inserts_stock_def)

lemma stock_products_apply:
  "old_ok w d \<Longrightarrow> \<forall>s \<in> set (stocks d). find_product (s_ProductID s) d \<noteq> None \<Longrightarrow>
     \<forall>s \<in> set (stocks (apply_write w d)). find_product (s_ProductID s) (apply_write w d) \<noteq> None"
proof (cases w)
  case (WStock old s)
  assume ok: "old_ok w d" and all: "\<forall>s \<in> set (stocks d). find_product (s_ProductID s) d \<noteq> None"
  have "find_product (s_ProductID s) d \<noteq> None"
  proof (cases old)
    case None
    with WStock ok show ?thesis by simp
  next
    case (Some s0)
    with WStock ok have "s0 \<in> set (stocks d)" "s_ProductID s0 = s_ProductID s"
      by (auto simp: find_stock_def dest: find_by_SomeD)
    with all show ?thesis by metis
  qed
  with WStock all show ?thesis
    by (auto simp: put_stock_def find_product_def dest!: in_put_by)
qed (auto simp: table_defs find_by_put)

lemma stock_products_applys:
  "chain d ws \<Longrightarrow> \<forall>s \<in> set (stocks d). find_product (s_ProductID s) d \<noteq> None \<Longrightarrow>
     \<forall>s \<in> set (stocks (applys ws d)). find_product (s_ProductID s) (applys ws d) \<noteq> None"
proof (induction ws arbitrary: d)
  case (Cons w ws)
  then have "\<forall>s \<in> set (stocks (apply_write w d)). find_product (s_ProductID s) (apply_write w d) \<noteq> None"
    by (intro stock_products_apply) simp_all
  with Cons show ?case by simp
qed simp

text \<open>The lemma of this theory: balanced, current, rule-abiding writes keep the invariant.\<close>

lemma db_inv_applys:
  assumes inv: "db_inv d" and ch: "chain d ws" and ok: "\<forall>w \<in> set ws. row_ok w"
    and bal: "balanced ws"
  shows "db_inv (applys ws d)"
proof -
  have live: "reserved_of p (applys ws d) = live_orders p (applys ws d)" for p
    using bal db_invD(4) [OF inv] ch
    by (simp add: stock_val_applys count_orders_applys balanced_def)
  have homed: "find_stock (o_ProductID r) (applys ws d) \<noteq> None"
    if r: "r \<in> set (orders (applys ws d))" for r
    using in_orders_applysD [OF r ch ok]
  proof
    assume "\<exists>r0 \<in> set (orders d). o_ProductID r0 = o_ProductID r"
    then have "find_stock (o_ProductID r) d \<noteq> None"
      using db_invD(5) [OF inv] by metis
    then show ?thesis by (rule find_stock_kept_all)
  next
    assume "\<exists>r1. WOrder None r1 \<in> set ws \<and> o_ProductID r1 = o_ProductID r"
    then show ?thesis
      using bal stock_version_installed unfolding balanced_def by metis
  qed
  show ?thesis
    unfolding db_inv_def
    using structure_applys [OF ok db_invD(1,2) [OF inv]] db_invD(3) [OF inv] live homed
      stock_products_applys [OF ch] db_invD(6) [OF inv] distinct_applys(2) [OF db_invD(7) [OF inv]]
    by blast
qed

lemma capacity_applys:
  assumes "chain d ws" "balanced ws" "find_stock p d \<noteq> None"
  shows "capacity p (applys ws d) = capacity p d"
  using assms chain_no_insert [OF assms(1,3)]
  by (simp add: capacity_def stock_val_applys count_orders_applys balanced_def)

lemma db_inv_burns [simp]: "db_inv (burns sq d) = db_inv d"
  by (simp add: db_inv_def row_simps stock_val_def count_orders_def)

lemma capacity_burns [simp]: "capacity p (burns sq d) = capacity p d"
  by (simp add: capacity_def row_simps stock_val_def count_orders_def)

text \<open>What the invariant says to a reader: nothing is oversold.\<close>

lemma db_inv_not_oversold:
  assumes "db_inv d"
  shows "0 \<le> reserved_of p d" "reserved_of p d \<le> quantity_of p d"
    and "live_orders p d + sold_orders p d \<le> capacity p d"
proof -
  have "stock_check s" if "find_stock p d = Some s" for s
    using assms that by (rule find_stock_check)
  then show bounds: "0 \<le> reserved_of p d" "reserved_of p d \<le> quantity_of p d"
    by (auto simp: stock_val_def stock_check_def split: option.splits)
  show "live_orders p d + sold_orders p d \<le> capacity p d"
    using bounds db_invD(4) [OF assms, of p] by (simp add: capacity_def)
qed

lemma db_inv_empty [simp]: "db_inv empty_db"
  by (simp add: db_inv_def empty_db_def stock_val_def find_stock_def count_orders_def)

end
