(* ===== verification/Prog.thy ===== *)
theory Prog
  imports Writes
begin

text \<open>
  Programs. A Go function that talks to the database is a tree of steps: SQL statements,
  BEGIN, COMMIT, ROLLBACK, and steps on the process's own memory (the resolver cache).
  Each step is atomic; between two steps any other session may run. The same tree is run
  alone (run) and interleaved with others (theory Sessions), so the functional theorems
  and the concurrency theorems are about one definition.

  The correspondence with the code: call m k is the idiom x, err := m; if err != nil
  { return err }; handle m k is a call whose error is inspected; exec s sends the
  statement s; in_tx body is db.Begin, the deferred tx.Rollback and the body; commit is
  tx.Commit. Statements outside in_tx run in their own implicit transaction, as they do on
  the pool. The transactions of one goroutine form a stack: the worker holds one open on one
  connection while the orders service opens another on a second connection.

  Every step is subject to the environment's choice: it may be healthy, its request may be
  lost before the server acts on it, or its reply may be lost after the server acted.
\<close>

section \<open>Programs\<close>

text \<open>
  What a statement sees: its view of the tables (READ COMMITTED: the committed rows
  overlaid with the transaction's own versions), the transaction's now(), and which keys
  other transactions hold (for SKIP LOCKED).
\<close>

record env =
  view :: db
  env_now :: int
  locked :: "lockkey \<Rightarrow> bool"

text \<open>
  A reply: the rows or an error, the row versions to install, the sequences advanced.
  ErrNoRows is the client's reading of an empty answer; any other error is raised by the
  server and poisons an open transaction.
\<close>

datatype 'r reply = Reply "error + 'r" "version list" "seqname list"

type_synonym 'r stmt = "env \<Rightarrow> 'r reply"

definition server_error :: "error + 'r \<Rightarrow> bool" where
  "server_error r = (case r of Inl e \<Rightarrow> e \<noteq> ErrNoRows | Inr _ \<Rightarrow> False)"

lemma server_error_simps [simp]:
  "server_error (Inl e) = (e \<noteq> ErrNoRows)" "\<not> server_error (Inr x)"
  by (simp_all add: server_error_def)

type_synonym effect = "version list \<times> seqname list \<times> bool"
type_synonym cache = "(string \<times> int) list"

datatype 'a prog =
    Return "error + 'a"
  | Stmt "env \<Rightarrow> effect \<times> 'a prog" "error \<Rightarrow> 'a prog"
  | Begin "error option \<Rightarrow> 'a prog"
  | Commit "error option \<Rightarrow> 'a prog"
  | Rollback "'a prog"
  | Mem "cache \<Rightarrow> cache \<times> 'a prog"

primrec handle :: "'a prog \<Rightarrow> (error + 'a \<Rightarrow> 'b prog) \<Rightarrow> 'b prog" where
  "handle (Return r) k = k r"
| "handle (Stmt f h) k = Stmt (\<lambda>e. map_prod id (\<lambda>p. handle p k) (f e)) (\<lambda>x. handle (h x) k)"
| "handle (Begin b) k = Begin (\<lambda>x. handle (b x) k)"
| "handle (Commit b) k = Commit (\<lambda>x. handle (b x) k)"
| "handle (Rollback p) k = Rollback (handle p k)"
| "handle (Mem f) k = Mem (\<lambda>c. map_prod id (\<lambda>p. handle p k) (f c))"

definition ret :: "'a \<Rightarrow> 'a prog" where
  "ret x = Return (Inr x)"

definition throw :: "error \<Rightarrow> 'a prog" where
  "throw e = Return (Inl e)"

definition call :: "'a prog \<Rightarrow> ('a \<Rightarrow> 'b prog) \<Rightarrow> 'b prog" where
  "call m k = handle m (\<lambda>r. case r of Inl e \<Rightarrow> throw e | Inr x \<Rightarrow> k x)"

definition exec :: "'r stmt \<Rightarrow> 'r prog" where
  "exec s = Stmt (\<lambda>e. case s e of Reply r ws sq \<Rightarrow> ((ws, sq, server_error r), Return r)) throw"

definition commit :: "unit prog" where
  "commit = Commit (\<lambda>x. case x of None \<Rightarrow> ret () | Some e \<Rightarrow> throw e)"

definition in_tx :: "'a prog \<Rightarrow> 'a prog" where
  "in_tx body = Begin (\<lambda>x. case x of
      Some e \<Rightarrow> throw e
    | None \<Rightarrow> handle body (\<lambda>r. Rollback (Return r)))"

text \<open>Induction on programs, with the tree below a statement reached by projection.\<close>

lemma prog_induct [case_names Return Stmt Begin Commit Rollback Mem]:
  assumes "\<And>r. P (Return r)"
    and "\<And>f h. (\<And>e. P (snd (f e))) \<Longrightarrow> (\<And>x. P (h x)) \<Longrightarrow> P (Stmt f h)"
    and "\<And>b. (\<And>x. P (b x)) \<Longrightarrow> P (Begin b)"
    and "\<And>b. (\<And>x. P (b x)) \<Longrightarrow> P (Commit b)"
    and "\<And>q. P q \<Longrightarrow> P (Rollback q)"
    and "\<And>m. (\<And>c. P (snd (m c))) \<Longrightarrow> P (Mem m)"
  shows "P p"
proof (induction p)
  case (Stmt f h)
  have "P (snd (f e))" for e
    by (rule Stmt.IH(1) [of "f e"]) (auto intro: rangeI simp: snds.simps)
  with Stmt.IH(2) assms(2) show ?case by blast
next
  case (Mem m)
  have "P (snd (m c))" for c
    by (rule Mem.IH [of "m c"]) (auto intro: rangeI simp: snds.simps)
  with assms(6) show ?case by blast
next
  case (Return r)
  show ?case by (rule assms(1))
next
  case (Begin b)
  then show ?case by (intro assms(3)) simp
next
  case (Commit b)
  then show ?case by (intro assms(4)) simp
next
  case (Rollback q)
  then show ?case by (rule assms(5))
qed

lemma handle_Return_id [simp]: "handle p Return = p"
  by (induction p rule: prog_induct) (auto simp: map_prod_def fun_eq_iff split_beta)

lemma handle_handle: "handle (handle p k) l = handle p (\<lambda>r. handle (k r) l)"
  by (induction p rule: prog_induct) (auto simp: map_prod_def fun_eq_iff split_beta)

lemma call_simps [simp]:
  "call (Return (Inl e)) k = throw e" "call (Return (Inr x)) k = k x"
  "call (throw e) k = throw e" "call (ret x) k = k x"
  by (simp_all add: call_def throw_def ret_def)

lemma handle_simps [simp]: "handle (ret x) k = k (Inr x)" "handle (throw e) k = k (Inl e)"
  by (simp_all add: throw_def ret_def)

section \<open>One step of one session\<close>

datatype choice = Healthy | LostRequest error | LostReply error

datatype txstate = TxLive | TxFailed | TxDone

record txn =
  tx_state :: txstate
  tx_writes :: "version list"
  tx_now :: int

text \<open>A lock is held by one transaction: the session and the transaction's depth in its stack.\<close>

type_synonym owner = "nat \<times> nat"

record gstate =
  committed :: db
  locks :: "(lockkey \<times> owner) list"
  clock :: int
  cache :: cache

definition locked_by_other :: "owner \<Rightarrow> gstate \<Rightarrow> lockkey \<Rightarrow> bool" where
  "locked_by_other me g k = list_ex (\<lambda>(k', ow). k' = k \<and> ow \<noteq> me) (locks g)"

definition blocked :: "owner \<Rightarrow> version list \<Rightarrow> gstate \<Rightarrow> bool" where
  "blocked me ws g = list_ex (locked_by_other me g) (keys_of_all ws)"

definition acquire :: "owner \<Rightarrow> version list \<Rightarrow> gstate \<Rightarrow> gstate" where
  "acquire me ws g = g\<lparr>locks := map (\<lambda>k. (k, me)) (keys_of_all ws) @ locks g\<rparr>"

definition release :: "owner \<Rightarrow> gstate \<Rightarrow> gstate" where
  "release me g = g\<lparr>locks := filter (\<lambda>(k, ow). ow \<noteq> me) (locks g)\<rparr>"

definition install :: "version list \<Rightarrow> seqname list \<Rightarrow> gstate \<Rightarrow> gstate" where
  "install ws sq g = g\<lparr>committed := burns sq (applys ws (committed g))\<rparr>"

definition auto_env :: "nat \<Rightarrow> gstate \<Rightarrow> env" where
  "auto_env i g = \<lparr>view = committed g, env_now = clock g, locked = locked_by_other (i, 0) g\<rparr>"

definition tx_env :: "nat \<Rightarrow> txn \<Rightarrow> nat \<Rightarrow> gstate \<Rightarrow> env" where
  "tx_env i t n g =
     \<lparr>view = applys (tx_writes t) (committed g), env_now = tx_now t, locked = locked_by_other (i, n) g\<rparr>"

definition tx_done :: "txn \<Rightarrow> txn" where
  "tx_done t = t\<lparr>tx_state := TxDone, tx_writes := []\<rparr>"

definition tx_fail :: "txn \<Rightarrow> txn" where
  "tx_fail t = t\<lparr>tx_state := TxFailed\<rparr>"

text \<open>
  step_prog c i p st g: one step of session i, whose remaining program is p and whose
  transactions are st (innermost first). None means that the step has to wait for a lock
  (or that the program has returned).
\<close>

fun step_prog :: "choice \<Rightarrow> nat \<Rightarrow> 'a prog \<Rightarrow> txn list \<Rightarrow> gstate \<Rightarrow> ('a prog \<times> txn list \<times> gstate) option" where
  "step_prog c i (Return r) st g = None"
| "step_prog c i (Stmt f h) [] g =
     (case c of
        LostRequest e \<Rightarrow> Some (h e, [], g)
      | _ \<Rightarrow>
        (case f (auto_env i g) of ((ws, sq, ab), p) \<Rightarrow>
           if blocked (i, 0) ws g then None
           else Some (case c of LostReply e \<Rightarrow> h e | _ \<Rightarrow> p, [], install (if ab then [] else ws) sq g)))"
| "step_prog c i (Stmt f h) (t # ts) g =
     (case tx_state t of
        TxDone \<Rightarrow> Some (h ErrTxClosed, t # ts, g)
      | TxFailed \<Rightarrow> Some (h ErrTxAborted, t # ts, g)
      | TxLive \<Rightarrow>
        (case c of
           LostRequest e \<Rightarrow> Some (h e, tx_fail t # ts, g)
         | LostReply e \<Rightarrow> Some (h e, tx_fail t # ts, g)
         | Healthy \<Rightarrow>
           (let me = (i, Suc (length ts)) in
            case f (tx_env i t (Suc (length ts)) g) of ((ws, sq, ab), p) \<Rightarrow>
              if blocked me ws g then None
              else if ab then Some (p, tx_fail t # ts, install [] sq g)
              else Some (p, t\<lparr>tx_writes := tx_writes t @ ws\<rparr> # ts, acquire me ws (install [] sq g)))))"
| "step_prog c i (Begin k) st g =
     (case c of
        Healthy \<Rightarrow> Some (k None, \<lparr>tx_state = TxLive, tx_writes = [], tx_now = clock g\<rparr> # st, g)
      | LostRequest e \<Rightarrow> Some (k (Some e), st, g)
      | LostReply e \<Rightarrow> Some (k (Some e), st, g))"
| "step_prog c i (Commit k) [] g = Some (k (Some ErrTxClosed), [], g)"
| "step_prog c i (Commit k) (t # ts) g =
     (let me = (i, Suc (length ts)) in
      case tx_state t of
        TxDone \<Rightarrow> Some (k (Some ErrTxClosed), t # ts, g)
      | TxFailed \<Rightarrow> Some (k (Some ErrCommitRollback), tx_done t # ts, release me g)
      | TxLive \<Rightarrow>
        (case c of
           Healthy \<Rightarrow> Some (k None, tx_done t # ts, release me (install (tx_writes t) [] g))
         | LostReply e \<Rightarrow> Some (k (Some e), tx_done t # ts, release me (install (tx_writes t) [] g))
         | LostRequest e \<Rightarrow> Some (k (Some e), tx_fail t # ts, g)))"
| "step_prog c i (Rollback p) [] g = Some (p, [], g)"
| "step_prog c i (Rollback p) (t # ts) g = Some (p, ts, release (i, Suc (length ts)) g)"
| "step_prog c i (Mem f) st g = (case f (cache g) of (ch, p) \<Rightarrow> Some (p, st, g\<lparr>cache := ch\<rparr>))"

section \<open>Running a program alone\<close>

text \<open>
  run follows one session to its end under a list of choices, healthy once the list is
  used up. The recursion is on the tree; a step leads to a child.
\<close>

inductive child :: "'a prog \<Rightarrow> 'a prog \<Rightarrow> bool" where
  "child (snd (f e)) (Stmt f h)"
| "child (h x) (Stmt f h)"
| "child (b y) (Begin b)"
| "child (b y) (Commit b)"
| "child p (Rollback p)"
| "child (snd (m c)) (Mem m)"

lemma wf_child: "wfp child"
proof (rule wfpUNIVI)
  fix P :: "'a prog \<Rightarrow> bool" and x
  assume step: "\<forall>x. (\<forall>y. child y x \<longrightarrow> P y) \<longrightarrow> P x"
  show "P x"
    by (induction x rule: prog_induct) (rule step [rule_format], auto elim: child.cases)+
qed

lemma step_prog_child: "step_prog c i p st g = Some (p', st', g') \<Longrightarrow> child p' p"
proof (cases p)
  case (Stmt f h)
  assume eq: "step_prog c i p st g = Some (p', st', g')"
  have "(\<exists>e. p' = snd (f e)) \<or> (\<exists>x. p' = h x)"
    using eq Stmt
    by (cases st; cases c) (auto split: prod.splits if_splits txstate.splits simp: Let_def, (metis snd_conv)+)
  with Stmt show ?thesis by (auto intro: child.intros)
next
  case (Begin b)
  assume "step_prog c i p st g = Some (p', st', g')"
  with Begin show ?thesis by (cases c) (auto intro: child.intros)
next
  case (Commit b)
  assume "step_prog c i p st g = Some (p', st', g')"
  with Commit show ?thesis
    by (cases st; cases c) (auto intro: child.intros split: txstate.splits simp: Let_def)
next
  case (Rollback q)
  assume "step_prog c i p st g = Some (p', st', g')"
  with Rollback show ?thesis by (cases st) (auto intro: child.intros)
next
  case (Mem m)
  assume "step_prog c i p st g = Some (p', st', g')"
  with Mem have "p' = snd (m (cache g))" by (auto split: prod.splits)
  with Mem show ?thesis by (auto intro: child.intros)
qed simp

definition next_choice :: "choice list \<Rightarrow> choice" where
  "next_choice cs = (case cs of [] \<Rightarrow> Healthy | c # _ \<Rightarrow> c)"

lemma next_choice_simps [simp]: "next_choice [] = Healthy" "next_choice (c # cs) = c"
  by (simp_all add: next_choice_def)

function run :: "choice list \<Rightarrow> nat \<Rightarrow> 'a prog \<Rightarrow> txn list \<Rightarrow> gstate \<Rightarrow>
    (choice list \<times> (error + 'a) \<times> txn list \<times> gstate) option" where
  "run cs i p st g =
     (case step_prog (next_choice cs) i p st g of
        Some (p', st', g') \<Rightarrow> run (tl cs) i p' st' g'
      | None \<Rightarrow> (case p of Return r \<Rightarrow> Some (cs, r, st, g) | _ \<Rightarrow> None))"
  by pat_completeness auto
termination
proof (relation "inv_image {(x, y). child x y} (\<lambda>(cs, i, p, st, g). p)")
  show "wf (inv_image {(x, y). child x y} (\<lambda>(cs :: choice list, i :: nat, p :: 'a prog, st :: txn list, g :: gstate). p))"
    using wf_child unfolding wfp_def by (rule wf_inv_image)
qed (auto dest: step_prog_child)

declare run.simps [simp del]

lemma run_Return [simp, prog_simps]: "run cs i (Return r) st g = Some (cs, r, st, g)"
  by (simp add: run.simps)

lemma run_ret [simp, prog_simps]: "run cs i (ret x) st g = Some (cs, Inr x, st, g)"
  by (simp add: ret_def)

lemma run_throw [simp, prog_simps]: "run cs i (throw e) st g = Some (cs, Inl e, st, g)"
  by (simp add: throw_def)

lemma run_step:
  assumes "\<And>r. p \<noteq> Return r"
  shows "run cs i p st g =
     (case step_prog (next_choice cs) i p st g of
        Some (p', st', g') \<Rightarrow> run (tl cs) i p' st' g' | None \<Rightarrow> None)"
  using assms by (subst run.simps) (auto split: option.splits prog.splits)

text \<open>A step of handle p k is a step of p, until p has returned.\<close>

lemma step_handle:
  assumes "\<And>r. p \<noteq> Return r"
  shows "step_prog c i (handle p k) st g =
    map_option (\<lambda>(p', st', g'). (handle p' k, st', g')) (step_prog c i p st g)"
proof (cases p)
  case (Return r)
  with assms show ?thesis by blast
next
  case (Stmt f h)
  show ?thesis
  proof (cases st)
    case Nil
    obtain ws sq ab q where "f (auto_env i g) = ((ws, sq, ab), q)"
      by (metis prod.exhaust)
    with Nil Stmt show ?thesis by (cases c) auto
  next
    case (Cons t ts)
    obtain ws sq ab q where "f (tx_env i t (Suc (length ts)) g) = ((ws, sq, ab), q)"
      by (metis prod.exhaust)
    with Cons Stmt show ?thesis by (cases c) (auto split: txstate.splits simp: Let_def)
  qed
next
  case (Commit b)
  then show ?thesis
    by (cases st; cases c) (auto split: txstate.splits simp: Let_def)
qed (auto split: choice.splits list.splits prod.splits, (cases st; simp)+)

lemma run_handle [prog_simps]:
  "run cs i (handle p k) st g =
     (case run cs i p st g of
        None \<Rightarrow> None
      | Some (cs', r, st', g') \<Rightarrow> run cs' i (k r) st' g')"
proof (induction cs i p st g rule: run.induct)
  case (1 cs i p st g)
  show ?case
  proof (cases "\<exists>r. p = Return r")
    case True
    then show ?thesis by auto
  next
    case False
    then have np: "\<And>r. p \<noteq> Return r" by blast
    then have nh: "\<And>r. handle p k \<noteq> Return r" by (cases p) auto
    show ?thesis
    proof (cases "step_prog (next_choice cs) i p st g")
      case None
      then show ?thesis by (simp add: run_step [OF np] run_step [OF nh] step_handle [OF np])
    next
      case (Some a)
      then obtain p' st' g' where a: "step_prog (next_choice cs) i p st g = Some (p', st', g')"
        by (cases a) auto
      show ?thesis
        using 1 [OF a refl refl] a
        by (simp add: run_step [OF np] run_step [OF nh] step_handle [OF np])
    qed
  qed
qed

lemma run_call [prog_simps]:
  "run cs i (call m k) st g =
     (case run cs i m st g of
        None \<Rightarrow> None
      | Some (cs', Inl e, st', g') \<Rightarrow> Some (cs', Inl e, st', g')
      | Some (cs', Inr x, st', g') \<Rightarrow> run cs' i (k x) st' g')"
  by (simp add: call_def run_handle split: option.splits sum.splits)

section \<open>Healthy runs of the building blocks\<close>

lemma run_exec_auto [prog_simps]:
  "run [] i (exec s) [] g =
     (case s (auto_env i g) of Reply r ws sq \<Rightarrow>
        if blocked (i, 0) ws g then None
        else Some ([], r, [], install (if server_error r then [] else ws) sq g))"
  by (subst run.simps) (auto simp: exec_def split: reply.splits)

lemma run_exec_tx [prog_simps]:
  "run [] i (exec s) (t # ts) g =
     (case tx_state t of
        TxDone \<Rightarrow> Some ([], Inl ErrTxClosed, t # ts, g)
      | TxFailed \<Rightarrow> Some ([], Inl ErrTxAborted, t # ts, g)
      | TxLive \<Rightarrow>
        (case s (tx_env i t (Suc (length ts)) g) of Reply r ws sq \<Rightarrow>
           if blocked (i, Suc (length ts)) ws g then None
           else if server_error r then Some ([], r, tx_fail t # ts, install [] sq g)
           else Some ([], r, t\<lparr>tx_writes := tx_writes t @ ws\<rparr> # ts,
                  acquire (i, Suc (length ts)) ws (install [] sq g))))"
  by (subst run.simps) (auto simp: exec_def Let_def split: reply.splits txstate.splits)

lemma run_in_tx [prog_simps]:
  "run [] i (in_tx body) st g =
     (case run [] i body (\<lparr>tx_state = TxLive, tx_writes = [], tx_now = clock g\<rparr> # st) g of
        None \<Rightarrow> None
      | Some (cs', r, st', g') \<Rightarrow> run cs' i (Rollback (Return r)) st' g')"
  by (subst run.simps) (simp add: in_tx_def run_handle)

lemma run_Rollback [prog_simps]:
  "run [] i (Rollback p) [] g = run [] i p [] g"
  "run [] i (Rollback p) (t # ts) g = run [] i p ts (release (i, Suc (length ts)) g)"
  by (simp_all add: run.simps [of _ _ "Rollback p"])

lemma run_commit [prog_simps]:
  "run [] i commit (t # ts) g =
     (case tx_state t of
        TxDone \<Rightarrow> Some ([], Inl ErrTxClosed, t # ts, g)
      | TxFailed \<Rightarrow> Some ([], Inl ErrCommitRollback, tx_done t # ts, release (i, Suc (length ts)) g)
      | TxLive \<Rightarrow> Some ([], Inr (), tx_done t # ts,
            release (i, Suc (length ts)) (install (tx_writes t) [] g)))"
  by (subst run.simps) (auto simp: commit_def Let_def split: txstate.splits)

lemma run_Mem [prog_simps]:
  "run [] i (Mem f) st g = (case f (cache g) of (ch, p) \<Rightarrow> run [] i p st (g\<lparr>cache := ch\<rparr>))"
  by (subst run.simps) (auto split: prod.splits)

lemma env_simps [simp]:
  "view (auto_env i g) = committed g" "env_now (auto_env i g) = clock g"
  "view (tx_env i t n g) = applys (tx_writes t) (committed g)" "env_now (tx_env i t n g) = tx_now t"
  by (simp_all add: auto_env_def tx_env_def)

text \<open>The locks a session holds itself never make it wait.\<close>

lemma locked_acquire [simp]: "locked_by_other me (acquire me ws g) = locked_by_other me g"
  by (rule ext) (auto simp: locked_by_other_def acquire_def list_ex_iff)

lemma locked_install [simp]: "locked_by_other me (install ws sq g) = locked_by_other me g"
  by (rule ext) (simp add: locked_by_other_def install_def)

lemma locked_free [simp]: "locks g = [] \<Longrightarrow> locked_by_other me g = (\<lambda>k. False)"
  by (rule ext) (simp add: locked_by_other_def)

lemma blocked_simps [simp]:
  "blocked me ws (acquire me vs g) = blocked me ws g" "blocked me ws (install vs sq g) = blocked me ws g"
  "locks g = [] \<Longrightarrow> \<not> blocked me ws g" "\<not> blocked me [] g"
  by (simp_all add: blocked_def list_ex_iff)

lemma release_acquire [simp]: "release me (acquire me ws g) = release me g"
  by (simp add: release_def acquire_def)

lemma release_free [simp]: "locks g = [] \<Longrightarrow> release me g = g"
  by (simp add: release_def)

lemma gstate_proj [simp]:
  "committed (acquire me ws g) = committed g" "committed (release me g) = committed g"
  "clock (acquire me ws g) = clock g" "clock (release me g) = clock g"
  "cache (acquire me ws g) = cache g" "cache (release me g) = cache g"
  "committed (install ws sq g) = burns sq (applys ws (committed g))"
  "locks (install ws sq g) = locks g" "clock (install ws sq g) = clock g"
  "cache (install ws sq g) = cache g"
  by (simp_all add: acquire_def release_def install_def)

lemma release_install [simp]: "release me (install ws sq g) = install ws sq (release me g)"
  by (simp add: release_def install_def)

lemma acquire_Nil [simp]: "acquire me [] g = g"
  by (simp add: acquire_def)

lemma install_Nil [simp]: "install [] [] g = g"
  by (simp add: install_def)

lemma tx_state_simps [simp]:
  "tx_state (tx_done t) = TxDone" "tx_state (tx_fail t) = TxFailed" "tx_writes (tx_done t) = []"
  "tx_writes (tx_fail t) = tx_writes t"
  by (simp_all add: tx_done_def tx_fail_def)

end
