(* ===== verification/Queries.thy ===== *)
theory Queries
  imports Prog "HOL-Library.Product_Lexorder"
begin

text \<open>
  The SQL statements of internal/adapters/postgresql/sqlc/queries.sql, as the generated
  methods of queries.sql.go run them, one definition per method under the method's name.
  A statement reads its view and replies with rows, row versions and sequence advances; a
  ":one" query that matches nothing replies ErrNoRows. The constraints a statement can
  violate (CHECK, UNIQUE, REFERENCES of the migrations, a negative LIMIT) are server errors.

  Ties of an ORDER BY, which PostgreSQL leaves open, are broken by the order of the table.
\<close>

section \<open>Helpers\<close>

definition no_rows :: "'r reply" where
  "no_rows = Reply (Inl ErrNoRows) [] []"

definition sql_error :: "error \<Rightarrow> 'r reply" where
  "sql_error e = Reply (Inl e) [] []"

definition one_row :: "'r option \<Rightarrow> 'r reply" where
  "one_row x = (case x of None \<Rightarrow> no_rows | Some r \<Rightarrow> Reply (Inr r) [] [])"

text \<open>UPDATE orders SET ... WHERE id = $1 AND guard RETURNING *.\<close>

definition update_order :: "int \<Rightarrow> (order \<Rightarrow> bool) \<Rightarrow> (order \<Rightarrow> order) \<Rightarrow> order stmt" where
  "update_order i guard f e =
     (case find_order i (view e) of
        None \<Rightarrow> no_rows
      | Some r \<Rightarrow> if guard r then Reply (Inr (f r)) [WOrder (Some r) (f r)] [] else no_rows)"

text \<open>UPDATE stock SET ... WHERE product_id = $1 AND guard RETURNING *, under the CHECKs.\<close>

definition update_stock :: "int \<Rightarrow> (stock \<Rightarrow> bool) \<Rightarrow> (stock \<Rightarrow> stock) \<Rightarrow> stock stmt" where
  "update_stock p guard f e =
     (case find_stock p (view e) of
        None \<Rightarrow> no_rows
      | Some s \<Rightarrow>
          if \<not> guard s then no_rows
          else if \<not> stock_check (f s) then sql_error CheckViolation
          else Reply (Inr (f s)) [WStock (Some s) (f s)] [])"

text \<open>LIMIT and OFFSET; PostgreSQL rejects negative values.\<close>

definition page :: "int \<Rightarrow> int \<Rightarrow> 'r list \<Rightarrow> 'r list reply" where
  "page lim off rows =
     (if lim < 0 \<or> off < 0 then sql_error InvalidLimit
      else Reply (Inr (take (nat lim) (drop (nat off) rows))) [] [])"

section \<open>Stock\<close>

definition ReserveStock :: "int \<Rightarrow> stock stmt" where
  "ReserveStock p =
     update_stock p (\<lambda>s. s_Quantity s - s_NumReserved s > 0)
       (\<lambda>s. s\<lparr>s_NumReserved := s_NumReserved s + 1\<rparr>)"

definition CommitStock :: "int \<Rightarrow> stock stmt" where
  "CommitStock p =
     update_stock p (\<lambda>s. s_NumReserved s > 0)
       (\<lambda>s. s\<lparr>s_Quantity := s_Quantity s - 1, s_NumReserved := s_NumReserved s - 1\<rparr>)"

definition ReleaseStock :: "int \<Rightarrow> stock stmt" where
  "ReleaseStock p =
     update_stock p (\<lambda>s. s_NumReserved s > 0) (\<lambda>s. s\<lparr>s_NumReserved := s_NumReserved s - 1\<rparr>)"

definition CreateStock :: "int \<Rightarrow> int \<Rightarrow> stock stmt" where
  "CreateStock p q e =
     (let s = \<lparr>s_ID = stock_seq (view e), s_ProductID = p, s_Quantity = q, s_NumReserved = 0\<rparr> in
      if \<not> stock_check s then Reply (Inl CheckViolation) [] [StockSeq]
      else if find_stock p (view e) \<noteq> None then Reply (Inl UniqueViolation) [] [StockSeq]
      else if find_product p (view e) = None then Reply (Inl ForeignKeyViolation) [] [StockSeq]
      else Reply (Inr s) [WStock None s] [StockSeq])"

section \<open>Products\<close>

record product_row =
  pr_ID :: int
  pr_Name :: string
  pr_PriceInCents :: int
  pr_CreatedAt :: int
  pr_StartAt :: int
  pr_Quantity :: int
  pr_NumReserved :: int

definition join_product :: "db \<Rightarrow> product \<Rightarrow> product_row option" where
  "join_product d p =
     map_option (\<lambda>s. \<lparr>pr_ID = p_ID p, pr_Name = p_Name p, pr_PriceInCents = p_PriceInCents p,
         pr_CreatedAt = p_CreatedAt p, pr_StartAt = p_StartAt p,
         pr_Quantity = s_Quantity s, pr_NumReserved = s_NumReserved s\<rparr>)
       (find_stock (p_ID p) d)"

definition FindProductByID :: "int \<Rightarrow> product_row stmt" where
  "FindProductByID i e = one_row (Option.bind (find_product i (view e)) (join_product (view e)))"

text \<open>Sold-out products last, then by start_at.\<close>

definition ListProducts :: "int \<Rightarrow> int \<Rightarrow> product_row list stmt" where
  "ListProducts lim off e =
     page lim off
       (sort_key (\<lambda>r. (pr_Quantity r - pr_NumReserved r \<le> 0, pr_StartAt r))
         (List.map_filter (join_product (view e)) (products (view e))))"

definition CreateProduct :: "string \<Rightarrow> int \<Rightarrow> int \<Rightarrow> product stmt" where
  "CreateProduct name price start e =
     (let p = \<lparr>p_ID = product_seq (view e), p_Name = name, p_PriceInCents = price,
               p_CreatedAt = env_now e, p_StartAt = start\<rparr> in
      if price < 0 then Reply (Inl CheckViolation) [] [ProductSeq]
      else if find_product (p_ID p) (view e) \<noteq> None then Reply (Inl UniqueViolation) [] [ProductSeq]
      else Reply (Inr p) [WProduct p] [ProductSeq])"

section \<open>Customers\<close>

definition by_sub :: "string \<Rightarrow> db \<Rightarrow> customer option" where
  "by_sub s d = List.find (\<lambda>c. c_CognitoSub c = Some s) (customers d)"

definition by_email :: "string \<Rightarrow> db \<Rightarrow> customer option" where
  "by_email m d = List.find (\<lambda>c. c_Email c = m) (customers d)"

text \<open>A NULL parameter never equals a column.\<close>

definition FindCustomerBySub :: "string option \<Rightarrow> customer stmt" where
  "FindCustomerBySub s e =
     (case s of None \<Rightarrow> no_rows | Some x \<Rightarrow> one_row (by_sub x (view e)))"

definition UpdateCustomerEmail :: "int \<Rightarrow> string \<Rightarrow> customer stmt" where
  "UpdateCustomerEmail i m e =
     (case find_customer i (view e) of
        None \<Rightarrow> no_rows
      | Some c \<Rightarrow>
          if (\<exists>c' \<in> set (customers (view e)). c_Email c' = m \<and> c_ID c' \<noteq> i)
          then sql_error UniqueViolation
          else Reply (Inr (c\<lparr>c_Email := m\<rparr>)) [WCustomer (Some c) (c\<lparr>c_Email := m\<rparr>)] [])"

definition sub_taken :: "string option \<Rightarrow> int \<Rightarrow> db \<Rightarrow> bool" where
  "sub_taken s i d = (case s of None \<Rightarrow> False
     | Some x \<Rightarrow> \<exists>c \<in> set (customers d). c_CognitoSub c = Some x \<and> c_ID c \<noteq> i)"

text \<open>
  INSERT ... ON CONFLICT (email) DO UPDATE SET cognito_sub = COALESCE(...). The conflict
  clause arbitrates the email index only; the cognito_sub index still raises.
\<close>

definition coalesce :: "'x option \<Rightarrow> 'x option \<Rightarrow> 'x option" where
  "coalesce a b = (case a of None \<Rightarrow> b | Some _ \<Rightarrow> a)"

definition LinkCustomer :: "string \<Rightarrow> string option \<Rightarrow> customer stmt" where
  "LinkCustomer m s e =
     (case by_email m (view e) of
        Some c \<Rightarrow>
          let c' = c\<lparr>c_CognitoSub := coalesce (c_CognitoSub c) s\<rparr> in
          if sub_taken (c_CognitoSub c') (c_ID c) (view e)
          then Reply (Inl UniqueViolation) [] [CustomerSeq]
          else Reply (Inr c') [WCustomer (Some c) c'] [CustomerSeq]
      | None \<Rightarrow>
          let c = \<lparr>c_ID = customer_seq (view e), c_Email = m, c_CreatedAt = env_now e, c_CognitoSub = s\<rparr> in
          if sub_taken s (c_ID c) (view e) \<or> find_customer (c_ID c) (view e) \<noteq> None
          then Reply (Inl UniqueViolation) [] [CustomerSeq]
          else Reply (Inr c) [WCustomer None c] [CustomerSeq])"

section \<open>Orders\<close>

record order_row =
  j_Order :: order
  j_CustomerEmail :: string
  j_CustomerCognitoSub :: "string option"

definition join_customer :: "db \<Rightarrow> order \<Rightarrow> order_row option" where
  "join_customer d r =
     map_option (\<lambda>c. \<lparr>j_Order = r, j_CustomerEmail = c_Email c, j_CustomerCognitoSub = c_CognitoSub c\<rparr>)
       (find_customer (o_CustomerID r) d)"

definition FindOrderByID :: "int \<Rightarrow> order_row stmt" where
  "FindOrderByID i e = one_row (Option.bind (find_order i (view e)) (join_customer (view e)))"

definition FindOrderByIDPlain :: "int \<Rightarrow> order stmt" where
  "FindOrderByIDPlain i e = one_row (find_order i (view e))"

definition by_intent :: "string \<Rightarrow> db \<Rightarrow> order option" where
  "by_intent t d = List.find (\<lambda>r. o_StripePaymentIntentID r = Some t) (orders d)"

definition FindOrderByPaymentIntentID :: "string \<Rightarrow> order_row stmt" where
  "FindOrderByPaymentIntentID t e =
     one_row (Option.bind (by_intent t (view e)) (join_customer (view e)))"

record list_order_row =
  l_Order :: order
  l_ProductName :: string
  l_PriceInCents :: int

definition join_name :: "db \<Rightarrow> order \<Rightarrow> list_order_row option" where
  "join_name d r =
     map_option (\<lambda>p. \<lparr>l_Order = r, l_ProductName = p_Name p, l_PriceInCents = p_PriceInCents p\<rparr>)
       (find_product (o_ProductID r) d)"

definition ListOrdersByCustomer :: "int \<Rightarrow> int \<Rightarrow> int \<Rightarrow> list_order_row list stmt" where
  "ListOrdersByCustomer cid lim off e =
     page lim off
       (sort_key (\<lambda>r. - o_CreatedAt (l_Order r))
         (List.map_filter (join_name (view e))
           (filter (\<lambda>r. o_CustomerID r = cid) (orders (view e)))))"

definition new_order :: "int \<Rightarrow> int \<Rightarrow> int \<Rightarrow> int \<Rightarrow> env \<Rightarrow> order" where
  "new_order cid p amount expires e =
     \<lparr>o_ID = order_seq (view e), o_CustomerID = cid, o_ProductID = p, o_Status = StatusPending,
      o_CreatedAt = env_now e, o_TotalInCents = amount, o_ExpiresAt = Some expires,
      o_StripePaymentIntentID = None\<rparr>"

text \<open>The INSERT both reserve paths share: the constraints of the orders table.\<close>

definition insert_order :: "int \<Rightarrow> int \<Rightarrow> int \<Rightarrow> int \<Rightarrow> version list \<Rightarrow> order stmt" where
  "insert_order cid p amount expires ws e =
     (let r = new_order cid p amount expires e in
      if amount < 0 then Reply (Inl CheckViolation) [] [OrderSeq]
      else if find_order (o_ID r) (view e) \<noteq> None then Reply (Inl UniqueViolation) [] [OrderSeq]
      else if find_customer cid (view e) = None \<or> find_product p (view e) = None
      then Reply (Inl ForeignKeyViolation) [] [OrderSeq]
      else Reply (Inr r) (ws @ [WOrder None r]) [OrderSeq])"

definition CreateOrder :: "int \<Rightarrow> int \<Rightarrow> int \<Rightarrow> int \<Rightarrow> order stmt" where
  "CreateOrder cid p amount expires = insert_order cid p amount expires []"

definition MarkOrderAwaitingPayment :: "int \<Rightarrow> string \<Rightarrow> int \<Rightarrow> order stmt" where
  "MarkOrderAwaitingPayment i t expires e =
     (case find_order i (view e) of
        None \<Rightarrow> no_rows
      | Some r \<Rightarrow>
          if o_Status r \<noteq> StatusPending then no_rows
          else if (\<exists>r' \<in> set (orders (view e)). o_StripePaymentIntentID r' = Some t \<and> o_ID r' \<noteq> i)
          then sql_error UniqueViolation
          else
            let r' = r\<lparr>o_Status := StatusAwaitingPayment, o_StripePaymentIntentID := Some t,
                       o_ExpiresAt := Some expires\<rparr>
            in Reply (Inr r') [WOrder (Some r) r'] [])"

definition CompleteOrder :: "int \<Rightarrow> order stmt" where
  "CompleteOrder i =
     update_order i (\<lambda>r. o_Status r = StatusAwaitingPayment) (\<lambda>r. r\<lparr>o_Status := StatusCompleted\<rparr>)"

definition CancelPendingOrder :: "int \<Rightarrow> order stmt" where
  "CancelPendingOrder i =
     update_order i (\<lambda>r. o_Status r = StatusPending) (\<lambda>r. r\<lparr>o_Status := StatusCancelled\<rparr>)"

definition FailOrder :: "int \<Rightarrow> order stmt" where
  "FailOrder i =
     update_order i (\<lambda>r. o_Status r = StatusAwaitingPayment) (\<lambda>r. r\<lparr>o_Status := StatusFailed\<rparr>)"

text \<open>
  The sweeper's claim: live orders whose expiry has passed, soonest first, rows locked by
  other transactions skipped, at most lim of them.
\<close>

definition expirable :: "env \<Rightarrow> order \<Rightarrow> bool" where
  "expirable e r =
     (live_status (o_Status r) \<and>
      (case o_ExpiresAt r of None \<Rightarrow> False | Some t \<Rightarrow> t < env_now e))"

definition expire_order :: "order \<Rightarrow> order" where
  "expire_order r = r\<lparr>o_Status := StatusExpired\<rparr>"

definition expire_batch :: "int \<Rightarrow> env \<Rightarrow> order list" where
  "expire_batch lim e =
     take (nat lim)
       (sort_key (\<lambda>r. case o_ExpiresAt r of None \<Rightarrow> 0 | Some t \<Rightarrow> t)
         (filter (\<lambda>r. expirable e r \<and> \<not> locked e (KOrder (o_ID r))) (orders (view e))))"

definition ExpireOrders :: "int \<Rightarrow> order list stmt" where
  "ExpireOrders lim e =
     (if lim < 0 then sql_error InvalidLimit
      else Reply (Inr (map expire_order (expire_batch lim e)))
             (map (\<lambda>r. WOrder (Some r) (expire_order r)) (expire_batch lim e)) [])"

text \<open>
  The single-statement reserve: the UPDATE of reserved, the price read joined to it,
  the INSERT from it. A stock row without its product would be updated without an order.
\<close>

definition ReserveAndCreateOrder :: "int \<Rightarrow> int \<Rightarrow> int \<Rightarrow> order stmt" where
  "ReserveAndCreateOrder p cid expires e =
     (case find_stock p (view e) of
        None \<Rightarrow> no_rows
      | Some s \<Rightarrow>
          if \<not> s_Quantity s - s_NumReserved s > 0 then no_rows
          else
            let s' = s\<lparr>s_NumReserved := s_NumReserved s + 1\<rparr> in
            if \<not> stock_check s' then sql_error CheckViolation
            else (case find_product p (view e) of
                None \<Rightarrow> Reply (Inl ErrNoRows) [WStock (Some s) s'] []
              | Some q \<Rightarrow> insert_order cid p (p_PriceInCents q) expires [WStock (Some s) s'] e))"

section \<open>Stripe events\<close>

definition InsertStripeEvent :: "string \<Rightarrow> string \<Rightarrow> string \<Rightarrow> int \<Rightarrow> int stmt" where
  "InsertStripeEvent i ty payload created e =
     (case find_event i (view e) of
        Some _ \<Rightarrow> Reply (Inr 0) [] []
      | None \<Rightarrow>
          Reply (Inr 1)
            [WEvent None \<lparr>e_ID = i, e_Type = ty, e_Payload = payload, e_ReceivedAt = env_now e,
                     e_ProcessedAt = None, e_Attempts = 0, e_LastError = None,
                     e_StripeCreatedAt = Some created\<rparr>] [])"

definition LatestStripeEventCreatedAt :: "int option stmt" where
  "LatestStripeEventCreatedAt e =
     Reply (Inr (case List.map_filter e_StripeCreatedAt (events (view e)) of
         [] \<Rightarrow> None | t # ts \<Rightarrow> Some (fold max ts t))) [] []"

definition claimable :: "int \<Rightarrow> env \<Rightarrow> stripe_event \<Rightarrow> bool" where
  "claimable max_attempts e v =
     (e_ProcessedAt v = None \<and> e_Attempts v < max_attempts \<and> \<not> locked e (KEvent (e_ID v)))"

definition ClaimNextStripeEvent :: "int \<Rightarrow> stripe_event stmt" where
  "ClaimNextStripeEvent max_attempts e =
     (case sort_key e_ReceivedAt (filter (claimable max_attempts e) (events (view e))) of
        [] \<Rightarrow> no_rows
      | v # _ \<Rightarrow> Reply (Inr v) [WLock (KEvent (e_ID v))] [])"

definition update_event :: "string \<Rightarrow> (stripe_event \<Rightarrow> stripe_event) \<Rightarrow> unit stmt" where
  "update_event i f e =
     Reply (Inr ()) (case find_event i (view e) of None \<Rightarrow> [] | Some v \<Rightarrow> [WEvent (Some v) (f v)]) []"

definition MarkStripeEventProcessed :: "string \<Rightarrow> string option \<Rightarrow> unit stmt" where
  "MarkStripeEventProcessed i err e =
     update_event i (\<lambda>v. v\<lparr>e_ProcessedAt := Some (env_now e), e_Attempts := e_Attempts v + 1,
       e_LastError := err\<rparr>) e"

definition MarkStripeEventFailed :: "string \<Rightarrow> string option \<Rightarrow> unit stmt" where
  "MarkStripeEventFailed i err =
     update_event i (\<lambda>v. v\<lparr>e_Attempts := e_Attempts v + 1, e_LastError := err\<rparr>)"

section \<open>Idempotency keys\<close>

definition ClaimIdempotencyKey :: "string \<Rightarrow> string \<Rightarrow> string \<Rightarrow> order_idempotency stmt" where
  "ClaimIdempotencyKey s k h e =
     (case find_idem (s, k) (view e) of
        Some _ \<Rightarrow> no_rows
      | None \<Rightarrow>
          let r = \<lparr>i_CognitoSub = s, i_IdemKey = k, i_RequestHash = h, i_OrderID = None,
                   i_CreatedAt = env_now e\<rparr>
          in Reply (Inr r) [WIdem None r] [])"

definition FindIdempotencyKey :: "string \<Rightarrow> string \<Rightarrow> order_idempotency stmt" where
  "FindIdempotencyKey s k e = one_row (find_idem (s, k) (view e))"

definition CompleteIdempotencyKey :: "string \<Rightarrow> string \<Rightarrow> int \<Rightarrow> unit stmt" where
  "CompleteIdempotencyKey s k i e =
     (case find_idem (s, k) (view e) of
        None \<Rightarrow> Reply (Inr ()) [] []
      | Some r \<Rightarrow>
          if i_OrderID r \<noteq> None then Reply (Inr ()) [] []
          else if find_order i (view e) = None then sql_error ForeignKeyViolation
          else Reply (Inr ()) [WIdem (Some r) (r\<lparr>i_OrderID := Some i\<rparr>)] [])"

definition ReleaseIdempotencyKey :: "string \<Rightarrow> string \<Rightarrow> unit stmt" where
  "ReleaseIdempotencyKey s k e =
     Reply (Inr ())
       (case find_idem (s, k) (view e) of
          None \<Rightarrow> []
        | Some r \<Rightarrow> if i_OrderID r = None then [WIdemDel r] else []) []"

lemmas reply_defs = no_rows_def sql_error_def one_row_def

lemmas stock_stmts = ReserveStock_def CommitStock_def ReleaseStock_def update_stock_def
lemmas order_stmts = CompleteOrder_def CancelPendingOrder_def FailOrder_def update_order_def

lemmas [stmt_defs] = reply_defs stock_stmts order_stmts CreateStock_def FindProductByID_def
  CreateProduct_def FindCustomerBySub_def UpdateCustomerEmail_def LinkCustomer_def
  FindOrderByID_def FindOrderByIDPlain_def FindOrderByPaymentIntentID_def CreateOrder_def
  insert_order_def MarkOrderAwaitingPayment_def ReserveAndCreateOrder_def
  InsertStripeEvent_def LatestStripeEventCreatedAt_def ClaimNextStripeEvent_def
  update_event_def MarkStripeEventProcessed_def MarkStripeEventFailed_def
  ClaimIdempotencyKey_def FindIdempotencyKey_def CompleteIdempotencyKey_def
  ReleaseIdempotencyKey_def

end
