(* ===== verification/Sessions.thy ===== *)
theory Sessions
  imports Queries
begin

text \<open>
  Sessions running side by side. The system is a list of threads, each with its remaining
  program and its open transactions, over one shared state; any thread may take its next
  step at any time, under any choice of the environment, new threads may start, the clock
  advances.

  safe p st Q is what is shown of a program, once, without any other session in sight:
  whatever committed state satisfying the invariant its statements meet, the versions they
  yield are current and obey the row rules, and every commit is balanced. The soundness
  theorem lifts it to any interleaving of any number of safe programs: the committed
  database always satisfies the invariant, and it only ever changes by a list of current,
  rule-abiding, balanced versions (committed_step).
\<close>

section \<open>Safe programs\<close>

definition sound_writes :: "db \<Rightarrow> version list \<Rightarrow> bool" where
  "sound_writes d ws = (chain d ws \<and> (\<forall>w \<in> set ws. row_ok w))"

definition sees :: "version list \<Rightarrow> env \<Rightarrow> bool" where
  "sees vs e = (\<exists>d. db_inv d \<and> sound_writes d vs \<and> view e = applys vs d)"

primrec safe :: "'a prog \<Rightarrow> txn list \<Rightarrow> (error + 'a \<Rightarrow> txn list \<Rightarrow> bool) \<Rightarrow> bool" where
  "safe (Return r) st Q = Q r st"
| "safe (Stmt f h) st Q =
     (case st of
        [] \<Rightarrow> (\<forall>x. safe (h x) [] Q) \<and>
          (\<forall>e. sees [] e \<longrightarrow>
            (case map_prod id safe (f e) of ((ws, sq, ab), sp) \<Rightarrow>
               (ab \<or> (sound_writes (view e) ws \<and> balanced ws)) \<and> sp [] Q))
      | t # ts \<Rightarrow>
          (case tx_state t of
             TxDone \<Rightarrow> safe (h ErrTxClosed) (t # ts) Q
           | TxFailed \<Rightarrow> safe (h ErrTxAborted) (t # ts) Q
           | TxLive \<Rightarrow> (\<forall>x. safe (h x) (tx_fail t # ts) Q) \<and>
               (\<forall>e. sees (tx_writes t) e \<longrightarrow>
                 (case map_prod id safe (f e) of ((ws, sq, ab), sp) \<Rightarrow>
                    if ab then sp (tx_fail t # ts) Q
                    else sound_writes (view e) ws \<and>
                      sp (t\<lparr>tx_writes := tx_writes t @ ws\<rparr> # ts) Q))))"
| "safe (Begin b) st Q =
     ((\<forall>n. safe (b None) (\<lparr>tx_state = TxLive, tx_writes = [], tx_now = n\<rparr> # st) Q) \<and>
      (\<forall>x. safe (b (Some x)) st Q))"
| "safe (Commit b) st Q =
     (case st of
        [] \<Rightarrow> safe (b (Some ErrTxClosed)) [] Q
      | t # ts \<Rightarrow>
          (case tx_state t of
             TxDone \<Rightarrow> safe (b (Some ErrTxClosed)) (t # ts) Q
           | TxFailed \<Rightarrow> safe (b (Some ErrCommitRollback)) (tx_done t # ts) Q
           | TxLive \<Rightarrow> balanced (tx_writes t) \<and> safe (b None) (tx_done t # ts) Q \<and>
               (\<forall>x. safe (b (Some x)) (tx_done t # ts) Q \<and> safe (b (Some x)) (tx_fail t # ts) Q)))"
| "safe (Rollback p) st Q = safe p (tl st) Q"
| "safe (Mem f) st Q = (\<forall>c. case map_prod id safe (f c) of (c', sp) \<Rightarrow> sp st Q)"

lemma map_prod_safe [simp]: "map_prod id safe x = (fst x, safe (snd x))"
  by (simp add: map_prod_def split_beta)

lemma safe_mono: "safe p st Q \<Longrightarrow> (\<And>r st'. Q r st' \<Longrightarrow> Q' r st') \<Longrightarrow> safe p st Q'"
proof (induction p arbitrary: st rule: prog_induct)
  case (Stmt f h)
  then show ?case
    by (cases st) (auto split: txstate.splits prod.splits if_splits simp: split_beta)
next
  case (Commit b)
  then show ?case by (cases st) (auto split: txstate.splits)
qed auto

lemma safe_handle: "safe p st (\<lambda>r st'. safe (k r) st' Q) \<Longrightarrow> safe (handle p k) st Q"
proof (induction p arbitrary: st rule: prog_induct)
  case (Stmt f h)
  then show ?case
    by (cases st) (auto split: txstate.splits prod.splits if_splits simp: split_beta)
next
  case (Commit b)
  then show ?case by (cases st) (auto split: txstate.splits)
qed (auto simp: split_beta)

lemma safe_handleI:
  assumes "safe m st Q0" "\<And>r st'. Q0 r st' \<Longrightarrow> safe (k r) st' Q"
  shows "safe (handle m k) st Q"
  by (rule safe_handle, rule safe_mono [OF assms(1)], rule assms(2))

section \<open>The system\<close>

record 'a thread =
  th_prog :: "'a prog"
  th_txs :: "txn list"

record 'a sys =
  threads :: "'a thread list"
  shared :: gstate

inductive sys_step :: "('a prog \<Rightarrow> bool) \<Rightarrow> 'a sys \<Rightarrow> 'a sys \<Rightarrow> bool" for P where
  move: "i < length (threads s) \<Longrightarrow>
     step_prog c i (th_prog (threads s ! i)) (th_txs (threads s ! i)) (shared s) = Some (p', st', g') \<Longrightarrow>
     sys_step P s (s\<lparr>threads := (threads s)[i := \<lparr>th_prog = p', th_txs = st'\<rparr>], shared := g'\<rparr>)"
| spawn: "P p \<Longrightarrow> sys_step P s (s\<lparr>threads := threads s @ [\<lparr>th_prog = p, th_txs = []\<rparr>]\<rparr>)"
| tick: "0 \<le> n \<Longrightarrow> sys_step P s (s\<lparr>shared := (shared s)\<lparr>clock := clock (shared s) + n\<rparr>\<rparr>)"

inductive_cases sys_stepE: "sys_step P s s'"

text \<open>Every run starts with no thread, no lock and some database.\<close>

definition initial :: "db \<Rightarrow> int \<Rightarrow> 'a sys" where
  "initial d n = \<lparr>threads = [], shared = \<lparr>committed = d, locks = [], clock = n, cache = []\<rparr>\<rparr>"

inductive reachable :: "('a prog \<Rightarrow> bool) \<Rightarrow> 'a sys \<Rightarrow> 'a sys \<Rightarrow> bool" for P s0 where
  start: "reachable P s0 s0"
| step: "reachable P s0 s \<Longrightarrow> sys_step P s s' \<Longrightarrow> reachable P s0 s'"

section \<open>The system invariant\<close>

text \<open>A thread's open transactions hold the locks of their versions, and the versions are current.\<close>

fun txs_ok :: "nat \<Rightarrow> txn list \<Rightarrow> gstate \<Rightarrow> bool" where
  "txs_ok i [] g = True"
| "txs_ok i (t # ts) g =
     (sound_writes (committed g) (tx_writes t) \<and>
      (\<forall>k \<in> set (keys_of_all (tx_writes t)). (k, (i, Suc (length ts))) \<in> set (locks g)) \<and>
      txs_ok i ts g)"

definition exclusive :: "gstate \<Rightarrow> bool" where
  "exclusive g = (\<forall>k a b. (k, a) \<in> set (locks g) \<longrightarrow> (k, b) \<in> set (locks g) \<longrightarrow> a = b)"

definition finished :: "error + 'a \<Rightarrow> txn list \<Rightarrow> bool" where
  "finished r st = True"

definition thread_ok :: "nat \<Rightarrow> 'a thread \<Rightarrow> gstate \<Rightarrow> bool" where
  "thread_ok i th g = (safe (th_prog th) (th_txs th) finished \<and> txs_ok i (th_txs th) g)"

definition sys_inv :: "'a sys \<Rightarrow> bool" where
  "sys_inv s =
     (db_inv (committed (shared s)) \<and> exclusive (shared s) \<and>
      (\<forall>i < length (threads s). thread_ok i (threads s ! i) (shared s)))"

definition committed_step :: "db \<Rightarrow> db \<Rightarrow> bool" where
  "committed_step d d' =
     (\<exists>ws sq. sound_writes d ws \<and> balanced ws \<and> d' = burns sq (applys ws d))"

lemma balanced_Nil [simp]: "balanced []"
  by (simp add: balanced_def)

lemma sound_writes_Nil [simp]: "sound_writes d []"
  by (simp add: sound_writes_def)

lemma sound_writes_append [simp]:
  "sound_writes d (ws @ vs) = (sound_writes d ws \<and> sound_writes (applys ws d) vs)"
  by (auto simp: sound_writes_def)

lemma sound_writes_burns [simp]: "sound_writes (burns sq d) ws = sound_writes d ws"
  by (simp add: sound_writes_def)

lemma committed_step_refl [simp]: "committed_step d d"
  unfolding committed_step_def by (rule exI [of _ "[]"], rule exI [of _ "[]"]) simp

lemma committed_step_burns [simp]: "committed_step d (burns sq d)"
  unfolding committed_step_def by (rule exI [of _ "[]"], rule exI [of _ sq]) simp

lemma committed_step_inv: "committed_step d d' \<Longrightarrow> db_inv d \<Longrightarrow> db_inv d'"
  by (auto simp: committed_step_def sound_writes_def intro: db_inv_applys)

lemma committed_step_capacity:
  "committed_step d d' \<Longrightarrow> find_stock p d \<noteq> None \<Longrightarrow> capacity p d' = capacity p d"
  by (auto simp: committed_step_def sound_writes_def capacity_applys)

text \<open>Stability: what another owner does leaves a thread's transactions in order.\<close>

definition owners :: "nat \<Rightarrow> txn list \<Rightarrow> owner set" where
  "owners i st = {(i, n) | n. 1 \<le> n \<and> n \<le> length st}"

lemma owners_Cons: "owners i (t # ts) = insert (i, Suc (length ts)) (owners i ts)"
  by (auto simp: owners_def le_Suc_eq)

lemma sound_writes_stable:
  "sound_writes d vs \<Longrightarrow> set (keys_of_all vs) \<inter> set (keys_of_all ws) = {} \<Longrightarrow>
     sound_writes (applys ws d) vs"
  unfolding sound_writes_def by (blast intro: chain_stable)

lemma txs_ok_install:
  assumes "txs_ok i st g"
    and "\<And>k ow. k \<in> set (keys_of_all ws) \<Longrightarrow> (k, ow) \<in> set (locks g) \<Longrightarrow> ow \<notin> owners i st"
  shows "txs_ok i st (install ws sq g)"
  using assms
proof (induction st)
  case (Cons t ts)
  have "set (keys_of_all (tx_writes t)) \<inter> set (keys_of_all ws) = {}"
    using Cons.prems by (fastforce simp: owners_Cons simp del: set_concat)
  then have "sound_writes (applys ws (committed g)) (tx_writes t)"
    using Cons.prems(1) by (intro sound_writes_stable) simp_all
  moreover have "txs_ok i ts (install ws sq g)"
    using Cons.prems by (intro Cons.IH) (auto simp: owners_Cons simp del: set_concat)
  ultimately show ?case using Cons.prems(1) by simp
qed simp

lemma txs_ok_acquire: "txs_ok i st g \<Longrightarrow> txs_ok i st (acquire me ws g)"
  by (induction st) (auto simp: acquire_def)

lemma txs_ok_release: "txs_ok i st g \<Longrightarrow> me \<notin> owners i st \<Longrightarrow> txs_ok i st (release me g)"
  by (induction st) (auto simp: release_def owners_Cons)

lemma txs_ok_cong:
  "txs_ok i st g \<Longrightarrow> committed g' = committed g \<Longrightarrow> locks g' = locks g \<Longrightarrow> txs_ok i st g'"
  by (induction st) auto

lemma not_blockedD:
  "\<not> blocked me ws g \<Longrightarrow> k \<in> set (keys_of_all ws) \<Longrightarrow> (k, ow) \<in> set (locks g) \<Longrightarrow> ow = me"
  unfolding blocked_def locked_by_other_def list_ex_iff by fastforce

lemma in_acquire:
  "(k, a) \<in> set (locks (acquire me ws g)) \<longleftrightarrow>
     k \<in> set (keys_of_all ws) \<and> a = me \<or> (k, a) \<in> set (locks g)"
  by (auto simp: acquire_def simp del: set_concat)

lemma exclusive_acquire:
  assumes "exclusive g" "\<not> blocked me ws g"
  shows "exclusive (acquire me ws g)"
  unfolding exclusive_def
proof (intro allI impI)
  fix k a b
  assume "(k, a) \<in> set (locks (acquire me ws g))" "(k, b) \<in> set (locks (acquire me ws g))"
  then show "a = b"
    unfolding in_acquire
    using assms(1) not_blockedD [OF assms(2), of k a] not_blockedD [OF assms(2), of k b]
    unfolding exclusive_def by metis
qed

lemma exclusive_release: "exclusive g \<Longrightarrow> exclusive (release me g)"
  unfolding exclusive_def release_def by simp blast

lemma exclusive_cong: "exclusive g \<Longrightarrow> locks g' = locks g \<Longrightarrow> exclusive g'"
  unfolding exclusive_def by simp


section \<open>One step is sound\<close>

lemma committed_stepI:
  "sound_writes d ws \<Longrightarrow> balanced ws \<Longrightarrow> committed_step d (burns sq (applys ws d))"
  unfolding committed_step_def by blast

lemma apply_write_burn: "apply_write w (burn s d) = burn s (apply_write w d)"
  by (cases w; cases s) (simp_all add: table_defs)

lemma applys_burn: "applys ws (burn s d) = burn s (applys ws d)"
  by (induction ws arbitrary: d) (simp_all add: apply_write_burn)

lemma applys_burns [simp]: "applys ws (burns sq d) = burns sq (applys ws d)"
  by (induction sq arbitrary: d) (simp_all add: applys_burn)

text \<open>What safe says of a statement at the environment it meets.\<close>

lemma safe_autoD:
  assumes "safe (Stmt f h) [] Q" "sees [] e" "f e = ((ws, sq, ab), q)"
  shows "ab \<or> (sound_writes (view e) ws \<and> balanced ws)" "safe q [] Q"
  using assms(1) assms(2) assms(3) by (auto dest!: spec [of _ e])

lemma safe_txD:
  assumes "safe (Stmt f h) (t # ts) Q" "tx_state t = TxLive" "sees (tx_writes t) e"
    "f e = ((ws, sq, ab), q)"
  shows "if ab then safe q (tx_fail t # ts) Q
    else sound_writes (view e) ws \<and> safe q (t\<lparr>tx_writes := tx_writes t @ ws\<rparr> # ts) Q"
  using assms by (auto dest!: spec [of _ e])

lemma safe_faultD:
  "safe (Stmt f h) [] Q \<Longrightarrow> safe (h x) [] Q"
  "safe (Stmt f h) (t # ts) Q \<Longrightarrow> tx_state t = TxLive \<Longrightarrow> safe (h x) (tx_fail t # ts) Q"
  by auto

text \<open>What a step owes: its own thread stays in order, the others are not disturbed.\<close>

definition step_ok :: "nat \<Rightarrow> gstate \<Rightarrow> txn list \<Rightarrow> gstate \<Rightarrow> bool" where
  "step_ok i g st' g' =
     (txs_ok i st' g' \<and> exclusive g' \<and> committed_step (committed g) (committed g') \<and>
      (\<forall>j st2. j \<noteq> i \<longrightarrow> txs_ok j st2 g \<longrightarrow> txs_ok j st2 g'))"

lemma not_owner [simp]: "(i, Suc (length ts)) \<notin> owners i ts" "(i, 0) \<notin> owners j st"
  "i \<noteq> j \<Longrightarrow> (i, n) \<notin> owners j st"
  by (auto simp: owners_def)

lemma step_ok_same:
  "exclusive g \<Longrightarrow> txs_ok i st' g \<Longrightarrow> committed g' = committed g \<Longrightarrow> locks g' = locks g \<Longrightarrow>
     step_ok i g st' g'"
  unfolding step_ok_def using txs_ok_cong exclusive_cong by force

lemma step_ok_release:
  assumes "exclusive g" "txs_ok i st' g" "(i, n) \<notin> owners i st'"
  shows "step_ok i g st' (release (i, n) g)"
  unfolding step_ok_def using assms exclusive_release txs_ok_release by fastforce

lemma step_ok_auto:
  assumes "exclusive g" "\<not> blocked (i, 0) ws g" "sound_writes (committed g) ws" "balanced ws"
  shows "step_ok i g [] (install ws sq g)"
proof -
  have "txs_ok j st2 (install ws sq g)" if "txs_ok j st2 g" for j st2
    using that by (rule txs_ok_install) (use not_blockedD [OF assms(2)] in fastforce)
  moreover have "committed_step (committed g) (committed (install ws sq g))"
    using assms by (simp add: committed_stepI)
  ultimately show ?thesis
    using assms(1) by (auto simp: step_ok_def intro: exclusive_cong)
qed

lemma step_ok_burn:
  "exclusive g \<Longrightarrow> txs_ok i st' g \<Longrightarrow> step_ok i g st' (install [] sq g)"
  unfolding step_ok_def using txs_ok_install [of _ _ g "[]" sq] exclusive_cong [of g "install [] sq g"]
  by auto

lemma step_ok_tx:
  assumes "exclusive g" "\<not> blocked (i, Suc (length ts)) ws g" "txs_ok i (t # ts) g"
    and "sound_writes (applys (tx_writes t) (committed g)) ws"
  shows "step_ok i g (t\<lparr>tx_writes := tx_writes t @ ws\<rparr> # ts)
           (acquire (i, Suc (length ts)) ws (install [] sq g))"
proof -
  let ?g = "install [] sq g"
  have burn: "txs_ok j st2 ?g" if "txs_ok j st2 g" for j st2
    using that by (rule txs_ok_install) simp
  have "exclusive (acquire (i, Suc (length ts)) ws ?g)"
    using assms(1,2) by (intro exclusive_acquire) (auto intro: exclusive_cong)
  moreover have "txs_ok i ts (acquire (i, Suc (length ts)) ws ?g)"
    using assms(3) by (intro txs_ok_acquire burn) simp
  ultimately show ?thesis
    using assms(3,4) burn by (auto simp: step_ok_def in_acquire txs_ok_acquire simp del: set_concat)
qed

lemma step_ok_commit:
  assumes "exclusive g" "txs_ok i (t # ts) g" "balanced (tx_writes t)"
  shows "step_ok i g (tx_done t # ts) (release (i, Suc (length ts)) (install (tx_writes t) [] g))"
proof -
  let ?me = "(i, Suc (length ts))"
  have mine: "ow = ?me" if "k \<in> set (keys_of_all (tx_writes t))" "(k, ow) \<in> set (locks g)" for k ow
    using assms(1,2) that unfolding exclusive_def txs_ok.simps by blast
  have others: "txs_ok j st2 (release ?me (install (tx_writes t) [] g))"
    if "txs_ok j st2 g" "?me \<notin> owners j st2" for j st2
    using that mine by (intro txs_ok_release txs_ok_install) blast+
  have "exclusive (release ?me (install (tx_writes t) [] g))"
    using assms(1) by (intro exclusive_release) (auto intro: exclusive_cong)
  moreover have "committed_step (committed g) (committed (release ?me (install (tx_writes t) [] g)))"
    using assms committed_stepI [of _ _ "[]"] by simp
  moreover have "txs_ok i ts (release ?me (install (tx_writes t) [] g))"
    using assms(2) by (intro others) simp_all
  ultimately show ?thesis
    using others by (auto simp: step_ok_def)
qed

lemma sees_auto: "db_inv (committed g) \<Longrightarrow> sees [] (auto_env i g)"
  unfolding sees_def auto_env_def by (rule exI [of _ "committed g"]) simp

lemma sees_tx:
  "db_inv (committed g) \<Longrightarrow> sound_writes (committed g) (tx_writes t) \<Longrightarrow>
     sees (tx_writes t) (tx_env i t n g)"
  unfolding sees_def tx_env_def by (rule exI [of _ "committed g"]) simp

lemma sound_step_auto:
  assumes "step_prog c i (Stmt f h) [] g = Some (p', st', g')" "safe (Stmt f h) [] Q"
    and "exclusive g" "db_inv (committed g)"
  shows "safe p' st' Q \<and> step_ok i g st' g'"
proof -
  obtain ws sq ab q where f: "f (auto_env i g) = ((ws, sq, ab), q)"
    by (metis prod.exhaust)
  have sf: "ab \<or> (sound_writes (committed g) ws \<and> balanced ws)" "safe q [] Q" "\<And>x. safe (h x) [] Q"
    using safe_autoD [OF assms(2) sees_auto [OF assms(4)] f] safe_faultD(1) [OF assms(2)]
    by (simp_all add: auto_env_def)
  have ok: "step_ok i g [] (install (if ab then [] else ws) sq g)" if "\<not> blocked (i, 0) ws g"
    using that sf(1) assms(3) by (auto intro: step_ok_auto step_ok_burn)
  show ?thesis
    using assms(1) f sf ok step_ok_same [OF assms(3), of i "[]" g]
    by (cases c) (auto split: if_splits)
qed

lemma sound_step_tx:
  assumes "step_prog c i (Stmt f h) (t # ts) g = Some (p', st', g')" "safe (Stmt f h) (t # ts) Q"
    and "exclusive g" "db_inv (committed g)" "txs_ok i (t # ts) g"
  shows "safe p' st' Q \<and> step_ok i g st' g'"
proof (cases "tx_state t = TxLive")
  case False
  with assms show ?thesis
    using step_ok_same [OF assms(3,5), of g] by (cases "tx_state t") auto
next
  case True
  let ?e = "tx_env i t (Suc (length ts)) g"
  have failed: "txs_ok i (tx_fail t # ts) g" using assms(5) by simp
  obtain ws sq ab q where f: "f ?e = ((ws, sq, ab), q)"
    by (metis prod.exhaust)
  have "sees (tx_writes t) ?e" using assms(4,5) by (intro sees_tx) simp_all
  then have sf: "\<And>x. safe (h x) (tx_fail t # ts) Q"
    "if ab then safe q (tx_fail t # ts) Q
     else sound_writes (view ?e) ws \<and> safe q (t\<lparr>tx_writes := tx_writes t @ ws\<rparr> # ts) Q"
    using safe_faultD(2) [OF assms(2) True] safe_txD [OF assms(2) True _ f] by simp_all
  show ?thesis
    using assms(1) f sf True step_ok_same [OF assms(3) failed, of g]
      step_ok_burn [OF assms(3) failed, of sq] step_ok_tx [OF assms(3) _ assms(5), of ws sq]
    by (cases c) (auto simp: Let_def tx_env_def split: if_splits)
qed

lemma sound_step:
  assumes "step_prog c i p st g = Some (p', st', g')" "safe p st Q"
    and "exclusive g" "db_inv (committed g)" "txs_ok i st g"
  shows "safe p' st' Q \<and> step_ok i g st' g'"
proof (cases p)
  case (Return r)
  with assms(1) show ?thesis by simp
next
  case (Stmt f h)
  then show ?thesis
    using assms sound_step_auto [OF _ _ assms(3,4)] sound_step_tx [OF _ _ assms(3,4)] by (cases st) simp_all
next
  case (Begin b)
  then show ?thesis
    using assms step_ok_same [OF assms(3), of i _ g] by (cases c) (auto simp: Let_def)
next
  case (Commit b)
  show ?thesis
  proof (cases st)
    case Nil
    with Commit assms show ?thesis using step_ok_same [OF assms(3), of i "[]" g] by auto
  next
    case (Cons t ts)
    have "txs_ok i (tx_done t # ts) g" "txs_ok i (tx_fail t # ts) g" "(i, Suc (length ts)) \<notin> owners i ts"
      using assms(5) Cons by simp_all
    moreover have "step_ok i g (tx_done t # ts) (release (i, Suc (length ts)) g)"
      using step_ok_release [OF assms(3), of i ts "Suc (length ts)"] assms(5) Cons
      by (simp add: step_ok_def)
    ultimately show ?thesis
      using assms(1,2,5) Commit Cons step_ok_same [OF assms(3), of i _ g]
        step_ok_commit [OF assms(3), of i t ts]
      by (cases "tx_state t"; cases c) (auto simp: Let_def)
  qed
next
  case (Rollback q)
  then show ?thesis
    using assms step_ok_same [OF assms(3), of i "[]" g] step_ok_release [OF assms(3), of i "tl st"]
    by (cases st) auto
next
  case (Mem m)
  then show ?thesis
    using assms step_ok_same [OF assms(3,5), of g'] by (auto split: prod.splits dest!: spec [of _ "cache g"])
qed


section \<open>Soundness of any interleaving\<close>

lemma thread_ok_cong:
  "thread_ok i th g \<Longrightarrow> committed g' = committed g \<Longrightarrow> locks g' = locks g \<Longrightarrow> thread_ok i th g'"
  unfolding thread_ok_def using txs_ok_cong by blast

lemma sys_inv_initial: "db_inv d \<Longrightarrow> sys_inv (initial d n)"
  by (simp add: sys_inv_def initial_def exclusive_def)

lemma sys_inv_step:
  assumes "sys_step P s s'" "sys_inv s" "\<And>p. P p \<Longrightarrow> safe p [] finished"
  shows "sys_inv s' \<and> committed_step (committed (shared s)) (committed (shared s'))"
  using assms(1)
proof cases
  case (move i c p' st' g')
  have "thread_ok i (threads s ! i) (shared s)" "exclusive (shared s)" "db_inv (committed (shared s))"
    using assms(2) move(2) by (simp_all add: sys_inv_def)
  with move(3) have *: "safe p' st' finished" "step_ok i (shared s) st' g'"
    using sound_step [OF move(3), where Q = finished] by (simp_all add: thread_ok_def)
  have "thread_ok j (threads s' ! j) g'" if "j < length (threads s')" for j
  proof (cases "j = i")
    case True
    with * move show ?thesis by (simp add: thread_ok_def step_ok_def)
  next
    case False
    moreover have "thread_ok j (threads s ! j) (shared s)"
      using assms(2) that move by (simp add: sys_inv_def)
    ultimately show ?thesis
      using * move by (simp add: thread_ok_def step_ok_def)
  qed
  with * move assms(2) show ?thesis
    using committed_step_inv by (auto simp: sys_inv_def step_ok_def)
next
  case (spawn p)
  with assms(2,3) show ?thesis
    by (auto simp: sys_inv_def nth_append thread_ok_def less_Suc_eq)
next
  case (tick n)
  with assms(2) show ?thesis
    by (auto simp: sys_inv_def intro: exclusive_cong thread_ok_cong)
qed

lemma reachable_steps:
  assumes "reachable P s0 s" "sys_inv s0" "\<And>p. P p \<Longrightarrow> safe p [] finished"
  shows "sys_inv s \<and> committed_step\<^sup>*\<^sup>* (committed (shared s0)) (committed (shared s))"
  using assms(1,2)
proof (induction rule: reachable.induct)
  case (step s s')
  then have *: "sys_inv s" "committed_step\<^sup>*\<^sup>* (committed (shared s0)) (committed (shared s))"
    by blast+
  from sys_inv_step [OF step.hyps(2) *(1) assms(3)]
  have "sys_inv s'" "committed_step (committed (shared s)) (committed (shared s'))" by blast+
  with *(2) show ?case by (meson rtranclp.rtrancl_into_rtrancl)
qed simp

lemma reachable_sound:
  assumes "reachable P (initial d n) s" "db_inv d" "\<And>p. P p \<Longrightarrow> safe p [] finished"
  shows "sys_inv s \<and> committed_step\<^sup>*\<^sup>* d (committed (shared s))"
  using reachable_steps [OF assms(1) sys_inv_initial [OF assms(2)] assms(3)] by (simp add: initial_def)

text \<open>The same for one session that runs to its end, whatever the environment chooses.\<close>

lemma run_sound:
  assumes "run cs i p st g = Some (cs', r, st', g')" "safe p st Q"
    and "exclusive g" "db_inv (committed g)" "txs_ok i st g"
  shows "Q r st' \<and> db_inv (committed g') \<and> committed_step\<^sup>*\<^sup>* (committed g) (committed g')"
  using assms
proof (induction cs i p st g rule: run.induct)
  case (1 cs i p st g)
  show ?case
  proof (cases "step_prog (next_choice cs) i p st g")
    case None
    with 1 show ?thesis by (auto simp: run.simps [of cs] split: prog.splits)
  next
    case (Some a)
    then obtain p1 st1 g1 where step: "step_prog (next_choice cs) i p st g = Some (p1, st1, g1)"
      by (cases a) auto
    then have "safe p1 st1 Q" "step_ok i g st1 g1"
      using sound_step [OF step] 1 by blast+
    then have ok: "exclusive g1" "txs_ok i st1 g1" "committed_step (committed g) (committed g1)"
      by (simp_all add: step_ok_def)
    have "run (tl cs) i p1 st1 g1 = Some (cs', r, st', g')"
      using 1(2) step by (simp add: run.simps [of cs])
    then have "Q r st' \<and> db_inv (committed g') \<and> committed_step\<^sup>*\<^sup>* (committed g1) (committed g')"
      using 1(1) [OF step refl refl] ok \<open>safe p1 st1 Q\<close> committed_step_inv 1(5) by blast
    with ok(3) show ?thesis by (meson converse_rtranclp_into_rtranclp)
  qed
qed

section \<open>Schedules\<close>

text \<open>
  A schedule written out: which thread moves next and what the environment does to it. Its
  states are reachable, so an interleaving can be computed and looked at.
\<close>

definition start_with :: "db \<Rightarrow> int \<Rightarrow> 'a prog list \<Rightarrow> 'a sys" where
  "start_with d n ps =
     \<lparr>threads = map (\<lambda>p. \<lparr>th_prog = p, th_txs = []\<rparr>) ps,
      shared = \<lparr>committed = d, locks = [], clock = n, cache = []\<rparr>\<rparr>"

primrec play :: "(nat \<times> choice) list \<Rightarrow> 'a sys \<Rightarrow> 'a sys option" where
  "play [] s = Some s"
| "play (m # ms) s =
     (case m of (i, c) \<Rightarrow>
        if i < length (threads s) then
          (case step_prog c i (th_prog (threads s ! i)) (th_txs (threads s ! i)) (shared s) of
             None \<Rightarrow> None
           | Some (p', st', g') \<Rightarrow>
               play ms (s\<lparr>threads := (threads s)[i := \<lparr>th_prog = p', th_txs = st'\<rparr>], shared := g'\<rparr>))
        else None)"

lemma start_with_snoc:
  "start_with d n (ps @ [p]) = (start_with d n ps)\<lparr>threads := threads (start_with d n ps) @ [\<lparr>th_prog = p, th_txs = []\<rparr>]\<rparr>"
  by (simp add: start_with_def)

lemma start_with_reachable: "list_all P ps \<Longrightarrow> reachable P (initial d n) (start_with d n ps)"
proof (induction ps rule: rev_induct)
  case Nil
  then show ?case using reachable.start [of P "initial d n"] by (simp add: start_with_def initial_def)
next
  case (snoc p ps)
  then show ?case
    unfolding start_with_snoc by (auto intro: reachable.step sys_step.spawn)
qed

lemma play_reachable: "play ms s = Some s' \<Longrightarrow> reachable P s0 s \<Longrightarrow> reachable P s0 s'"
proof (induction ms arbitrary: s)
  case (Cons m ms)
  then show ?case
    by (auto split: prod.splits if_splits option.splits
        intro!: Cons.IH intro: reachable.step sys_step.move)
qed simp

lemma scheduled:
  "play ms (start_with d n ps) = Some s \<Longrightarrow> list_all P ps \<Longrightarrow> reachable P (initial d n) s"
  by (rule play_reachable [OF _ start_with_reachable])

lemma played:
  assumes "\<exists>s. play ms (start_with d n ps) = Some s \<and> Q s" "list_all P ps"
  shows "\<exists>s. play ms (start_with d n ps) = Some s \<and> reachable P (initial d n) s \<and> Q s"
proof -
  obtain s where s: "play ms (start_with d n ps) = Some s" "Q s" using assms(1) by blast
  with scheduled [OF s(1) assms(2)] show ?thesis by blast
qed

text \<open>How a program in the code's vocabulary takes its next step: the facts that compute a play.\<close>

named_theorems play_simps \<open>computing a schedule\<close>

lemma step_exec [play_simps]:
  "step_prog c i (handle (exec s) k) [] g =
     (case c of
        LostRequest e \<Rightarrow> Some (k (Inl e), [], g)
      | _ \<Rightarrow> (case s (auto_env i g) of Reply r ws sq \<Rightarrow>
           if blocked (i, 0) ws g then None
           else Some (case c of LostReply e \<Rightarrow> k (Inl e) | _ \<Rightarrow> k r, [],
                  install (if server_error r then [] else ws) sq g)))"
  by (auto simp: exec_def throw_def split: choice.split reply.split)

lemma step_exec_tx [play_simps]:
  "step_prog c i (handle (exec s) k) (t # ts) g =
     (case tx_state t of
        TxDone \<Rightarrow> Some (k (Inl ErrTxClosed), t # ts, g)
      | TxFailed \<Rightarrow> Some (k (Inl ErrTxAborted), t # ts, g)
      | TxLive \<Rightarrow>
        (case c of
           Healthy \<Rightarrow>
             (case s (tx_env i t (Suc (length ts)) g) of Reply r ws sq \<Rightarrow>
                if blocked (i, Suc (length ts)) ws g then None
                else if server_error r then Some (k r, tx_fail t # ts, install [] sq g)
                else Some (k r, t\<lparr>tx_writes := tx_writes t @ ws\<rparr> # ts,
                  acquire (i, Suc (length ts)) ws (install [] sq g)))
         | LostRequest e \<Rightarrow> Some (k (Inl e), tx_fail t # ts, g)
         | LostReply e \<Rightarrow> Some (k (Inl e), tx_fail t # ts, g)))"
  by (auto simp: exec_def throw_def Let_def split: choice.split reply.split txstate.split)

lemma handle_in_tx [play_simps]:
  "handle (in_tx b) k = Begin (\<lambda>x. case x of None \<Rightarrow> handle b (\<lambda>r. Rollback (k r)) | Some e \<Rightarrow> k (Inl e))"
  by (auto simp: in_tx_def fun_eq_iff handle_handle split: option.split)

lemma handle_commit [play_simps]:
  "handle commit k = Commit (\<lambda>x. k (case x of None \<Rightarrow> Inr () | Some e \<Rightarrow> Inl e))"
  by (auto simp: commit_def fun_eq_iff split: option.split)

lemmas [play_simps] = handle_handle call_def Let_def install_def auto_env_def tx_env_def blocked_def
  locked_by_other_def key_list_def acquire_def release_def tx_done_def tx_fail_def start_with_def

section \<open>Histories\<close>

text \<open>
  A history property relates an earlier committed database to a later one. It is enough to
  know it of one rule-abiding version (version_history); it then holds between the start
  and any reachable state of any system of safe programs (committed_history).
\<close>

locale committed_history =
  fixes R :: "db \<Rightarrow> db \<Rightarrow> bool"
  assumes refl: "R d d"
    and trans: "R a b \<Longrightarrow> R b c \<Longrightarrow> R a c"
    and step: "db_inv d \<Longrightarrow> committed_step d d' \<Longrightarrow> R d d'"
begin

lemma steps: "committed_step\<^sup>*\<^sup>* d d' \<Longrightarrow> db_inv d \<Longrightarrow> R d d' \<and> db_inv d'"
proof (induction rule: rtranclp_induct)
  case (step b c)
  then show ?case using trans committed_step_inv committed_history.step [OF committed_history_axioms]
    by blast
qed (simp add: refl)

lemma reached:
  assumes "reachable P (initial d n) s" "db_inv d" "\<And>p. P p \<Longrightarrow> safe p [] finished"
  shows "R d (committed (shared s))"
  using reachable_sound [OF assms] steps assms(2) by blast

lemma between:
  assumes "reachable P (initial d n) s" "reachable P s s'" "db_inv d" "\<And>p. P p \<Longrightarrow> safe p [] finished"
  shows "R (committed (shared s)) (committed (shared s'))"
  using reachable_steps [OF assms(2) _ assms(4)] reachable_sound [OF assms(1,3,4)] steps
  unfolding sys_inv_def by blast

end

locale version_history =
  fixes R :: "db \<Rightarrow> db \<Rightarrow> bool"
  assumes self: "R d d"
    and join: "R a b \<Longrightarrow> R b c \<Longrightarrow> R a c"
    and one: "old_ok w d \<Longrightarrow> row_ok w \<Longrightarrow> R d (apply_write w d)"
    and sequences: "R d (burns sq d)"
begin

lemma versions: "chain d ws \<Longrightarrow> \<forall>w \<in> set ws. row_ok w \<Longrightarrow> R d (applys ws d)"
proof (induction ws arbitrary: d)
  case (Cons w ws)
  then have "R d (apply_write w d)" "R (apply_write w d) (applys ws (apply_write w d))"
    by (simp_all add: one)
  then show ?case using join by simp
qed (simp add: self)

end

sublocale version_history \<subseteq> committed_history R
proof
  fix d d'
  assume "committed_step d d'"
  then obtain ws sq where "sound_writes d ws" "d' = burns sq (applys ws d)"
    unfolding committed_step_def by blast
  then show "R d d'"
    using versions sequences join unfolding sound_writes_def by blast
qed (use self join in blast)+

end
