(* ===== verification/Safety.thy ===== *)
theory Safety
  imports Sessions
begin

text \<open>
  How a program is shown safe. A statement is sound when the versions it yields are current
  in its view and obey the row rules, neutral when it touches neither stock nor orders.
  quiet p holds of programs made of sound and neutral statements only, outside or inside a
  transaction alike; triple I p J is a Hoare triple over the versions an open transaction has
  collected; closed p says that p may be run anywhere and leaves the caller's transactions as
  they are; pooled p is the same for a program whose statements run on the pool.
\<close>

section \<open>Statements\<close>

definition wf_view :: "env \<Rightarrow> bool" where
  "wf_view e = (distinct (map o_ID (orders (view e))) \<and> distinct (map c_ID (customers (view e))))"

lemma sees_wf: "sees vs e \<Longrightarrow> wf_view e"
  unfolding sees_def wf_view_def using distinct_applys db_invD(1,7) by metis

lemma sees_inv: "sees [] e \<Longrightarrow> db_inv (view e)"
  by (auto simp: sees_def)

definition sound_stmt :: "'r stmt \<Rightarrow> bool" where
  "sound_stmt s = (\<forall>e r ws sq. wf_view e \<longrightarrow> s e = Reply r ws sq \<longrightarrow> sound_writes (view e) ws)"

fun neutral_version :: "version \<Rightarrow> bool" where
  "neutral_version (WStock _ _) = False"
| "neutral_version (WOrder _ _) = False"
| "neutral_version _ = True"

definition neutral :: "version list \<Rightarrow> bool" where
  "neutral ws = list_all neutral_version ws"

definition neutral_stmt :: "'r stmt \<Rightarrow> bool" where
  "neutral_stmt s = (\<forall>e r ws sq. s e = Reply r ws sq \<longrightarrow> neutral ws)"

lemma neutral_simps [simp]:
  "neutral []" "neutral (w # ws) = (neutral_version w \<and> neutral ws)"
  "neutral (ws @ vs) = (neutral ws \<and> neutral vs)"
  by (simp_all add: neutral_def)

lemma neutral_deltas:
  "neutral ws \<Longrightarrow> deltas_stock f p ws = 0" "neutral ws \<Longrightarrow> deltas_orders Q ws = 0"
  "neutral ws \<Longrightarrow> WOrder a r \<notin> set ws" "neutral ws \<Longrightarrow> WStock b s \<notin> set ws"
proof -
  have "deltas_stock f p ws = 0 \<and> deltas_orders Q ws = 0 \<and> WOrder a r \<notin> set ws \<and> WStock b s \<notin> set ws"
    if "neutral ws" using that
  proof (induction ws)
    case (Cons w ws)
    then show ?case by (cases w) auto
  qed simp
  then show "neutral ws \<Longrightarrow> deltas_stock f p ws = 0" "neutral ws \<Longrightarrow> deltas_orders Q ws = 0"
    "neutral ws \<Longrightarrow> WOrder a r \<notin> set ws" "neutral ws \<Longrightarrow> WStock b s \<notin> set ws" by blast+
qed

lemma balanced_neutral_append: "neutral ws \<Longrightarrow> balanced (ws @ vs) = balanced vs"
  by (auto simp: balanced_def neutral_deltas inserts_stock_def)

lemma balanced_neutral: "neutral ws \<Longrightarrow> balanced ws"
  using balanced_neutral_append [of ws "[]"] by simp

section \<open>Quiet programs\<close>

primrec quiet :: "'a prog \<Rightarrow> bool" where
  "quiet (Return r) = True"
| "quiet (Stmt f h) =
     ((\<forall>x. quiet (h x)) \<and>
      (\<forall>e. case map_prod id quiet (f e) of ((ws, sq, ab), pp) \<Rightarrow>
         (wf_view e \<longrightarrow> sound_writes (view e) ws \<and> neutral ws) \<and> pp))"
| "quiet (Begin b) = False"
| "quiet (Commit b) = False"
| "quiet (Rollback p) = False"
| "quiet (Mem f) = (\<forall>c. case map_prod id quiet (f c) of (c', pp) \<Rightarrow> pp)"

lemma map_prod_quiet [simp]: "map_prod id quiet x = (fst x, quiet (snd x))"
  by (simp add: map_prod_def split_beta)

lemma quiet_ret [good_intros]: "quiet (ret x)" and quiet_throw [good_intros]: "quiet (throw e)"
  by (simp_all add: ret_def throw_def)

lemma quiet_Return [good_intros]: "quiet (Return r)"
  by simp

lemma quiet_handle [good_intros]:
  "quiet p \<Longrightarrow> (\<And>r. quiet (k r)) \<Longrightarrow> quiet (handle p k)"
  by (induction p rule: prog_induct) (auto simp: split_beta)

lemma quiet_call [good_intros]:
  "quiet m \<Longrightarrow> (\<And>x. quiet (k x)) \<Longrightarrow> quiet (call m k)"
  unfolding call_def by (intro quiet_handle) (auto split: sum.split intro: quiet_throw)

lemma quiet_exec [good_intros]: "sound_stmt s \<Longrightarrow> neutral_stmt s \<Longrightarrow> quiet (exec s)"
  unfolding exec_def sound_stmt_def neutral_stmt_def
  by (auto simp: throw_def split: reply.split)

lemma quiet_Mem [good_intros]: "(\<And>c. quiet (snd (f c))) \<Longrightarrow> quiet (Mem f)"
  by (simp add: split_beta)

section \<open>Triples\<close>

definition stays :: "(error + 'a \<Rightarrow> version list \<Rightarrow> bool) \<Rightarrow> txn list \<Rightarrow> error + 'a \<Rightarrow> txn list \<Rightarrow> bool" where
  "stays J ts r st' = (\<exists>t'. st' = t' # ts \<and> (tx_state t' = TxLive \<longrightarrow> J r (tx_writes t')))"

definition triple :: "(version list \<Rightarrow> bool) \<Rightarrow> 'a prog \<Rightarrow> (error + 'a \<Rightarrow> version list \<Rightarrow> bool) \<Rightarrow> bool" where
  "triple I p J =
     (\<forall>t ts. (tx_state t = TxLive \<longrightarrow> I (tx_writes t)) \<longrightarrow> safe p (t # ts) (stays J ts))"

lemma triple_Return: "(\<And>vs. I vs \<Longrightarrow> J r vs) \<Longrightarrow> triple I (Return r) J"
  by (auto simp: triple_def stays_def)

lemma triple_ret: "(\<And>vs. I vs \<Longrightarrow> J (Inr x) vs) \<Longrightarrow> triple I (ret x) J"
  by (simp add: ret_def triple_Return)

lemma triple_throw: "(\<And>vs. I vs \<Longrightarrow> J (Inl x) vs) \<Longrightarrow> triple I (throw x) J"
  by (simp add: throw_def triple_Return)

lemma triple_handle:
  assumes "triple I m J" "\<And>r. triple (J r) (k r) K"
  shows "triple I (handle m k) K"
  unfolding triple_def
proof (intro allI impI)
  fix t :: txn and ts
  assume "tx_state t = TxLive \<longrightarrow> I (tx_writes t)"
  then have "safe m (t # ts) (stays J ts)"
    using assms(1) unfolding triple_def by blast
  then show "safe (handle m k) (t # ts) (stays K ts)"
    by (rule safe_handleI) (use assms(2) in \<open>auto simp: stays_def triple_def\<close>)
qed

lemma triple_call:
  assumes "triple I m J" "\<And>x. triple (J (Inr x)) (k x) K" "\<And>e vs. J (Inl e) vs \<Longrightarrow> K (Inl e) vs"
  shows "triple I (call m k) K"
  unfolding call_def
  by (rule triple_handle [OF assms(1)]) (use assms(2,3) in \<open>auto split: sum.split intro: triple_throw\<close>)

lemma triple_weaken:
  assumes "triple I p J" "\<And>vs. I' vs \<Longrightarrow> I vs" "\<And>r vs. J r vs \<Longrightarrow> J' r vs"
  shows "triple I' p J'"
  unfolding triple_def
proof (intro allI impI)
  fix t :: txn and ts
  assume "tx_state t = TxLive \<longrightarrow> I' (tx_writes t)"
  then have "safe p (t # ts) (stays J ts)"
    using assms(1,2) unfolding triple_def by blast
  then show "safe p (t # ts) (stays J' ts)"
    by (rule safe_mono) (use assms(3) in \<open>auto simp: stays_def\<close>)
qed

text \<open>A statement appends its versions; after a server error the transaction is dead.\<close>

lemma triple_exec:
  assumes "sound_stmt s"
    and "\<And>vs e r ws sq. I vs \<Longrightarrow> sees vs e \<Longrightarrow> s e = Reply r ws sq \<Longrightarrow> \<not> server_error r \<Longrightarrow> J r (vs @ ws)"
  shows "triple I (exec s) J"
  unfolding triple_def
proof (intro allI impI)
  fix t :: txn and ts
  assume I: "tx_state t = TxLive \<longrightarrow> I (tx_writes t)"
  show "safe (exec s) (t # ts) (stays J ts)"
  proof (cases "tx_state t = TxLive")
    case True
    then have "sound_writes (view e) ws \<and> (\<not> server_error r \<longrightarrow> J r (tx_writes t @ ws))"
      if "sees (tx_writes t) e" "s e = Reply r ws sq" for e r ws sq
      using that I assms sees_wf unfolding sound_stmt_def by blast
    with True show ?thesis
      by (auto simp: exec_def throw_def stays_def split: reply.split)
  next
    case False
    then show ?thesis
      by (cases "tx_state t") (simp_all add: exec_def throw_def stays_def)
  qed
qed

lemma triple_commit: "(\<And>vs. I vs \<Longrightarrow> balanced vs) \<Longrightarrow> triple I commit J"
  unfolding triple_def
proof (intro allI impI)
  fix t :: txn and ts
  assume "\<And>vs. I vs \<Longrightarrow> balanced vs" "tx_state t = TxLive \<longrightarrow> I (tx_writes t)"
  then show "safe commit (t # ts) (stays J ts)"
    by (cases "tx_state t") (simp_all add: commit_def ret_def throw_def stays_def)
qed

text \<open>A quiet program inside a transaction only adds neutral versions.\<close>

lemma quiet_triple: "quiet p \<Longrightarrow> triple neutral p (\<lambda>r. neutral)"
proof (induction p rule: prog_induct)
  case (Return r)
  show ?case by (rule triple_Return)
next
  case (Stmt f h)
  have h: "triple neutral (h x) (\<lambda>r. neutral)" for x
    using Stmt by simp
  have f: "triple neutral (snd (f e)) (\<lambda>r. neutral)" for e
    using Stmt by (auto simp: split_beta)
  show ?case
    unfolding triple_def
  proof (intro allI impI)
    fix t :: txn and ts
    assume n: "tx_state t = TxLive \<longrightarrow> neutral (tx_writes t)"
    show "safe (Stmt f h) (t # ts) (stays (\<lambda>r. neutral) ts)"
    proof (cases "tx_state t")
      case TxLive
      have "sound_writes (view e) (fst (fst (f e))) \<and> neutral (fst (fst (f e)))" if "sees (tx_writes t) e" for e
        using Stmt.prems sees_wf [OF that] by (auto simp: split_beta)
      moreover have "safe (h x) (tx_fail t # ts) (stays (\<lambda>r. neutral) ts)" for x
        using h [of x] unfolding triple_def by simp
      moreover have "safe (snd (f e)) (tx_fail t # ts) (stays (\<lambda>r. neutral) ts)" for e
        using f [of e] unfolding triple_def by simp
      moreover have "safe (snd (f e)) (t\<lparr>tx_writes := tx_writes t @ ws\<rparr> # ts) (stays (\<lambda>r. neutral) ts)"
        if "neutral ws" for e ws
        using f [of e] n that unfolding triple_def by simp
      ultimately show ?thesis
        using TxLive by (auto simp: split_beta)
    next
      case TxFailed
      with h n show ?thesis unfolding triple_def by simp
    next
      case TxDone
      with h n show ?thesis unfolding triple_def by simp
    qed
  qed
next
  case (Mem m)
  then show ?case by (fastforce simp: triple_def split_beta)
qed simp_all

section \<open>Programs on the pool\<close>

definition keeps :: "txn list \<Rightarrow> error + 'a \<Rightarrow> txn list \<Rightarrow> bool" where
  "keeps st r st' = (st' = st)"

definition closed :: "'a prog \<Rightarrow> bool" where
  "closed p = (\<forall>st. safe p st (keeps st))"

definition pooled :: "'a prog \<Rightarrow> bool" where
  "pooled p = safe p [] (keeps [])"

lemma pooled_safe: "pooled p \<Longrightarrow> safe p [] finished"
  unfolding pooled_def by (erule safe_mono) (simp add: finished_def)

lemma closed_pooled: "closed p \<Longrightarrow> pooled p"
  by (simp add: closed_def pooled_def)

lemma closed_triple: "closed p \<Longrightarrow> triple I p (\<lambda>r. I)"
  unfolding closed_def triple_def
proof (intro allI impI)
  fix t :: txn and ts
  assume "\<forall>st. safe p st (keeps st)" and I: "tx_state t = TxLive \<longrightarrow> I (tx_writes t)"
  then have "safe p (t # ts) (keeps (t # ts))" by blast
  then show "safe p (t # ts) (stays (\<lambda>r. I) ts)"
    by (rule safe_mono) (use I in \<open>auto simp: keeps_def stays_def\<close>)
qed

lemma closed_Return [good_intros]: "closed (Return r)"
  and closed_ret [good_intros]: "closed (ret x)" and closed_throw [good_intros]: "closed (throw e)"
  by (simp_all add: closed_def keeps_def ret_def throw_def)

lemma safe_handle_keeps:
  assumes "safe m st (keeps st)" "\<And>r. safe (k r) st Q"
  shows "safe (handle m k) st Q"
  by (rule safe_handleI [OF assms(1)]) (use assms(2) in \<open>simp add: keeps_def\<close>)

lemma closed_handle [good_intros]:
  "closed m \<Longrightarrow> (\<And>r. closed (k r)) \<Longrightarrow> closed (handle m k)"
  unfolding closed_def by (intro allI safe_handle_keeps) blast+

lemma closed_call [good_intros]: "closed m \<Longrightarrow> (\<And>x. closed (k x)) \<Longrightarrow> closed (call m k)"
  unfolding call_def by (intro closed_handle) (auto split: sum.split intro: closed_throw)

lemma pooled_handle [good_intros]:
  "pooled m \<Longrightarrow> (\<And>r. pooled (k r)) \<Longrightarrow> pooled (handle m k)"
  unfolding pooled_def by (rule safe_handle_keeps)

lemma pooled_ret [good_intros]: "pooled (ret x)" and pooled_throw [good_intros]: "pooled (throw e)"
  and pooled_Return [good_intros]: "pooled (Return r)"
  by (simp_all add: pooled_def keeps_def ret_def throw_def)

lemma pooled_call [good_intros]: "pooled m \<Longrightarrow> (\<And>x. pooled (k x)) \<Longrightarrow> pooled (call m k)"
  unfolding call_def by (intro pooled_handle) (auto split: sum.split intro: pooled_throw)

text \<open>One statement on the pool is its own transaction, so it has to be balanced by itself.\<close>

definition balanced_stmt :: "'r stmt \<Rightarrow> bool" where
  "balanced_stmt s = (\<forall>e r ws sq. db_inv (view e) \<longrightarrow> s e = Reply r ws sq \<longrightarrow> \<not> server_error r \<longrightarrow> balanced ws)"

lemma pooled_exec [good_intros]:
  "sound_stmt s \<Longrightarrow> balanced_stmt s \<Longrightarrow> pooled (exec s)"
proof -
  assume *: "sound_stmt s" "balanced_stmt s"
  have "server_error r \<or> (sound_writes (view e) ws \<and> balanced ws)"
    if "sees [] e" "s e = Reply r ws sq" for e r ws sq
    using * that sees_wf [OF that(1)] sees_inv [OF that(1)] unfolding sound_stmt_def balanced_stmt_def by blast
  then show ?thesis
    unfolding pooled_def exec_def by (auto simp: keeps_def throw_def split: reply.split)
qed

lemma neutral_balanced_stmt: "neutral_stmt s \<Longrightarrow> balanced_stmt s"
  using balanced_neutral unfolding neutral_stmt_def balanced_stmt_def by blast

lemma quiet_pooled: "quiet p \<Longrightarrow> pooled p"
proof (induction p rule: prog_induct)
  case (Stmt f h)
  have "(sound_writes (view e) (fst (fst (f e))) \<and> balanced (fst (fst (f e))))" if "sees [] e" for e
    using Stmt.prems sees_wf [OF that] by (auto simp: split_beta balanced_neutral)
  with Stmt show ?case by (auto simp: pooled_def split_beta)
qed (auto simp: pooled_def keeps_def split_beta)

text \<open>A transaction: Begin, the body, the deferred rollback.\<close>

lemma in_tx_closed:
  assumes "triple (\<lambda>vs. vs = []) body J"
  shows "closed (in_tx body)"
  unfolding closed_def
proof
  fix st
  have body: "safe body (\<lparr>tx_state = TxLive, tx_writes = [], tx_now = n\<rparr> # st) (stays J st)" for n
    using assms unfolding triple_def by simp
  have "safe (handle body (\<lambda>r. Rollback (Return r))) (\<lparr>tx_state = TxLive, tx_writes = [], tx_now = n\<rparr> # st)
      (keeps st)" for n
    by (rule safe_handleI [OF body]) (auto simp: stays_def keeps_def)
  then show "safe (in_tx body) st (keeps st)"
    by (simp add: in_tx_def throw_def keeps_def)
qed


text \<open>A pooled program run alone keeps the invariant, faults or not.\<close>

lemma pooled_run:
  assumes "pooled p" "run cs i p [] g = Some (cs', r, st', g')" "locks g = []" "db_inv (committed g)"
  shows "st' = []" "db_inv (committed g')" "committed_step\<^sup>*\<^sup>* (committed g) (committed g')"
proof -
  have "exclusive g" using assms(3) by (simp add: exclusive_def)
  from run_sound [OF assms(2) _ this assms(4), of "keeps []"] assms(1)
  show "st' = []" "db_inv (committed g')" "committed_step\<^sup>*\<^sup>* (committed g) (committed g')"
    by (simp_all add: pooled_def keeps_def)
qed

section \<open>Background loops\<close>

text \<open>
  The loop of a background job: what its select receives, one signal after another, up to
  the cancellation of its context. The result says whether the loop returned (it waits for
  the next signal otherwise).
\<close>

datatype 'a tick = Cancelled | Tick 'a

primrec ticker_loop :: "('a \<Rightarrow> unit prog) \<Rightarrow> 'a tick list \<Rightarrow> bool prog" where
  "ticker_loop turn [] = ret False"
| "ticker_loop turn (s # ss) =
     (case s of
        Cancelled \<Rightarrow> ret True
      | Tick x \<Rightarrow> handle (turn x) (\<lambda>_. ticker_loop turn ss))"

lemma ticker_loop_stops: "ticker_loop turn (xs @ Cancelled # ys) = ticker_loop turn (xs @ [Cancelled])"
  by (induction xs) (simp_all split: tick.split)

lemma pooled_ticker_loop [good_intros]: "(\<And>x. pooled (turn x)) \<Longrightarrow> pooled (ticker_loop turn ss)"
  by (induction ss) (auto intro!: pooled_ret pooled_handle split: tick.split)

text \<open>A turn, whatever it answers.\<close>

definition discard :: "'a prog \<Rightarrow> unit prog" where
  "discard p = handle p (\<lambda>r. ret ())"

lemma pooled_discard [good_intros]: "pooled p \<Longrightarrow> pooled (discard p)"
  unfolding discard_def by (intro pooled_handle pooled_ret)

end
