(* ===== verification/Statements.thy ===== *)
theory Statements
  imports Safety
begin

text \<open>
  What the SQL statements owe the accounting: every one of them is sound; the reads and
  the statements on customers, idempotency keys, products and events are neutral; the
  two that run on the pool by themselves and touch orders are balanced. The effects of the
  remaining ones (reserve, release, commit, create, cancel, complete, fail, expire) are
  stated as the exact versions they yield, for the transactions that combine them.
\<close>

section \<open>Soundness\<close>

lemma applys_single [simp]: "applys [w] d = apply_write w d"
  by (simp add: applys_def)

lemma sound_update_order:
  assumes "\<And>r. guard r \<Longrightarrow> same_order r (f r) \<and> lifecycle (o_Status r) (o_Status (f r)) \<and>
    (order_typed r \<longrightarrow> order_typed (f r))"
  shows "sound_stmt (update_order i guard f)"
  unfolding sound_stmt_def update_order_def reply_defs
proof (intro allI impI, goal_cases)
  case (1 e r ws sq)
  show ?case
  proof (cases "find_order i (view e)")
    case (Some r0)
    then have "o_ID r0 = i" by (auto simp: find_order_def dest: find_by_SomeD)
    with Some 1 assms [of r0] show ?thesis
      by (auto simp: sound_writes_def same_order_def split: if_splits)
  qed (use 1 in simp)
qed

lemma sound_update_stock:
  assumes "\<And>s. s_ProductID (f s) = s_ProductID s"
  shows "sound_stmt (update_stock p guard f)"
  unfolding sound_stmt_def update_stock_def reply_defs
proof (intro allI impI, goal_cases)
  case (1 e r ws sq)
  show ?case
  proof (cases "find_stock p (view e)")
    case (Some s0)
    then have "s_ProductID s0 = p" by (auto simp: find_stock_def dest: find_by_SomeD)
    with Some 1 assms show ?thesis
      by (auto simp: sound_writes_def split: if_splits)
  qed (use 1 in simp)
qed

lemma find_SomeD: "List.find P xs = Some x \<Longrightarrow> x \<in> set xs \<and> P x"
  by (auto simp: find_Some_iff)

lemma sound_stock [good_intros]:
  "sound_stmt (ReserveStock p)" "sound_stmt (CommitStock p)" "sound_stmt (ReleaseStock p)"
  "sound_stmt (CreateStock p q)"
  unfolding ReserveStock_def CommitStock_def ReleaseStock_def
  by (rule sound_update_stock, simp)+
    (auto simp: sound_stmt_def CreateStock_def Let_def sound_writes_def split: if_splits)

lemma sound_orders [good_intros]:
  "sound_stmt (CompleteOrder i)" "sound_stmt (CancelPendingOrder i)" "sound_stmt (FailOrder i)"
  unfolding CompleteOrder_def CancelPendingOrder_def FailOrder_def
  by (rule sound_update_order, simp add: same_order_def order_typed_def)+

lemma sound_reads [good_intros]:
  "sound_stmt (FindProductByID i)" "sound_stmt (ListProducts lim off)" "sound_stmt (FindCustomerBySub so)"
  "sound_stmt (FindOrderByID i)" "sound_stmt (FindOrderByIDPlain i)"
  "sound_stmt (FindOrderByPaymentIntentID t)" "sound_stmt (ListOrdersByCustomer cid lim off)"
  "sound_stmt LatestStripeEventCreatedAt" "sound_stmt (FindIdempotencyKey s k)"
  "sound_stmt (ClaimNextStripeEvent m)"
  by (auto simp: sound_stmt_def stmt_defs ListProducts_def ListOrdersByCustomer_def page_def
      sound_writes_def split: option.splits if_splits list.splits)

lemma neutral_reads [good_intros]:
  "neutral_stmt (FindProductByID i)" "neutral_stmt (ListProducts lim off)" "neutral_stmt (FindCustomerBySub so)"
  "neutral_stmt (FindOrderByID i)" "neutral_stmt (FindOrderByIDPlain i)"
  "neutral_stmt (FindOrderByPaymentIntentID t)" "neutral_stmt (ListOrdersByCustomer cid lim off)"
  "neutral_stmt LatestStripeEventCreatedAt" "neutral_stmt (FindIdempotencyKey s k)"
  "neutral_stmt (ClaimNextStripeEvent m)"
  by (auto simp: neutral_stmt_def stmt_defs ListProducts_def ListOrdersByCustomer_def page_def
      split: option.splits if_splits list.splits)

lemma neutral_writes [good_intros]:
  "neutral_stmt (CreateProduct nm price start)" "neutral_stmt (UpdateCustomerEmail i m)"
  "neutral_stmt (LinkCustomer m so)" "neutral_stmt (InsertStripeEvent v ty pl cr)"
  "neutral_stmt (MarkStripeEventProcessed v err)" "neutral_stmt (MarkStripeEventFailed v err)"
  "neutral_stmt (ClaimIdempotencyKey s k h)" "neutral_stmt (CompleteIdempotencyKey s k i)"
  "neutral_stmt (ReleaseIdempotencyKey s k)"
  by (auto simp: neutral_stmt_def stmt_defs Let_def split: option.splits if_splits)

lemma find_key:
  "find_customer i d = Some c \<Longrightarrow> c_ID c = i" "find_event v d = Some w \<Longrightarrow> e_ID w = v"
  "find_idem k d = Some r \<Longrightarrow> i_key r = k" "find_order i d = Some q \<Longrightarrow> o_ID q = i"
  "find_stock p d = Some s \<Longrightarrow> s_ProductID s = p" "find_product p d = Some x \<Longrightarrow> p_ID x = p"
  by (auto simp: find_customer_def find_event_def find_idem_def find_order_def find_stock_def
      find_product_def dest: find_by_SomeD)

lemma by_email_key:
  "wf_view e \<Longrightarrow> by_email m (view e) = Some c \<Longrightarrow> find_customer (c_ID c) (view e) = Some c"
  by (auto simp: by_email_def wf_view_def find_customer_def dest!: find_SomeD intro: find_by_distinct)

lemma sound_customers [good_intros]:
  "sound_stmt (UpdateCustomerEmail i m)" "sound_stmt (LinkCustomer m so)"
  unfolding sound_stmt_def UpdateCustomerEmail_def LinkCustomer_def coalesce_def Let_def sound_writes_def
  by (auto simp: reply_defs find_key by_email_key split: option.splits if_splits)

lemma sound_events [good_intros]:
  "sound_stmt (InsertStripeEvent v ty pl cr)" "sound_stmt (MarkStripeEventProcessed v err)"
  "sound_stmt (MarkStripeEventFailed v err)"
  by (auto simp: sound_stmt_def stmt_defs sound_writes_def find_key split: option.splits)

lemma idem_self:
  "find_idem (s, k) d = Some r \<Longrightarrow> find_idem (i_CognitoSub r, i_IdemKey r) d = Some r"
  using find_key(3) [of "(s, k)" d r] by (simp add: i_key_def)

lemma sound_idems [good_intros]:
  "sound_stmt (ClaimIdempotencyKey s k h)" "sound_stmt (CompleteIdempotencyKey s k i)"
  "sound_stmt (ReleaseIdempotencyKey s k)"
  by (auto simp: sound_stmt_def stmt_defs Let_def sound_writes_def idem_self i_key_def
      split: option.splits if_splits)

lemma sound_products [good_intros]: "sound_stmt (CreateProduct nm price start)"
  by (auto simp: sound_stmt_def CreateProduct_def Let_def sound_writes_def split: if_splits)

lemma sound_inserts [good_intros]:
  "sound_stmt (CreateOrder cid p amount expires)" "sound_stmt (ReserveAndCreateOrder p cid expires)"
  "sound_stmt (MarkOrderAwaitingPayment i t expires)"
  by (auto simp: sound_stmt_def stmt_defs Let_def sound_writes_def new_order_def row_simps find_key
      same_order_def order_typed_def split: option.splits if_splits)

section \<open>Balance\<close>

lemma product_of_stock: "db_inv d \<Longrightarrow> find_stock p d = Some s \<Longrightarrow> find_product p d \<noteq> None"
  by (auto simp: find_stock_def dest!: find_by_SomeD dest: db_invD(6))

lemma balanced_reserve_pair:
  assumes "s_ProductID s = o_ProductID r" "s_ProductID s' = s_ProductID s" "o_Status r = StatusPending"
    and "s_NumReserved s' = s_NumReserved s + 1" "s_Quantity s' = s_Quantity s"
  shows "balanced [WStock (Some s) s', WOrder None r]" "balanced [WOrder None r, WStock (Some s) s']"
  using assms by (auto simp: balanced_def is_live_def is_sold_def inserts_stock_def)

lemma balanced_inserts [good_intros]:
  "balanced_stmt (ReserveAndCreateOrder p cid expires)" "balanced_stmt (MarkOrderAwaitingPayment i t expires)"
proof -
  show "balanced_stmt (ReserveAndCreateOrder p cid expires)"
    unfolding balanced_stmt_def
  proof (intro allI impI, goal_cases)
    case (1 e r ws sq)
    show ?case
    proof (cases "find_stock p (view e)")
      case (Some s)
      with 1 product_of_stock [of "view e" p] obtain q where "find_product p (view e) = Some q" by auto
      with 1 Some show ?thesis
        by (auto simp: ReserveAndCreateOrder_def insert_order_def Let_def reply_defs new_order_def
            find_key split: if_splits intro!: balanced_reserve_pair)
    qed (use 1 in \<open>simp add: ReserveAndCreateOrder_def reply_defs\<close>)
  qed
  show "balanced_stmt (MarkOrderAwaitingPayment i t expires)"
    by (auto simp: balanced_stmt_def MarkOrderAwaitingPayment_def Let_def reply_defs balanced_def
        is_live_def is_sold_def inserts_stock_def split: option.splits if_splits)
qed

section \<open>Expiry\<close>

lemma expire_batch_subset: "set (expire_batch lim e) \<subseteq> set (orders (view e))"
  unfolding expire_batch_def by (auto dest: in_set_takeD)

lemma expire_batch_distinct: "wf_view e \<Longrightarrow> distinct (map o_ID (expire_batch lim e))"
  unfolding expire_batch_def wf_view_def
  by (auto simp: distinct_map inj_on_def take_map [symmetric] dest: in_set_takeD)

lemma expire_batch_live: "r \<in> set (expire_batch lim e) \<Longrightarrow> live_status (o_Status r)"
  unfolding expire_batch_def expirable_def by (auto dest: in_set_takeD)

lemma chain_order_updates:
  assumes "\<And>r. o_ID (f r) = o_ID r" "distinct (map o_ID xs)"
    and "\<forall>r \<in> set xs. find_order (o_ID r) d = Some r"
  shows "chain d (map (\<lambda>r. WOrder (Some r) (f r)) xs)"
  using assms(2,3)
proof (induction xs arbitrary: d)
  case (Cons x xs)
  then show ?case using assms(1) by (auto simp: row_simps image_iff intro!: Cons.IH)
qed simp

lemma sound_ExpireOrders [good_intros]: "sound_stmt (ExpireOrders lim)"
  unfolding sound_stmt_def
proof (intro allI impI)
  fix e r ws sq
  assume wf: "wf_view e" and "ExpireOrders lim e = Reply r ws sq"
  then have ws: "ws = [] \<or> ws = map (\<lambda>r. WOrder (Some r) (expire_order r)) (expire_batch lim e)"
    by (auto simp: ExpireOrders_def reply_defs split: if_splits)
  have "find_order (o_ID x) (view e) = Some x" if "x \<in> set (expire_batch lim e)" for x
    using that expire_batch_subset wf
    by (auto simp: wf_view_def find_order_def intro: find_by_distinct)
  then have "chain (view e) (map (\<lambda>r. WOrder (Some r) (expire_order r)) (expire_batch lim e))"
    using wf by (intro chain_order_updates) (auto simp: expire_order_def expire_batch_distinct)
  moreover have "row_ok (WOrder (Some x) (expire_order x))" if "x \<in> set (expire_batch lim e)" for x
    using expire_batch_live [OF that]
    by (auto simp: expire_order_def same_order_def live_status_def order_typed_def)
  ultimately show "sound_writes (view e) ws"
    using ws by (auto simp: sound_writes_def)
qed


section \<open>Effects\<close>

text \<open>The versions a successful statement yields, for the statements that transactions combine.\<close>

lemma stock_effects:
  "ReserveStock p e = Reply (Inr x) ws sq \<Longrightarrow>
     \<exists>s. ws = [WStock (Some s) x] \<and> s_ProductID s = p \<and> x = s\<lparr>s_NumReserved := s_NumReserved s + 1\<rparr>"
  "ReleaseStock p e = Reply (Inr x) ws sq \<Longrightarrow>
     \<exists>s. ws = [WStock (Some s) x] \<and> s_ProductID s = p \<and> x = s\<lparr>s_NumReserved := s_NumReserved s - 1\<rparr>"
  "CommitStock p e = Reply (Inr x) ws sq \<Longrightarrow>
     \<exists>s. ws = [WStock (Some s) x] \<and> s_ProductID s = p \<and>
       x = s\<lparr>s_Quantity := s_Quantity s - 1, s_NumReserved := s_NumReserved s - 1\<rparr>"
  by (auto simp: stock_stmts reply_defs find_key split: option.splits if_splits)

lemma order_effects:
  "CancelPendingOrder i e = Reply (Inr x) ws sq \<Longrightarrow>
     \<exists>r. ws = [WOrder (Some r) x] \<and> o_Status r = StatusPending \<and> x = r\<lparr>o_Status := StatusCancelled\<rparr>"
  "CompleteOrder i e = Reply (Inr x) ws sq \<Longrightarrow>
     \<exists>r. ws = [WOrder (Some r) x] \<and> o_Status r = StatusAwaitingPayment \<and> x = r\<lparr>o_Status := StatusCompleted\<rparr>"
  "FailOrder i e = Reply (Inr x) ws sq \<Longrightarrow>
     \<exists>r. ws = [WOrder (Some r) x] \<and> o_Status r = StatusAwaitingPayment \<and> x = r\<lparr>o_Status := StatusFailed\<rparr>"
  "CreateOrder cid p amount expires e = Reply (Inr x) ws sq \<Longrightarrow>
     ws = [WOrder None x] \<and> o_Status x = StatusPending \<and> o_ProductID x = p"
  by (auto simp: order_stmts reply_defs CreateOrder_def insert_order_def Let_def new_order_def
      split: option.splits if_splits)

lemma product_effects:
  "CreateProduct nm price start e = Reply (Inr x) ws sq \<Longrightarrow> ws = [WProduct x]"
  "CreateStock p q e = Reply (Inr y) ws sq \<Longrightarrow>
     ws = [WStock None y] \<and> s_ProductID y = p \<and> s_NumReserved y = 0"
  by (auto simp: CreateProduct_def CreateStock_def Let_def split: if_splits)

text \<open>Each pair of a status change and its stock change is balanced, in either order.\<close>

lemma balanced_release_pair:
  assumes "s_ProductID s = o_ProductID r" "live_status (o_Status r)"
    and "st = StatusCancelled \<or> st = StatusFailed \<or> st = StatusExpired"
  shows "balanced [WOrder (Some r) (r\<lparr>o_Status := st\<rparr>),
    WStock (Some s) (s\<lparr>s_NumReserved := s_NumReserved s - 1\<rparr>)]"
  using assms by (auto simp: balanced_def is_live_def is_sold_def inserts_stock_def)

lemma balanced_commit_pair:
  assumes "s_ProductID s = o_ProductID r" "o_Status r = StatusAwaitingPayment"
  shows "balanced [WOrder (Some r) (r\<lparr>o_Status := StatusCompleted\<rparr>),
    WStock (Some s) (s\<lparr>s_Quantity := s_Quantity s - 1, s_NumReserved := s_NumReserved s - 1\<rparr>)]"
  using assms by (auto simp: balanced_def is_live_def is_sold_def inserts_stock_def)

lemma balanced_new_stock:
  "s_NumReserved s = 0 \<Longrightarrow> balanced [WProduct p, WStock None s]"
  by (auto simp: balanced_def inserts_stock_def)

end
