(* ===== verification/Ghost.thy ===== *)
theory Ghost
  imports Statements
begin

text \<open>
  Proving what the sessions of any interleaving know and have done. A protocol gives every
  thread a ghost: agrees says what the ghost claims of the committed database, allowed what
  the thread may install next, advance what its ghost is afterwards; of the versions of an open
  transaction only a sheet is kept (blank, jot). tracks follows one program through the
  protocol; the lifting is done once, in the locale protocol_laws: if installing what is
  allowed preserves a relation J between all ghosts and the database, J holds of every
  state the system reaches.

  Which messages the environment may lose, and with which errors, is restricted here (F): a
  lost connection does not answer in the words of the database.
\<close>

section \<open>Protocols\<close>

record ('g, 's) protocol =
  blank :: 's
  jot :: "'s \<Rightarrow> version list \<Rightarrow> 's"
  agrees :: "'g \<Rightarrow> db \<Rightarrow> bool"
  allowed :: "'g \<Rightarrow> db \<Rightarrow> 's \<Rightarrow> bool"
  advance :: "'g \<Rightarrow> db \<Rightarrow> 's \<Rightarrow> 'g"

definition sheet_of :: "('g, 's) protocol \<Rightarrow> txn \<Rightarrow> txstate \<times> 's" where
  "sheet_of R t = (tx_state t, jot R (blank R) (tx_writes t))"

text \<open>The ways the environment may lose a message: F holds of the choices it has.\<close>

definition may_fail :: "(choice \<Rightarrow> bool) \<Rightarrow> error \<Rightarrow> bool" where
  "may_fail F x = (F (LostRequest x) \<or> F (LostReply x))"

primrec tracks :: "('g, 's) protocol \<Rightarrow> (choice \<Rightarrow> bool) \<Rightarrow> 'a prog \<Rightarrow> (txstate \<times> 's) list \<Rightarrow> 'g \<Rightarrow>
    (error + 'a \<Rightarrow> (txstate \<times> 's) list \<Rightarrow> 'g \<Rightarrow> bool) \<Rightarrow> bool" where
  "tracks R F (Return r) st g Q = Q r st g"
| "tracks R F (Stmt f h) st g Q =
     (case st of
        [] \<Rightarrow> (\<forall>x. F (LostRequest x) \<longrightarrow> tracks R F (h x) [] g Q) \<and>
          (\<forall>e. agrees R g (view e) \<longrightarrow>
            (case map_prod id (tracks R F) (f e) of ((ws, sq, ab), tp) \<Rightarrow>
               let s = jot R (blank R) (if ab then [] else ws); g' = advance R g (view e) s in
               allowed R g (view e) s \<and> tp [] g' Q \<and> (\<forall>x. F (LostReply x) \<longrightarrow> tracks R F (h x) [] g' Q)))
      | t # ts \<Rightarrow>
          (case fst t of
             TxDone \<Rightarrow> tracks R F (h ErrTxClosed) (t # ts) g Q
           | TxFailed \<Rightarrow> tracks R F (h ErrTxAborted) (t # ts) g Q
           | TxLive \<Rightarrow> (\<forall>x. may_fail F x \<longrightarrow> tracks R F (h x) ((TxFailed, snd t) # ts) g Q) \<and>
               (\<forall>e. case map_prod id (tracks R F) (f e) of ((ws, sq, ab), tp) \<Rightarrow>
                  if ab then tp ((TxFailed, snd t) # ts) g Q
                  else tp ((TxLive, jot R (snd t) ws) # ts) g Q)))"
| "tracks R F (Begin b) st g Q =
     (tracks R F (b None) ((TxLive, blank R) # st) g Q \<and> (\<forall>x. may_fail F x \<longrightarrow> tracks R F (b (Some x)) st g Q))"
| "tracks R F (Commit b) st g Q =
     (case st of
        [] \<Rightarrow> tracks R F (b (Some ErrTxClosed)) [] g Q
      | t # ts \<Rightarrow>
          (case fst t of
             TxDone \<Rightarrow> tracks R F (b (Some ErrTxClosed)) (t # ts) g Q
           | TxFailed \<Rightarrow> tracks R F (b (Some ErrCommitRollback)) ((TxDone, blank R) # ts) g Q
           | TxLive \<Rightarrow> (\<forall>d. agrees R g d \<longrightarrow> allowed R g d (snd t) \<and>
                 tracks R F (b None) ((TxDone, blank R) # ts) (advance R g d (snd t)) Q \<and>
                 (\<forall>x. F (LostReply x) \<longrightarrow>
                    tracks R F (b (Some x)) ((TxDone, blank R) # ts) (advance R g d (snd t)) Q)) \<and>
               (\<forall>x. F (LostRequest x) \<longrightarrow> tracks R F (b (Some x)) ((TxFailed, snd t) # ts) g Q)))"
| "tracks R F (Rollback p) st g Q = tracks R F p (tl st) g Q"
| "tracks R F (Mem f) st g Q = (\<forall>c. case map_prod id (tracks R F) (f c) of (c', tp) \<Rightarrow> tp st g Q)"

lemma map_prod_tracks [simp]: "map_prod id (tracks R F) x = (fst x, tracks R F (snd x))"
  by (simp add: map_prod_def split_beta)

lemma tracks_answers [simp]: "tracks R F (ret x) st g Q = Q (Inr x) st g" "tracks R F (throw e) st g Q = Q (Inl e) st g"
  by (simp_all add: ret_def throw_def)

lemma tracks_mono:
  "tracks R F p st g Q \<Longrightarrow> (\<And>r st' g'. Q r st' g' \<Longrightarrow> Q' r st' g') \<Longrightarrow> tracks R F p st g Q'"
proof (induction p arbitrary: st g rule: prog_induct)
  case (Stmt f h)
  then show ?case
    by (cases st) (auto split: txstate.splits prod.splits if_splits simp: split_beta Let_def)
next
  case (Commit b)
  then show ?case by (cases st) (auto split: txstate.splits)
qed auto

lemma tracks_handle:
  "tracks R F p st g (\<lambda>r st' g'. tracks R F (k r) st' g' Q) \<Longrightarrow> tracks R F (handle p k) st g Q"
proof (induction p arbitrary: st g rule: prog_induct)
  case (Stmt f h)
  then show ?case
    by (cases st) (auto split: txstate.splits prod.splits if_splits simp: split_beta Let_def)
next
  case (Commit b)
  then show ?case by (cases st) (auto split: txstate.splits)
qed (auto simp: split_beta)

lemma tracks_handleI:
  assumes "tracks R F p st g Q0" "\<And>r st' g'. Q0 r st' g' \<Longrightarrow> tracks R F (k r) st' g' Q"
  shows "tracks R F (handle p k) st g Q"
  by (rule tracks_handle, rule tracks_mono [OF assms(1)], rule assms(2))

lemma tracks_callI:
  assumes "tracks R F m st g Q0" "\<And>x st' g'. Q0 (Inr x) st' g' \<Longrightarrow> tracks R F (k x) st' g' Q"
    and "\<And>e st' g'. Q0 (Inl e) st' g' \<Longrightarrow> Q (Inl e) st' g'"
  shows "tracks R F (call m k) st g Q"
  unfolding call_def
  by (rule tracks_handleI [OF assms(1)]) (auto simp: throw_def split: sum.split intro: assms(2,3))

lemma tracks_discard:
  assumes "tracks R F p st g (\<lambda>r st' g'. \<forall>r. Q r st' g')"
  shows "tracks R F (discard p) st g Q"
  unfolding discard_def by (rule tracks_handleI [OF assms]) simp

lemma tracks_in_tx:
  assumes "tracks R F body ((TxLive, blank R) # st) g (\<lambda>r st' g'. (\<exists>t. st' = t # st) \<and> Q r st g')"
    and "\<And>x. may_fail F x \<Longrightarrow> Q (Inl x) st g"
  shows "tracks R F (in_tx body) st g Q"
  using assms by (auto simp: in_tx_def throw_def intro!: tracks_handleI [OF assms(1)])

text \<open>Statements and the commit.\<close>

lemma tracks_exec_pool:
  assumes "\<And>e r ws sq g'. agrees R g (view e) \<Longrightarrow> s e = Reply r ws sq \<Longrightarrow>
      g' = advance R g (view e) (jot R (blank R) (if server_error r then [] else ws)) \<Longrightarrow>
      allowed R g (view e) (jot R (blank R) (if server_error r then [] else ws)) \<and>
      Q r [] g' \<and> (\<forall>x. F (LostReply x) \<longrightarrow> Q (Inl x) [] g')"
    and "\<And>x. F (LostRequest x) \<Longrightarrow> Q (Inl x) [] g"
  shows "tracks R F (exec s) [] g Q"
  using assms(2) by (auto simp: exec_def throw_def Let_def split: reply.split dest: assms(1))

lemma tracks_exec_tx:
  assumes "\<And>e r ws sq. s e = Reply r ws sq \<Longrightarrow> \<not> server_error r \<Longrightarrow> Q r ((TxLive, jot R b ws) # ts) g"
    and "\<And>x s'. Q (Inl x) ((s', b) # ts) g"
  shows "tracks R F (exec s) ((s0, b) # ts) g Q"
  using assms by (cases s0) (auto simp: exec_def throw_def server_error_def split: reply.split sum.split)

lemma tracks_commit:
  assumes "\<And>d g'. agrees R g d \<Longrightarrow> g' = advance R g d b \<Longrightarrow> allowed R g d b \<and>
      Q (Inr ()) ((TxDone, blank R) # ts) g' \<and> (\<forall>x. F (LostReply x) \<longrightarrow> Q (Inl x) ((TxDone, blank R) # ts) g')"
    and "\<And>x s' b'. Q (Inl x) ((s', b') # ts) g"
  shows "tracks R F commit ((s0, b) # ts) g Q"
  using assms(2) by (cases s0) (auto simp: commit_def ret_def throw_def dest: assms(1))

section \<open>Any interleaving\<close>

definition fault_ok :: "(choice \<Rightarrow> bool) \<Rightarrow> choice \<Rightarrow> bool" where
  "fault_ok F c = (c = Healthy \<or> F c)"

lemma fault_ok_simps [simp]:
  "fault_ok F Healthy" "fault_ok F (LostRequest x) = F (LostRequest x)" "fault_ok F (LostReply x) = F (LostReply x)"
  by (simp_all add: fault_ok_def)

text \<open>reachable, with the lost messages restricted.\<close>

inductive reaches :: "(choice \<Rightarrow> bool) \<Rightarrow> ('a prog \<Rightarrow> bool) \<Rightarrow> 'a sys \<Rightarrow> 'a sys \<Rightarrow> bool" for F P s0 where
  start: "reaches F P s0 s0"
| move: "reaches F P s0 s \<Longrightarrow> fault_ok F c \<Longrightarrow> i < length (threads s) \<Longrightarrow>
     step_prog c i (th_prog (threads s ! i)) (th_txs (threads s ! i)) (shared s) = Some (p', st', g') \<Longrightarrow>
     reaches F P s0 (s\<lparr>threads := (threads s)[i := \<lparr>th_prog = p', th_txs = st'\<rparr>], shared := g'\<rparr>)"
| spawn: "reaches F P s0 s \<Longrightarrow> P p \<Longrightarrow> reaches F P s0 (s\<lparr>threads := threads s @ [\<lparr>th_prog = p, th_txs = []\<rparr>]\<rparr>)"
| tick: "reaches F P s0 s \<Longrightarrow> 0 \<le> k \<Longrightarrow> reaches F P s0 (s\<lparr>shared := (shared s)\<lparr>clock := clock (shared s) + k\<rparr>\<rparr>)"

lemma reaches_reachable: "reaches F P s0 s \<Longrightarrow> reachable P s00 s0 \<Longrightarrow> reachable P s00 s"
proof (induction rule: reaches.induct)
  case (move s c i p' st' g')
  then show ?case by (auto intro: reachable.step sys_step.move)
next
  case (spawn s p)
  then show ?case by (auto intro: reachable.step sys_step.spawn)
next
  case (tick s k)
  then show ?case by (auto intro: reachable.step sys_step.tick)
qed

lemma play_reaches:
  "play ms s = Some s' \<Longrightarrow> list_all (\<lambda>m. fault_ok F (snd m)) ms \<Longrightarrow> reaches F P s0 s \<Longrightarrow> reaches F P s0 s'"
proof (induction ms arbitrary: s)
  case (Cons m ms)
  then show ?case
    by (auto split: prod.splits if_splits option.splits intro!: Cons.IH intro: reaches.move)
qed simp

lemma reachable_weaken: "reachable P s0 s \<Longrightarrow> (\<And>p. P p \<Longrightarrow> P' p) \<Longrightarrow> reachable P' s0 s"
proof (induction rule: reachable.induct)
  case (step s s')
  from step.hyps(2) step.prems have "sys_step P' s s'"
    by cases (auto intro: sys_step.intros)
  with step show ?case by (blast intro: reachable.step)
qed (rule reachable.start)

section \<open>The laws of a protocol\<close>

lemma allowed_burns: "sound_writes d ws \<Longrightarrow> sound_writes (burns sq d) ws"
  by simp

text \<open>What one step does to the ghost of its thread and to the committed database.\<close>

definition ghost_step :: "('g, 's) protocol \<Rightarrow> 'g \<Rightarrow> db \<Rightarrow> 'g \<Rightarrow> db \<Rightarrow> bool" where
  "ghost_step R g d g' d' =
     ((g' = g \<and> (\<exists>sq. d' = burns sq d)) \<or>
      (\<exists>ws sq. sound_writes d ws \<and> allowed R g d (jot R (blank R) ws) \<and>
         g' = advance R g d (jot R (blank R) ws) \<and> d' = burns sq (applys ws d)))"

lemma ghost_step_same [simp]: "ghost_step R g d g d"
  unfolding ghost_step_def by (intro disjI1 conjI exI [of _ "[]"]) (simp_all add: burns_def)

lemma ghost_step_burns [simp]: "ghost_step R g d g (burns sq d)"
  unfolding ghost_step_def by blast

lemma ghost_stepI:
  "sound_writes d ws \<Longrightarrow> allowed R g d (jot R (blank R) ws) \<Longrightarrow>
     ghost_step R g d (advance R g d (jot R (blank R) ws)) (burns sq (applys ws d))"
  unfolding ghost_step_def by blast

lemma committed_frame [simp]:
  "committed (acquire me ws g) = committed g" "committed (release me g) = committed g"
  "committed (install ws sq g) = burns sq (applys ws (committed g))"
  by (simp_all add: acquire_def release_def install_def)

text \<open>What is asked of the sheets: they add up.\<close>

definition sheets_add :: "('g, 's) protocol \<Rightarrow> bool" where
  "sheets_add R = ((\<forall>b. jot R b [] = b) \<and> (\<forall>b ws vs. jot R (jot R b ws) vs = jot R b (ws @ vs)))"

lemma tracks_stmt_pool:
  assumes "step_prog c i (Stmt f h) [] s = Some (p', st', s')" "fault_ok F c" "tracks R F (Stmt f h) [] g Q"
    and "safe (Stmt f h) [] Q0" "db_inv (committed s)" "agrees R g (committed s)"
  shows "\<exists>g'. tracks R F p' (map (sheet_of R) st') g' Q \<and> ghost_step R g (committed s) g' (committed s')"
proof -
  obtain ws sq ab q where f: "f (auto_env i s) = ((ws, sq, ab), q)"
    by (metis prod.exhaust)
  let ?ws = "if ab then [] else ws" and ?d = "committed s"
  let ?g = "advance R g ?d (jot R (blank R) ?ws)"
  have v: "view (auto_env i s) = ?d" by (simp add: auto_env_def)
  have t: "allowed R g ?d (jot R (blank R) ?ws)" "tracks R F q [] ?g Q" "\<And>x. F (LostReply x) \<Longrightarrow> tracks R F (h x) [] ?g Q"
      "\<And>x. F (LostRequest x) \<Longrightarrow> tracks R F (h x) [] g Q"
    using assms(3,6) f v by (auto simp: Let_def dest!: spec [of _ "auto_env i s"])
  have "sound_writes ?d ?ws"
    using safe_autoD(1) [OF assms(4) sees_auto [OF assms(5)] f] v by auto
  from ghost_stepI [OF this t(1), of sq] have "ghost_step R g ?d ?g (committed (install ?ws sq s))" by simp
  with assms(1,2) f t(2,3,4) show ?thesis
    by (cases c; intro exI [of _ "if \<exists>x. c = LostRequest x then g else ?g"])
      (auto simp: may_fail_def split: if_splits)
qed

lemma tracks_stmt_tx:
  assumes "step_prog c i (Stmt f h) (t # ts) s = Some (p', st', s')" "fault_ok F c" "sheets_add R"
    and "tracks R F (Stmt f h) (map (sheet_of R) (t # ts)) g Q"
  shows "tracks R F p' (map (sheet_of R) st') g Q \<and> ghost_step R g (committed s) g (committed s')"
proof (cases "tx_state t")
  case TxLive
  obtain ws sq ab q where f: "f (tx_env i t (Suc (length ts)) s) = ((ws, sq, ab), q)"
    by (metis prod.exhaust)
  from assms(3,4) TxLive f have "\<And>x. may_fail F x \<Longrightarrow> tracks R F (h x) (map (sheet_of R) (tx_fail t # ts)) g Q"
    "if ab then tracks R F q (map (sheet_of R) (tx_fail t # ts)) g Q
     else tracks R F q (map (sheet_of R) (t\<lparr>tx_writes := tx_writes t @ ws\<rparr> # ts)) g Q"
    by (auto simp: sheet_of_def tx_fail_def sheets_add_def dest!: spec [of _ "tx_env i t (Suc (length ts)) s"])
  with assms(1,2) TxLive f show ?thesis
    by (cases c) (auto simp: may_fail_def Let_def split: if_splits)
qed (use assms in \<open>auto simp: sheet_of_def\<close>)

lemma tracks_step:
  assumes "step_prog c i p st s = Some (p', st', s')" "fault_ok F c" "sheets_add R"
    and "tracks R F p (map (sheet_of R) st) g Q" "agrees R g (committed s)"
    and "safe p st Q0" "db_inv (committed s)" "txs_ok i st s"
  shows "\<exists>g'. tracks R F p' (map (sheet_of R) st') g' Q \<and> ghost_step R g (committed s) g' (committed s')"
proof (cases p)
  case (Stmt f h)
  show ?thesis
  proof (cases st)
    case Nil
    with Stmt assms show ?thesis by (intro tracks_stmt_pool [where c = c and i = i]) simp_all
  next
    case (Cons t ts)
    with Stmt assms show ?thesis
      using tracks_stmt_tx [of c i f h t ts s p' st' s' F R g Q] by auto
  qed
next
  case (Begin b)
  with assms show ?thesis
    by (intro exI [of _ g], cases c) (auto simp: may_fail_def sheet_of_def sheets_add_def)
next
  case (Commit b)
  have blank: "jot R (blank R) [] = blank R" using assms(3) by (simp add: sheets_add_def)
  show ?thesis
  proof (cases st)
    case Nil
    with Commit assms show ?thesis by (intro exI [of _ g]) auto
  next
    case (Cons t ts)
    let ?ws = "tx_writes t" and ?d = "committed s"
    show ?thesis
    proof (cases "tx_state t")
      case TxLive
      let ?g = "advance R g ?d (jot R (blank R) ?ws)"
      have t: "allowed R g ?d (jot R (blank R) ?ws)"
          "tracks R F (b None) ((TxDone, blank R) # map (sheet_of R) ts) ?g Q"
          "\<And>x. F (LostReply x) \<Longrightarrow> tracks R F (b (Some x)) ((TxDone, blank R) # map (sheet_of R) ts) ?g Q"
          "\<And>x. F (LostRequest x) \<Longrightarrow> tracks R F (b (Some x)) (map (sheet_of R) (tx_fail t # ts)) g Q"
        using assms(4,5) Commit Cons TxLive by (auto simp: sheet_of_def tx_fail_def)
      have "sound_writes ?d ?ws" using assms(8) Cons by simp
      from ghost_stepI [OF this t(1), of "[]"] have "ghost_step R g ?d ?g (applys ?ws ?d)" by simp
      with assms(1,2) Commit Cons TxLive t(2,3,4) blank show ?thesis
        by (cases c; intro exI [of _ "if \<exists>x. c = LostRequest x then g else ?g"])
          (auto simp: may_fail_def sheet_of_def tx_done_def)
    qed (use Commit Cons assms blank in \<open>auto intro!: exI [of _ g] simp: sheet_of_def tx_done_def\<close>)
  qed
next
  case (Rollback q)
  with assms show ?thesis by (intro exI [of _ g], cases st) auto
next
  case (Mem m)
  with assms show ?thesis by (intro exI [of _ g]) (auto split: prod.splits dest!: spec [of _ "cache s"])
qed (use assms(1) in simp)

text \<open>The first k threads are held to Q, the others to Q0; every thread has a ghost.\<close>

definition tracked :: "('g, 's) protocol \<Rightarrow> (choice \<Rightarrow> bool) \<Rightarrow> nat \<Rightarrow>
    (error + 'a \<Rightarrow> (txstate \<times> 's) list \<Rightarrow> 'g \<Rightarrow> bool) \<Rightarrow> (error + 'a \<Rightarrow> (txstate \<times> 's) list \<Rightarrow> 'g \<Rightarrow> bool) \<Rightarrow>
    'a sys \<Rightarrow> 'g list \<Rightarrow> bool" where
  "tracked R F k Q Q0 s gs =
     (length gs = length (threads s) \<and> k \<le> length (threads s) \<and>
      (\<forall>i < length (threads s).
         tracks R F (th_prog (threads s ! i)) (map (sheet_of R) (th_txs (threads s ! i))) (gs ! i) (if i < k then Q else Q0)))"

locale protocol_laws =
  fixes R :: "('g, 's) protocol"
    and J :: "'g list \<Rightarrow> db \<Rightarrow> bool"
    and fresh :: 'g
  assumes sheets: "sheets_add R"
    and J_agrees: "J gs d \<Longrightarrow> i < length gs \<Longrightarrow> agrees R (gs ! i) d"
    and J_move: "J gs d \<Longrightarrow> db_inv d \<Longrightarrow> i < length gs \<Longrightarrow> sound_writes d ws \<Longrightarrow>
      allowed R (gs ! i) d (jot R (blank R) ws) \<Longrightarrow>
      J (gs[i := advance R (gs ! i) d (jot R (blank R) ws)]) (applys ws d)"
    and J_burns: "J gs (burns sq d) = J gs d"
    and J_spawn: "J gs d \<Longrightarrow> J (gs @ [fresh]) d"
begin

lemma J_step: "J gs d \<Longrightarrow> db_inv d \<Longrightarrow> i < length gs \<Longrightarrow> ghost_step R (gs ! i) d g' d' \<Longrightarrow> J (gs[i := g']) d'"
  by (auto simp: ghost_step_def J_burns J_move)

lemma J_start: "J [] d \<Longrightarrow> J (replicate n fresh) d"
proof (induction n)
  case (Suc n)
  then show ?case using J_spawn [of "replicate n fresh" d] by (simp add: replicate_append_same)
qed simp

lemma tracked_move:
  assumes "tracked R F k Q Q0 s gs" "J gs (committed (shared s))" "sys_inv s" "fault_ok F c" "i < length (threads s)"
    and "step_prog c i (th_prog (threads s ! i)) (th_txs (threads s ! i)) (shared s) = Some (p', st', g')"
  shows "\<exists>gs'. tracked R F k Q Q0 (s\<lparr>threads := (threads s)[i := \<lparr>th_prog = p', th_txs = st'\<rparr>], shared := g'\<rparr>) gs' \<and>
    J gs' (committed g')"
proof -
  have ok: "thread_ok i (threads s ! i) (shared s)" "db_inv (committed (shared s))"
    using assms(3,5) by (simp_all add: sys_inv_def)
  have len: "i < length gs" using assms(1,5) by (simp add: tracked_def)
  have "tracks R F (th_prog (threads s ! i)) (map (sheet_of R) (th_txs (threads s ! i))) (gs ! i) (if i < k then Q else Q0)"
    "safe (th_prog (threads s ! i)) (th_txs (threads s ! i)) finished" "txs_ok i (th_txs (threads s ! i)) (shared s)"
    using ok(1) assms(1,5) by (simp_all add: tracked_def thread_ok_def)
  from tracks_step [OF assms(6,4) sheets this(1) J_agrees [OF assms(2) len] this(2) ok(2) this(3)]
  obtain h where h: "tracks R F p' (map (sheet_of R) st') h (if i < k then Q else Q0)"
    "ghost_step R (gs ! i) (committed (shared s)) h (committed g')"
    by blast
  have "tracked R F k Q Q0 (s\<lparr>threads := (threads s)[i := \<lparr>th_prog = p', th_txs = st'\<rparr>], shared := g'\<rparr>) (gs[i := h])"
    using assms(1,5) h(1) by (auto simp: tracked_def nth_list_update dest: less_le_trans)
  with J_step [OF assms(2) ok(2) len h(2)] show ?thesis by blast
qed

lemma tracked_spawn:
  "tracked R F k Q Q0 s gs \<Longrightarrow> tracks R F p [] fresh Q0 \<Longrightarrow>
     tracked R F k Q Q0 (s\<lparr>threads := threads s @ [\<lparr>th_prog = p, th_txs = []\<rparr>]\<rparr>) (gs @ [fresh])"
  by (auto simp: tracked_def nth_append less_Suc_eq)

lemma tracked_start:
  "\<forall>p \<in> set ps. tracks R F p [] fresh Q \<Longrightarrow>
     tracked R F (length ps) Q Q0 (start_with d n ps) (replicate (length ps) fresh)"
  by (auto simp: tracked_def start_with_def)

lemma reaches_tracked:
  assumes "reaches F P (start_with d n ps) s" "db_inv d" "J [] d"
    and "\<And>p. p \<in> set ps \<Longrightarrow> safe p [] finished \<and> tracks R F p [] fresh Q"
    and "\<And>p. P p \<Longrightarrow> safe p [] finished \<and> tracks R F p [] fresh Q0"
  shows "sys_inv s \<and> (\<exists>gs. tracked R F (length ps) Q Q0 s gs \<and> J gs (committed (shared s)))"
  using assms(1)
proof (induction rule: reaches.induct)
  case start
  have "reachable (\<lambda>p. safe p [] finished) (initial d n) (start_with d n ps)"
    by (rule start_with_reachable) (use assms(4) in \<open>simp add: list_all_iff\<close>)
  from reachable_sound [OF this assms(2)] have "sys_inv (start_with d n ps)" by simp
  moreover have "J (replicate (length ps) fresh) (committed (shared (start_with d n ps)))"
    using J_start [OF assms(3)] by (simp add: start_with_def)
  ultimately show ?case using tracked_start [of ps F Q] assms(4) by blast
next
  case (move s c i p' st' g')
  then have "sys_step P s (s\<lparr>threads := (threads s)[i := \<lparr>th_prog = p', th_txs = st'\<rparr>], shared := g'\<rparr>)"
    by (auto intro: sys_step.move)
  moreover obtain gs where "tracked R F (length ps) Q Q0 s gs" "J gs (committed (shared s))" "sys_inv s"
    using move.IH by blast
  moreover note tracked_move [OF this move.hyps(2-4)]
  ultimately show ?case using sys_inv_step assms(5) by fastforce
next
  case (spawn s p)
  then have "sys_step P s (s\<lparr>threads := threads s @ [\<lparr>th_prog = p, th_txs = []\<rparr>]\<rparr>)"
    by (auto intro: sys_step.spawn)
  moreover obtain gs where "tracked R F (length ps) Q Q0 s gs" "J gs (committed (shared s))" "sys_inv s"
    using spawn.IH by blast
  moreover have "safe p [] finished" "tracks R F p [] fresh Q0" using assms(5) spawn.hyps(2) by blast+
  moreover note tracked_spawn J_spawn
  ultimately show ?case using sys_inv_step assms(5) by fastforce
next
  case (tick s k)
  then have "sys_step P s (s\<lparr>shared := (shared s)\<lparr>clock := clock (shared s) + k\<rparr>\<rparr>)"
    by (auto intro: sys_step.tick)
  from sys_inv_step [OF this] assms(5) tick show ?case by (auto simp: tracked_def)
qed

text \<open>The same for a program that runs alone.\<close>

lemma run_tracks:
  assumes "run cs i p st s = Some (cs', r, st', s')" "list_all (fault_ok F) cs"
    and "tracks R F p (map (sheet_of R) st) g Q" "J [g] (committed s)"
    and "safe p st Q0" "exclusive s" "db_inv (committed s)" "txs_ok i st s"
  shows "\<exists>g'. Q r (map (sheet_of R) st') g' \<and> J [g'] (committed s')"
  using assms
proof (induction cs i p st s arbitrary: g rule: run.induct)
  case (1 cs i p st s)
  show ?case
  proof (cases "step_prog (next_choice cs) i p st s")
    case None
    with 1(2,4,5) show ?thesis by (auto simp: run.simps [of cs] split: prog.splits)
  next
    case (Some a)
    then obtain p1 st1 s1 where step: "step_prog (next_choice cs) i p st s = Some (p1, st1, s1)"
      by (cases a) auto
    have f: "fault_ok F (next_choice cs)"
      using 1(3) by (cases cs) (simp_all)
    have fs: "list_all (fault_ok F) (tl cs)"
      using 1(3) by (cases cs) simp_all
    have "agrees R g (committed s)" using J_agrees [OF 1(5), of 0] by simp
    from tracks_step [OF step f sheets 1(4) this 1(6,8,9)] obtain g1 where
      g1: "tracks R F p1 (map (sheet_of R) st1) g1 Q" "ghost_step R g (committed s) g1 (committed s1)"
      by blast
    have J1: "J [g1] (committed s1)" using J_step [OF 1(5,8), of 0 g1 "committed s1"] g1(2) by simp
    have "safe p1 st1 Q0" "step_ok i s st1 s1"
      using sound_step [OF step 1(6,7,8,9)] by blast+
    then have ok: "safe p1 st1 Q0" "exclusive s1" "txs_ok i st1 s1" "db_inv (committed s1)"
      using committed_step_inv 1(8) by (auto simp: step_ok_def)
    have "run (tl cs) i p1 st1 s1 = Some (cs', r, st', s')"
      using 1(2) step by (simp add: run.simps [of cs])
    from 1(1) [OF step refl refl this fs g1(1) J1 ok(1,2,4,3)] show ?thesis .
  qed
qed

end

end
