(* ===== verification/Ledger.thy ===== *)
theory Ledger
  imports Ghost "HOL-Library.Multiset"
begin

text \<open>
  Which session made which order, as a protocol: the ghost of a thread is the list of the ids
  of the orders it has committed (made), the sheet of an open transaction those it would
  commit. Lifted, this says that in any interleaving the ids in the orders table are those that
  were there at the start and, once each, those the sessions have made.
\<close>

section \<open>Orders born of a list of versions\<close>

fun born :: "version \<Rightarrow> int list" where
  "born (WOrder None r) = [o_ID r]"
| "born _ = []"

definition births :: "version list \<Rightarrow> int list" where
  "births ws = concat (map born ws)"

lemma births_simps [simp]:
  "births [] = []" "births (w # ws) = born w @ births ws" "births (ws @ vs) = births ws @ births vs"
  by (simp_all add: births_def)

lemma neutral_births: "neutral ws \<Longrightarrow> births ws = []"
proof (induction ws)
  case (Cons w ws)
  then show ?case by (cases w) simp_all
qed simp

abbreviation order_ids :: "db \<Rightarrow> int list" where
  "order_ids d \<equiv> map o_ID (orders d)"

text \<open>Installing current versions appends the ids of the orders they insert.\<close>

lemma order_ids_apply: "old_ok w d \<Longrightarrow> row_ok w \<Longrightarrow> order_ids (apply_write w d) = order_ids d @ born w"
proof (cases w)
  case (WOrder old r)
  assume "old_ok w d" "row_ok w"
  show ?thesis
  proof (cases old)
    case None
    with WOrder \<open>old_ok w d\<close> show ?thesis
      by (auto simp: put_order_def keys_put_by find_order_def find_by_None_iff)
  next
    case (Some q)
    with WOrder \<open>old_ok w d\<close> have "q \<in> set (orders d)" "o_ID q = o_ID r"
      by (auto simp: find_order_def dest: find_by_SomeD)
    then have "o_ID r \<in> o_ID ` set (orders d)" by (metis imageI)
    with WOrder Some show ?thesis by (simp add: put_order_def keys_put_by)
  qed
qed (simp_all add: table_defs)

lemma order_ids_applys: "sound_writes d ws \<Longrightarrow> order_ids (applys ws d) = order_ids d @ births ws"
proof (induction ws arbitrary: d)
  case (Cons w ws)
  then show ?case by (simp add: sound_writes_def order_ids_apply)
qed simp

section \<open>The books of a program\<close>

definition order_book :: "(int list, int list) protocol" where
  "order_book =
     \<lparr>blank = [], jot = (\<lambda>b ws. b @ births ws), agrees = (\<lambda>made d. True),
      allowed = (\<lambda>made d b. True), advance = (\<lambda>made d b. made @ b)\<rparr>"

lemma order_book_simps [simp]:
  "blank order_book = []" "jot order_book b ws = b @ births ws" "agrees order_book made d"
  "allowed order_book made d b" "advance order_book made d b = made @ b"
  by (simp_all add: order_book_def)

type_synonym sheet = "txstate \<times> int list"

abbreviation books :: "(choice \<Rightarrow> bool) \<Rightarrow> 'a prog \<Rightarrow> sheet list \<Rightarrow> int list \<Rightarrow>
    (error + 'a \<Rightarrow> sheet list \<Rightarrow> int list \<Rightarrow> bool) \<Rightarrow> bool" where
  "books F \<equiv> tracks order_book F"

text \<open>Nothing once made is unmade: what bounds made at the end bounds it before.\<close>

lemma books_grow:
  "books F p st made Q \<Longrightarrow> \<exists>r st' m. Q r st' (made @ m)"
proof (induction p arbitrary: st made rule: prog_induct)
  case (Return r)
  then show ?case by (metis append_Nil2 tracks.simps(1))
next
  case (Stmt f h)
  obtain e :: env where True by simp
  obtain ws sq ab q where f: "f e = ((ws, sq, ab), q)" by (metis prod.exhaust)
  have q: "books F q st' m Q \<Longrightarrow> \<exists>r s n. Q r s (m @ n)" for st' m
    using Stmt.IH(1) [of e] f by simp
  show ?case
  proof (cases st)
    case Nil
    with Stmt.prems f have "books F q [] (made @ (if ab then [] else births ws)) Q"
      by (auto simp: Let_def dest!: spec [of _ e])
    from q [OF this] show ?thesis by (metis append.assoc)
  next
    case (Cons t ts)
    show ?thesis
    proof (cases "fst t")
      case TxLive
      with Stmt.prems Cons f have "\<exists>st'. books F q st' made Q"
        by (auto dest!: spec [of _ e] split: if_splits)
      with q show ?thesis by blast
    qed (use Stmt.prems Stmt.IH(2) Cons in auto)
  qed
next
  case (Commit b)
  show ?case
  proof (cases st)
    case (Cons t ts)
    show ?thesis
    proof (cases "fst t")
      case TxLive
      with Commit.prems Cons have "books F (b None) ((TxDone, []) # ts) (made @ snd t) Q" by simp
      from Commit.IH [OF this] show ?thesis by (metis append.assoc)
    qed (use Commit Cons in auto)
  qed (use Commit in auto)
next
  case (Mem m)
  then have "books F (snd (m undefined)) st made Q" by (simp add: split_beta)
  with Mem.IH show ?case by blast
qed auto

section \<open>Programs by what they write\<close>

text \<open>
  writes W tx p: every statement of p writes a list of versions of which W holds; with tx
  false, p opens and closes no transaction.
\<close>

primrec "writes" :: "(version list \<Rightarrow> bool) \<Rightarrow> bool \<Rightarrow> 'a prog \<Rightarrow> bool" where
  "writes W tx (Return r) = True"
| "writes W tx (Stmt f h) =
     ((\<forall>x. writes W tx (h x)) \<and>
      (\<forall>e. case map_prod id (writes W tx) (f e) of ((ws, sq, ab), cp) \<Rightarrow> W ws \<and> cp))"
| "writes W tx (Begin b) = (tx \<and> (\<forall>x. writes W tx (b x)))"
| "writes W tx (Commit b) = (tx \<and> (\<forall>x. writes W tx (b x)))"
| "writes W tx (Rollback p) = (tx \<and> writes W tx p)"
| "writes W tx (Mem f) = (\<forall>c. case map_prod id (writes W tx) (f c) of (c', cp) \<Rightarrow> cp)"

lemma map_prod_writes [simp]: "map_prod id (writes W tx) x = (fst x, writes W tx (snd x))"
  by (simp add: map_prod_def split_beta)

lemma writes_weaken:
  "writes W tx p \<Longrightarrow> (\<And>ws. W ws \<Longrightarrow> W' ws) \<Longrightarrow> (tx \<Longrightarrow> tx') \<Longrightarrow> writes W' tx' p"
  by (induction p rule: prog_induct) (auto simp: split_beta)

named_theorems calm_intros \<open>programs that make no orders\<close>

definition stmt_writes :: "(version list \<Rightarrow> bool) \<Rightarrow> 'r stmt \<Rightarrow> bool" where
  "stmt_writes W s = (\<forall>e r ws sq. s e = Reply r ws sq \<longrightarrow> W ws)"

lemma writes_basic [calm_intros]:
  "writes W tx (Return r)" "writes W tx (ret x)" "writes W tx (throw e)" "writes W True commit"
  by (simp_all add: ret_def throw_def commit_def split: option.split)

lemma writes_handle [calm_intros]: "writes W tx p \<Longrightarrow> (\<And>r. writes W tx (k r)) \<Longrightarrow> writes W tx (handle p k)"
  by (induction p rule: prog_induct) (auto simp: split_beta)

lemma writes_call [calm_intros]: "writes W tx m \<Longrightarrow> (\<And>x. writes W tx (k x)) \<Longrightarrow> writes W tx (call m k)"
  unfolding call_def by (intro writes_handle) (auto split: sum.split intro: writes_basic)

lemma writes_exec [calm_intros]: "stmt_writes W s \<Longrightarrow> writes W tx (exec s)"
  unfolding exec_def stmt_writes_def by (auto simp: throw_def split: reply.split)

lemma writes_Mem [calm_intros]: "(\<And>c. writes W tx (snd (f c))) \<Longrightarrow> writes W tx (Mem f)"
  by (simp add: split_beta)

lemma writes_in_tx [calm_intros]: "writes W True p \<Longrightarrow> writes W True (in_tx p)"
  unfolding in_tx_def by (auto split: option.split intro: calm_intros)

lemma writes_discard [calm_intros]: "writes W tx p \<Longrightarrow> writes W tx (discard p)"
  unfolding discard_def by (intro calm_intros)

lemma writes_ticker_loop [calm_intros]: "(\<And>x. writes W tx (turn x)) \<Longrightarrow> writes W tx (ticker_loop turn ss)"
  by (induction ss) (auto intro!: calm_intros split: tick.split)

text \<open>Calm programs make no orders and touch no idempotency key; spare ones touch no key.\<close>

fun key_version :: "version \<Rightarrow> bool" where
  "key_version (WIdem old r) = True"
| "key_version (WIdemDel r) = True"
| "key_version _ = False"

definition spares :: "version list \<Rightarrow> bool" where
  "spares ws = (\<not> list_ex key_version ws)"

definition makes_nothing :: "version list \<Rightarrow> bool" where
  "makes_nothing ws = (births ws = [] \<and> spares ws)"

lemma makes_nothing_simps [simp]:
  "makes_nothing []" "makes_nothing (w # ws) = (born w = [] \<and> \<not> key_version w \<and> makes_nothing ws)"
  "spares []" "spares (w # ws) = (\<not> key_version w \<and> spares ws)"
  by (auto simp: makes_nothing_def spares_def)

lemma makes_nothing_spares: "makes_nothing ws \<Longrightarrow> spares ws"
  by (simp add: makes_nothing_def)

abbreviation calm :: "bool \<Rightarrow> 'a prog \<Rightarrow> bool" where
  "calm \<equiv> writes makes_nothing"

abbreviation calm_stmt :: "'r stmt \<Rightarrow> bool" where
  "calm_stmt \<equiv> stmt_writes makes_nothing"

lemma calm_spares: "calm tx p \<Longrightarrow> writes spares True p"
  by (rule writes_weaken [where W = makes_nothing and tx = tx]) (auto simp: makes_nothing_spares)

lemma calm_updates [calm_intros]:
  "calm_stmt (update_stock p guard f)" "calm_stmt (update_order i guard' f')" "calm_stmt (CreateStock p q)"
  "calm_stmt (MarkOrderAwaitingPayment i t expires)" "calm_stmt (ExpireOrders lim)"
  by (auto simp: stmt_writes_def update_stock_def update_order_def CreateStock_def MarkOrderAwaitingPayment_def
      ExpireOrders_def reply_defs Let_def makes_nothing_def births_def spares_def list_ex_iff split: option.splits if_splits)

lemma calm_statements [calm_intros]:
  "calm_stmt (ReserveStock p)" "calm_stmt (CommitStock p)" "calm_stmt (ReleaseStock p)"
  "calm_stmt (CompleteOrder i)" "calm_stmt (CancelPendingOrder i)" "calm_stmt (FailOrder i)"
  unfolding ReserveStock_def CommitStock_def ReleaseStock_def CompleteOrder_def CancelPendingOrder_def FailOrder_def
  by (rule calm_intros)+

lemma calm_reads [calm_intros]:
  "calm_stmt (FindProductByID i)" "calm_stmt (ListProducts lim off)" "calm_stmt (FindCustomerBySub so)"
  "calm_stmt (FindOrderByID i)" "calm_stmt (FindOrderByIDPlain i)"
  "calm_stmt (FindOrderByPaymentIntentID t)" "calm_stmt (ListOrdersByCustomer cid lim off)"
  "calm_stmt LatestStripeEventCreatedAt" "calm_stmt (FindIdempotencyKey s k)"
  "calm_stmt (ClaimNextStripeEvent m)"
  by (auto simp: stmt_writes_def stmt_defs ListProducts_def ListOrdersByCustomer_def page_def
      split: option.splits if_splits list.splits)

lemma calm_writes [calm_intros]:
  "calm_stmt (CreateProduct nm price start)" "calm_stmt (UpdateCustomerEmail i m)"
  "calm_stmt (LinkCustomer m so)" "calm_stmt (InsertStripeEvent v ty pl cr)"
  "calm_stmt (MarkStripeEventProcessed v err)" "calm_stmt (MarkStripeEventFailed v err)"
  by (auto simp: stmt_writes_def stmt_defs Let_def split: option.splits if_splits)

text \<open>On the pool such a program makes nothing; inside a transaction it changes nothing of the sheet.\<close>

lemma books_calm:
  "calm True p \<Longrightarrow> list_all (\<lambda>t. snd t = []) st \<Longrightarrow>
     books F p st made (\<lambda>r st' m. m = made \<and> list_all (\<lambda>t. snd t = []) st')"
proof (induction p arbitrary: st rule: prog_induct)
  case (Stmt f h)
  then show ?case
    by (cases st) (auto split: txstate.splits prod.splits simp: split_beta Let_def makes_nothing_def)
next
  case (Commit b)
  then show ?case by (cases st) (auto split: txstate.splits)
next
  case (Rollback p)
  then show ?case by (cases st) auto
qed (auto simp: split_beta)

lemma books_calm_tx:
  "calm False p \<Longrightarrow>
     books F p ((s, b) # ts) made (\<lambda>r st' m. m = made \<and> (\<exists>s'. st' = (s', b) # ts))"
proof (induction p arbitrary: s rule: prog_induct)
  case (Stmt f h)
  then show ?case by (cases s) (auto simp: split_beta makes_nothing_def)
qed (auto simp: split_beta)

lemma books_calm_pool:
  "calm False p \<Longrightarrow> books F p [] made (\<lambda>r st' m. m = made \<and> st' = [])"
  by (induction p rule: prog_induct) (auto simp: split_beta Let_def makes_nothing_def)

section \<open>Transactions\<close>

lemma books_exec_tx:
  assumes "\<And>e r ws sq. s e = Reply r ws sq \<Longrightarrow> \<not> server_error r \<Longrightarrow> Q r ((TxLive, b @ births ws) # ts) made"
    and "\<And>x s'. Q (Inl x) ((s', b) # ts) made"
  shows "books F (exec s) ((s0, b) # ts) made Q"
  by (rule tracks_exec_tx) (use assms in simp_all)

lemma books_exec_pool:
  assumes "\<And>e r ws sq. s e = Reply r ws sq \<Longrightarrow> Q r [] (made @ (if server_error r then [] else births ws))"
    and "\<And>e r ws sq x. s e = Reply r ws sq \<Longrightarrow> F (LostReply x) \<Longrightarrow> Q (Inl x) [] (made @ (if server_error r then [] else births ws))"
    and "\<And>x. F (LostRequest x) \<Longrightarrow> Q (Inl x) [] made"
  shows "books F (exec s) [] made Q"
proof (rule tracks_exec_pool)
  fix e r ws sq g'
  assume "s e = Reply r ws sq"
    "g' = advance order_book made (view e) (jot order_book (blank order_book) (if server_error r then [] else ws))"
  moreover note assms(1) [OF this(1)] assms(2) [OF this(1)]
  ultimately show "allowed order_book made (view e) (jot order_book (blank order_book) (if server_error r then [] else ws)) \<and>
      Q r [] g' \<and> (\<forall>x. F (LostReply x) \<longrightarrow> Q (Inl x) [] g')"
    by (cases "server_error r") auto
qed (rule assms(3))

lemma books_in_tx:
  assumes "books F body ((TxLive, []) # st) made (\<lambda>r st' m. (\<exists>t. st' = t # st) \<and> Q r st m)"
    and "\<And>x. may_fail F x \<Longrightarrow> Q (Inl x) st made"
  shows "books F (in_tx body) st made Q"
  by (rule tracks_in_tx) (use assms in simp_all)

text \<open>A commit that fails makes nothing, unless its reply is lost.\<close>

lemma books_commit:
  assumes "Q (Inr ()) ((TxDone, []) # ts) (made @ b)"
    and "\<And>x. F (LostReply x) \<Longrightarrow> Q (Inl x) ((TxDone, []) # ts) (made @ b)"
    and "\<And>x s' b'. Q (Inl x) ((s', b') # ts) made"
  shows "books F commit ((s0, b) # ts) made Q"
  by (rule tracks_commit) (use assms in simp_all)

section \<open>The ledger\<close>

lemma order_ids_burns [simp]: "order_ids (burns sq d) = order_ids d"
  by (simp add: row_simps)

definition ledger :: "int list \<Rightarrow> int list list \<Rightarrow> db \<Rightarrow> bool" where
  "ledger ids gs d = (mset (order_ids d) = mset ids + mset (concat gs))"

lemma mset_concat_grow:
  "i < length xs \<Longrightarrow> mset (concat (xs[i := xs ! i @ b])) = mset (concat xs) + mset b"
  by (induction xs arbitrary: i) (auto split: nat.split)

interpretation ledger: protocol_laws order_book "ledger ids" "[]" for ids
  by unfold_locales
    (auto simp: sheets_add_def ledger_def order_ids_applys mset_concat_grow)

end
