(* ===== verification/Json.thy ===== *)
theory Json
  imports Rows
begin

text \<open>
  internal/json/json.go: the response envelope, the stable error codes, and Decode, the
  strict reader of request bodies.

  Of encoding/json the package uses a Decoder with DisallowUnknownFields behind a
  MaxBytesReader: the decoder reads the first JSON value of the (bounded) body and stores it
  into a struct. The text-to-value parser is an argument (parse; theory
  JsonText has the library's); the struct half is modelled: member names match case-insensitively, null leaves a field at its value, a
  number outside the field's width or not an integer is an error, an unknown member is an
  error.
\<close>

section \<open>Responses\<close>

datatype 'a body = Data 'a | ErrorBody string string

record 'a response =
  r_Status :: int
  r_Headers :: "(string \<times> string) list"
  r_Body :: "'a body"

definition CodeInvalidRequest :: string where "CodeInvalidRequest = ''invalid_request''"
definition CodeUnauthorized :: string where "CodeUnauthorized = ''unauthorized''"
definition CodeForbidden :: string where "CodeForbidden = ''forbidden''"
definition CodeNotFound :: string where "CodeNotFound = ''not_found''"
definition CodeOutOfStock :: string where "CodeOutOfStock = ''out_of_stock''"
definition CodeOrderNotPending :: string where "CodeOrderNotPending = ''order_not_pending''"
definition CodeIdempotencyKeyReused :: string where
  "CodeIdempotencyKeyReused = ''idempotency_key_reused''"
definition CodeReserveInProgress :: string where "CodeReserveInProgress = ''reserve_in_progress''"
definition CodeInternal :: string where "CodeInternal = ''internal_error''"
definition CodeRateLimited :: string where "CodeRateLimited = ''rate_limited''"

lemmas code_defs = CodeInvalidRequest_def CodeUnauthorized_def CodeForbidden_def CodeNotFound_def
  CodeOutOfStock_def CodeOrderNotPending_def CodeIdempotencyKeyReused_def
  CodeReserveInProgress_def CodeInternal_def CodeRateLimited_def

definition write_body :: "int \<Rightarrow> 'a body \<Rightarrow> 'a response" where
  "write_body st b =
     \<lparr>r_Status = st, r_Headers = [(''Content-Type'', ''application/json'')], r_Body = b\<rparr>"

definition Write :: "int \<Rightarrow> 'a \<Rightarrow> 'a response" where
  "Write st data = write_body st (Data data)"

definition WriteError :: "int \<Rightarrow> string \<Rightarrow> string \<Rightarrow> 'a response" where
  "WriteError st code msg = write_body st (ErrorBody code msg)"

definition WriteInternalError :: "'a response" where
  "WriteInternalError = WriteError 500 CodeInternal ''internal server error''"

lemma response_simps [simp]:
  "r_Status (Write st x) = st" "r_Body (Write st x) = Data x"
  "r_Status (WriteError st c m) = st" "r_Body (WriteError st c m) = ErrorBody c m"
  by (simp_all add: Write_def WriteError_def write_body_def)

section \<open>Values and struct decoding\<close>

datatype json =
    JNull
  | JBool bool
  | JInt int
  | JFrac string
  | JStr string
  | JArr "json list"
  | JObj "(string \<times> json) list"

definition lower_char :: "char \<Rightarrow> char" where
  "lower_char c = (let n = (of_char c :: nat) in if 65 \<le> n \<and> n \<le> 90 then char_of (n + 32) else c)"

definition same_field :: "string \<Rightarrow> string \<Rightarrow> bool" where
  "same_field name k = (map lower_char k = map lower_char name)"

definition decode_int :: "nat \<Rightarrow> int \<Rightarrow> json \<Rightarrow> int option" where
  "decode_int w cur v =
     (case v of
        JNull \<Rightarrow> Some cur
      | JInt n \<Rightarrow> if - (2 ^ (w - 1)) \<le> n \<and> n < 2 ^ (w - 1) then Some n else None
      | _ \<Rightarrow> None)"

definition decode_string :: "string \<Rightarrow> json \<Rightarrow> string option" where
  "decode_string cur v = (case v of JNull \<Rightarrow> Some cur | JStr s \<Rightarrow> Some s | _ \<Rightarrow> None)"

fun decode_members :: "('s \<Rightarrow> string \<Rightarrow> json \<Rightarrow> 's option) \<Rightarrow> 's \<Rightarrow> (string \<times> json) list \<Rightarrow> 's option" where
  "decode_members field s [] = Some s"
| "decode_members field s ((k, v) # ms) = Option.bind (field s k v) (\<lambda>s'. decode_members field s' ms)"

definition decode_struct :: "('s \<Rightarrow> string \<Rightarrow> json \<Rightarrow> 's option) \<Rightarrow> 's \<Rightarrow> json \<Rightarrow> 's option" where
  "decode_struct field zero v =
     (case v of JNull \<Rightarrow> Some zero | JObj ms \<Rightarrow> decode_members field zero ms | _ \<Rightarrow> None)"

definition maxRequestBody :: nat where "maxRequestBody = 2 ^ 20"

definition Decode :: "(string \<Rightarrow> json option) \<Rightarrow> ('s \<Rightarrow> string \<Rightarrow> json \<Rightarrow> 's option) \<Rightarrow> 's \<Rightarrow> string \<Rightarrow> 's option" where
  "Decode parse field zero b = Option.bind (parse (take maxRequestBody b)) (decode_struct field zero)"

text \<open>A member no field takes makes the whole body invalid.\<close>

lemma decode_members_reject:
  "(k, v) \<in> set ms \<Longrightarrow> (\<And>s. field s k v = None) \<Longrightarrow> decode_members field s ms = None"
proof (induction ms arbitrary: s)
  case (Cons m ms)
  then show ?case by (cases m) (auto simp: Option.bind_eq_None_conv)
qed simp

lemma Decode_rejects:
  assumes "parse (take maxRequestBody b) = Some (JObj ms)" "(k, v) \<in> set ms" "\<And>s. field s k v = None"
  shows "Decode parse field zero b = None"
  using assms decode_members_reject [OF assms(2), of field] by (simp add: Decode_def decode_struct_def)

text \<open>An invariant of the fields is an invariant of the decoded struct.\<close>

lemma decode_members_inv:
  "decode_members field s ms = Some s' \<Longrightarrow> I s \<Longrightarrow>
     (\<And>s k v t. field s k v = Some t \<Longrightarrow> I s \<Longrightarrow> I t) \<Longrightarrow> I s'"
proof (induction ms arbitrary: s)
  case (Cons m ms)
  obtain k v where m: "m = (k, v)" by (cases m)
  with Cons.prems(1) obtain t where t: "field s k v = Some t" "decode_members field t ms = Some s'"
    by (auto simp: bind_eq_Some_conv)
  then show ?case using Cons.IH [OF t(2)] Cons.prems(2,3) by blast
qed simp

lemma decode_struct_inv:
  assumes "decode_struct field zero v = Some s" "I zero"
    and "\<And>s k v t. field s k v = Some t \<Longrightarrow> I s \<Longrightarrow> I t"
  shows "I s"
proof (cases v)
  case (JObj ms)
  with assms(1) have "decode_members field zero ms = Some s" by (simp add: decode_struct_def)
  then show ?thesis using assms(2,3) by (rule decode_members_inv)
qed (use assms in \<open>simp_all add: decode_struct_def\<close>)

lemma Decode_inv:
  assumes "Decode parse field zero b = Some s" "I zero"
    and "\<And>s k v t. field s k v = Some t \<Longrightarrow> I s \<Longrightarrow> I t"
  shows "I s"
proof -
  obtain v where "decode_struct field zero v = Some s"
    using assms(1) by (auto simp: Decode_def bind_eq_Some_conv)
  then show ?thesis using assms(2,3) by (rule decode_struct_inv)
qed

lemma decode_int_range:
  "decode_int w cur v = Some n \<Longrightarrow> - (2 ^ (w - 1)) \<le> cur \<and> cur < 2 ^ (w - 1) \<Longrightarrow>
     - (2 ^ (w - 1)) \<le> n \<and> n < 2 ^ (w - 1)"
  by (auto simp: decode_int_def split: json.splits if_splits)

end
