(* ===== verification/Auth.thy ===== *)
theory Auth
  imports Json
begin

text \<open>
  internal/auth: the caller's claims, the bearer-token middleware and the group guard.
  The OpenID Connect library's verification of a raw token is a parameter (idv): it gives an
  error, or the subject and the token's claim members, from which Verify reads email and
  cognito:groups.

  A handler is a function from the request to its result; the request context holds the
  claims once Middleware has put them there.
\<close>

record claims =
  Subject :: string
  Email :: string
  Groups :: "string list"

definition HasGroup :: "claims \<Rightarrow> string \<Rightarrow> bool" where
  "HasGroup c g = List.member (Groups c) g"

record request =
  q_Method :: string
  q_Path :: string
  q_Query :: "(string \<times> string) list"
  q_Headers :: "(string \<times> string) list"
  q_Body :: string
  q_RemoteAddr :: string
  q_Claims :: "claims option"

text \<open>Header.Get and Query().Get: the first value, the empty string when there is none.\<close>

definition get_first :: "string \<Rightarrow> (string \<times> string) list \<Rightarrow> string" where
  "get_first k xs = (case map_of xs k of None \<Rightarrow> [] | Some v \<Rightarrow> v)"

definition FromContext :: "request \<Rightarrow> claims option" where
  "FromContext r = q_Claims r"

definition NewContext :: "claims \<Rightarrow> request \<Rightarrow> request" where
  "NewContext c r = r\<lparr>q_Claims := Some c\<rparr>"

definition bearerToken :: "request \<Rightarrow> string option" where
  "bearerToken r =
     (let header = get_first ''Authorization'' (q_Headers r) in
      if has_prefix header ''Bearer '' then Some (drop (length ''Bearer '') header) else None)"

definition string_list :: "json \<Rightarrow> string list option" where
  "string_list v =
     (case v of
        JNull \<Rightarrow> Some []
      | JArr xs \<Rightarrow>
          if list_all (\<lambda>x. decode_string [] x \<noteq> None) xs
          then Some (map (\<lambda>x. case decode_string [] x of Some s \<Rightarrow> s | None \<Rightarrow> []) xs) else None
      | _ \<Rightarrow> None)"

definition claims_field :: "claims \<Rightarrow> string \<Rightarrow> json \<Rightarrow> claims option" where
  "claims_field c k v =
     (if same_field ''email'' k then map_option (\<lambda>s. c\<lparr>Email := s\<rparr>) (decode_string (Email c) v)
      else if same_field ''cognito:groups'' k then map_option (\<lambda>gs. c\<lparr>Groups := gs\<rparr>) (string_list v)
      else Some c)"

definition Verify :: "(string \<Rightarrow> error + (string \<times> json)) \<Rightarrow> string \<Rightarrow> error + claims" where
  "Verify idv raw =
     (case idv raw of
        Inl e \<Rightarrow> Inl e
      | Inr (sub, body) \<Rightarrow>
          (case decode_struct claims_field \<lparr>Subject = sub, Email = [], Groups = []\<rparr> body of
             None \<Rightarrow> Inl (ErrPayload ''claims'')
           | Some c \<Rightarrow> Inr c))"

text \<open>
  Middleware and RequireGroup wrap a handler; deny turns a finished response into the
  handler's result type.
\<close>

definition Middleware ::
  "('a response \<Rightarrow> 'r) \<Rightarrow> (string \<Rightarrow> error + (string \<times> json)) \<Rightarrow> (request \<Rightarrow> 'r) \<Rightarrow> request \<Rightarrow> 'r" where
  "Middleware deny idv next r =
     (case bearerToken r of
        None \<Rightarrow> deny (WriteError 401 CodeUnauthorized ''missing bearer token'')
      | Some raw \<Rightarrow>
          (case Verify idv raw of
             Inl e \<Rightarrow> deny (WriteError 401 CodeUnauthorized ''invalid bearer token'')
           | Inr c \<Rightarrow> next (NewContext c r)))"

definition RequireGroup :: "('a response \<Rightarrow> 'r) \<Rightarrow> string \<Rightarrow> (request \<Rightarrow> 'r) \<Rightarrow> request \<Rightarrow> 'r" where
  "RequireGroup deny g next r =
     (case FromContext r of
        None \<Rightarrow> deny (WriteError 401 CodeUnauthorized ''unauthorized'')
      | Some c \<Rightarrow>
          if \<not> HasGroup c g
          then deny (WriteError 403 CodeForbidden ''caller is not permitted to perform this action'')
          else next r)"

lemma FromContext_NewContext [simp]: "FromContext (NewContext c r) = Some c"
  by (simp add: FromContext_def NewContext_def)

text \<open>The subject of the claims is the verified one, whatever the token body says.\<close>

lemma Verify_subject:
  assumes "Verify idv raw = Inr c"
  shows "\<exists>body. idv raw = Inr (Subject c, body)"
proof (cases "idv raw")
  case (Inr sb)
  obtain sub body where sb: "sb = (sub, body)" by (cases sb)
  have keep: "claims_field s k v = Some t \<Longrightarrow> Subject s = sub \<Longrightarrow> Subject t = sub" for s k v t
    by (auto simp: claims_field_def split: if_splits)
  have "decode_struct claims_field \<lparr>Subject = sub, Email = [], Groups = []\<rparr> body = Some c"
    using assms Inr sb by (auto simp: Verify_def split: option.splits)
  then have "Subject c = sub"
    by (rule decode_struct_inv [where I = "\<lambda>c. Subject c = sub"]) (use keep in auto)
  with Inr sb show ?thesis by simp
qed (use assms in \<open>simp add: Verify_def\<close>)

text \<open>The next handler runs exactly when the token verifies, and then with its claims.\<close>

lemma Middleware_cases:
  obtains (denied) code msg where "Middleware deny idv next r = deny (WriteError 401 code msg)"
  | (passed) raw c where "bearerToken r = Some raw" "Verify idv raw = Inr c"
      "Middleware deny idv next r = next (NewContext c r)"
  unfolding Middleware_def by (cases "bearerToken r"; cases "Verify idv (the (bearerToken r))") auto

end
