(* ===== verification/Customers.thy ===== *)
theory Customers
  imports Statements Auth "HOL-Library.AList"
begin

text \<open>
  internal/customers: linking a verified caller to a customers row (link.go), the two
  resolvers of the reserve path (resolver.go), and the service behind GET /me (service.go).
  The resolver's process-wide map is the cache component of the shared state.
\<close>

section \<open>Link\<close>

fun isUniqueViolation :: "error \<Rightarrow> bool" where
  "isUniqueViolation (Wrapped m e) = isUniqueViolation e"
| "isUniqueViolation (Noted e m) = isUniqueViolation e"
| "isUniqueViolation e = (e = UniqueViolation)"

definition subject_param :: "claims \<Rightarrow> string option" where
  "subject_param cl = (if Subject cl \<noteq> [] then Some (Subject cl) else None)"

definition linkOnce :: "claims \<Rightarrow> customer prog" where
  "linkOnce cl =
     (let sub = subject_param cl;
          upsert = exec (LinkCustomer (Email cl) sub) in
      case sub of
        None \<Rightarrow> upsert
      | Some _ \<Rightarrow>
          handle (exec (FindCustomerBySub sub)) (\<lambda>r. case r of
             Inr existing \<Rightarrow>
               if c_Email existing = Email cl \<or> Email cl = [] then ret existing
               else exec (UpdateCustomerEmail (c_ID existing) (Email cl))
           | Inl e \<Rightarrow> if \<not> errors_Is e ErrNoRows then throw e else upsert))"

definition zero_customer :: customer where
  "zero_customer = \<lparr>c_ID = 0, c_Email = [], c_CreatedAt = 0, c_CognitoSub = None\<rparr>"

primrec link_tries :: "nat \<Rightarrow> error option \<Rightarrow> claims \<Rightarrow> customer prog" where
  "link_tries 0 lastErr cl = (case lastErr of None \<Rightarrow> ret zero_customer | Some e \<Rightarrow> throw e)"
| "link_tries (Suc n) lastErr cl =
     handle (linkOnce cl) (\<lambda>r. case r of
        Inr c \<Rightarrow> ret c
      | Inl e \<Rightarrow> if \<not> isUniqueViolation e then throw e else link_tries n (Some e) cl)"

definition linkAttempts :: nat where "linkAttempts = 3"

definition Link :: "claims \<Rightarrow> customer prog" where
  "Link cl = link_tries linkAttempts None cl"

definition GetOrCreate :: "claims \<Rightarrow> customer prog" where
  "GetOrCreate cl = Link cl"

section \<open>Resolvers\<close>

definition DirectResolve :: "claims \<Rightarrow> int prog" where
  "DirectResolve cl = call (Link cl) (\<lambda>c. ret (c_ID c))"

definition CachedResolve :: "claims \<Rightarrow> int prog" where
  "CachedResolve cl =
     (if Subject cl = [] then DirectResolve cl
      else Mem (\<lambda>ids. (ids,
        case map_of ids (Subject cl) of
          Some i \<Rightarrow> ret i
        | None \<Rightarrow> call (DirectResolve cl) (\<lambda>i. Mem (\<lambda>ids'. (AList.update (Subject cl) i ids', ret i))))))"

definition cache_Len :: "cache \<Rightarrow> nat" where
  "cache_Len ids = length ids"

text \<open>
  What a reserve strategy may rely on of its resolver: it only adds neutral versions, so it
  can run on the pool or in the reserve transaction.
\<close>

locale resolver =
  fixes Resolve :: "claims \<Rightarrow> int prog"
  assumes quiet_Resolve: "quiet (Resolve cl)"
begin

lemma pooled_Resolve: "pooled (Resolve cl)"
  by (rule quiet_pooled) (rule quiet_Resolve)

lemma triple_Resolve: "triple neutral (Resolve cl) (\<lambda>r. neutral)"
  by (rule quiet_triple) (rule quiet_Resolve)

end

lemma quiet_linkOnce [good_intros]: "quiet (linkOnce cl)"
  unfolding linkOnce_def Let_def
  by (auto split: option.split sum.split intro!: good_intros)

lemma quiet_link_tries: "quiet (link_tries n e cl)"
proof (induction n arbitrary: e)
  case (Suc n)
  then show ?case by (auto split: sum.split intro!: good_intros)
qed (auto split: option.split intro: good_intros)

lemma quiet_Link [good_intros]: "quiet (Link cl)"
  by (simp add: Link_def quiet_link_tries)

lemma quiet_DirectResolve: "quiet (DirectResolve cl)"
  unfolding DirectResolve_def by (intro good_intros)

lemma quiet_CachedResolve: "quiet (CachedResolve cl)"
  unfolding CachedResolve_def
  by (auto split: option.split intro!: good_intros quiet_DirectResolve)

interpretation direct: resolver DirectResolve
  by unfold_locales (rule quiet_DirectResolve)

interpretation cached: resolver CachedResolve
  by unfold_locales (rule quiet_CachedResolve)

section \<open>What Link does, alone\<close>

text \<open>
  The specification: the row the caller's subject owns, with a changed email adopted;
  otherwise the row of the email, or a new one, taking the subject where it has none.
\<close>

definition link_spec :: "claims \<Rightarrow> env \<Rightarrow> customer reply" where
  "link_spec cl e =
     (case Option.bind (subject_param cl) (\<lambda>s. by_sub s (view e)) of
        Some c \<Rightarrow>
          if c_Email c = Email cl \<or> Email cl = [] then Reply (Inr c) [] []
          else UpdateCustomerEmail (c_ID c) (Email cl) e
      | None \<Rightarrow> LinkCustomer (Email cl) (subject_param cl) e)"

lemma LinkCustomer_errors: "LinkCustomer m s e = Reply (Inl x) ws sq \<Longrightarrow> x = UniqueViolation"
  by (auto simp: LinkCustomer_def Let_def split: option.splits if_splits)

lemma run_linkOnce:
  assumes "locks g = []"
  shows "run [] i (linkOnce cl) [] g =
     (case link_spec cl (auto_env i g) of Reply r ws sq \<Rightarrow>
        Some ([], r, [], install (if server_error r then [] else ws) sq g))"
proof (cases "Option.bind (subject_param cl) (\<lambda>s. by_sub s (committed g))")
  case None
  then show ?thesis
    using assms
    by (cases "subject_param cl")
      (auto simp: linkOnce_def Let_def link_spec_def prog_simps FindCustomerBySub_def reply_defs split: reply.split)
next
  case (Some c)
  then obtain s where "subject_param cl = Some s" "by_sub s (committed g) = Some c"
    by (auto simp: bind_eq_Some_conv)
  then show ?thesis
    using assms
    by (auto simp: linkOnce_def Let_def link_spec_def prog_simps FindCustomerBySub_def reply_defs split: reply.split)
qed

text \<open>When the first attempt succeeds, Link is one attempt.\<close>

lemma run_Link_ok:
  assumes "locks g = []" "link_spec cl (auto_env i g) = Reply (Inr c) ws sq"
  shows "run [] i (Link cl) [] g = Some ([], Inr c, [], install ws sq g)"
  using assms by (simp add: Link_def linkAttempts_def eval_nat_numeral prog_simps run_linkOnce)

text \<open>The same inside a live transaction.\<close>

lemma link_spec_cong:
  "view e = view e' \<Longrightarrow> env_now e = env_now e' \<Longrightarrow> link_spec cl e = link_spec cl e'"
proof -
  assume *: "view e = view e'" "env_now e = env_now e'"
  then have "UpdateCustomerEmail k m e = UpdateCustomerEmail k m e'" for k m
    by (simp add: UpdateCustomerEmail_def cong: option.case_cong)
  moreover from * have "LinkCustomer m s e = LinkCustomer m s e'" for m s
    by (simp add: LinkCustomer_def cong: option.case_cong)
  ultimately show ?thesis using * by (simp add: link_spec_def split: option.split)
qed

lemma run_linkOnce_tx_ok:
  assumes "tx_state t = TxLive" "locks g = []"
    and "link_spec cl (tx_env i t (Suc (length ts)) g) = Reply (Inr c) ws sq"
  shows "run [] i (linkOnce cl) (t # ts) g =
    Some ([], Inr c, t\<lparr>tx_writes := tx_writes t @ ws\<rparr> # ts, acquire (i, Suc (length ts)) ws (install [] sq g))"
proof -
  have self: "t\<lparr>tx_writes := tx_writes t\<rparr> = t" by simp
  show ?thesis
  proof (cases "Option.bind (subject_param cl) (\<lambda>s. by_sub s (view (tx_env i t (Suc (length ts)) g)))")
    case None
    then show ?thesis
      using assms
      by (cases "subject_param cl")
        (auto simp: linkOnce_def Let_def link_spec_def prog_simps FindCustomerBySub_def reply_defs self)
  next
    case (Some c)
    then obtain s where "subject_param cl = Some s"
      "by_sub s (view (tx_env i t (Suc (length ts)) g)) = Some c"
      by (auto simp: bind_eq_Some_conv)
    then show ?thesis
      using assms
      by (auto simp: linkOnce_def Let_def link_spec_def prog_simps FindCustomerBySub_def reply_defs self
          split: if_splits)
  qed
qed

lemma run_DirectResolve_tx_ok:
  assumes "tx_state t = TxLive" "locks g = []"
    and "link_spec cl (tx_env i t (Suc (length ts)) g) = Reply (Inr c) ws sq"
  shows "run [] i (DirectResolve cl) (t # ts) g =
    Some ([], Inr (c_ID c), t\<lparr>tx_writes := tx_writes t @ ws\<rparr> # ts,
      acquire (i, Suc (length ts)) ws (install [] sq g))"
  using run_linkOnce_tx_ok [OF assms]
  by (simp add: DirectResolve_def Link_def linkAttempts_def eval_nat_numeral prog_simps)

lemma run_DirectResolve_ok:
  assumes "locks g = []" "link_spec cl (auto_env i g) = Reply (Inr c) ws sq"
  shows "run [] i (DirectResolve cl) [] g = Some ([], Inr (c_ID c), [], install ws sq g)"
  using run_Link_ok [OF assms] by (simp add: DirectResolve_def prog_simps)


section \<open>The identity of a caller\<close>

text \<open>The unique indexes of the customers table.\<close>

definition customers_wf :: "db \<Rightarrow> bool" where
  "customers_wf d =
     (distinct (map c_ID (customers d)) \<and>
      (\<forall>c \<in> set (customers d). \<forall>c' \<in> set (customers d).
         (c_CognitoSub c = c_CognitoSub c' \<and> c_CognitoSub c \<noteq> None \<or> c_Email c = c_Email c') \<longrightarrow> c = c'))"

lemma by_sub_iff:
  "customers_wf d \<Longrightarrow> by_sub s d = Some c \<longleftrightarrow> c \<in> set (customers d) \<and> c_CognitoSub c = Some s"
proof
  assume wf: "customers_wf d" and "c \<in> set (customers d) \<and> c_CognitoSub c = Some s"
  then have c: "c \<in> set (customers d)" "c_CognitoSub c = Some s" by simp_all
  then obtain c' where c': "by_sub s d = Some c'"
    unfolding by_sub_def by (metis (mono_tags, lifting) find_None_iff not_None_eq)
  then have "c' \<in> set (customers d)" "c_CognitoSub c' = Some s"
    by (auto simp: by_sub_def dest: find_SomeD)
  with c wf have "c' = c" unfolding customers_wf_def by (metis option.distinct(1))
  with c' show "by_sub s d = Some c" by simp
qed (auto simp: by_sub_def dest: find_SomeD)

lemma by_sub_put:
  assumes "customers_wf d" "c_CognitoSub c = Some s" "\<not> sub_taken (Some s) (c_ID c) d"
  shows "by_sub s (put_customer c d) = Some c"
proof -
  have dist: "distinct (map c_ID (customers d))" using assms(1) by (simp add: customers_wf_def)
  have set': "set (customers (put_customer c d)) = insert c {y \<in> set (customers d). c_ID y \<noteq> c_ID c}"
    using dist by (simp add: put_customer_def set_put_by_distinct)
  have only: "y = c" if "y \<in> set (customers (put_customer c d))" "c_CognitoSub y = Some s" for y
    using that assms(3) unfolding set' by (auto simp: sub_taken_def)
  have "c \<in> set (customers (put_customer c d))" by (simp add: set')
  with assms(2) obtain y where y: "by_sub s (put_customer c d) = Some y"
    unfolding by_sub_def by (metis (mono_tags, lifting) find_None_iff not_None_eq)
  then have "y \<in> set (customers (put_customer c d))" "c_CognitoSub y = Some s"
    by (auto simp: by_sub_def dest: find_SomeD)
  with only y show ?thesis by simp
qed

text \<open>
  Once Link has answered with a row that carries the caller's subject, that row is the
  one the subject resolves to, with the caller's email.
\<close>

lemma link_spec_owner:
  assumes wf: "customers_wf d" and "view e = d"
    and l: "link_spec cl e = Reply (Inr c) ws sq" and "c_CognitoSub c = Some (Subject cl)"
    and "Subject cl \<noteq> []"
  shows "by_sub (Subject cl) (applys ws d) = Some c \<and> (c_Email c = Email cl \<or> Email cl = [])"
proof -
  have sp: "subject_param cl = Some (Subject cl)" using assms(5) by (simp add: subject_param_def)
  show ?thesis
  proof (cases "by_sub (Subject cl) d")
    case (Some c0)
    with wf have c0: "c0 \<in> set (customers d)" "c_CognitoSub c0 = Some (Subject cl)"
      by (auto simp: by_sub_iff)
    then have "find_customer (c_ID c0) d = Some c0"
      using wf by (auto simp: find_customer_def customers_wf_def intro: find_by_distinct)
    moreover have "\<not> sub_taken (Some (Subject cl)) (c_ID c0) d"
      using wf c0 by (fastforce simp: sub_taken_def customers_wf_def)
    ultimately show ?thesis
      using Some l sp assms(2) c0 by_sub_put [OF wf, of "c0\<lparr>c_Email := Email cl\<rparr>" "Subject cl"]
      by (auto simp: link_spec_def UpdateCustomerEmail_def reply_defs split: if_splits)
  next
    case None
    with l sp assms(2) have up: "LinkCustomer (Email cl) (Some (Subject cl)) e = Reply (Inr c) ws sq"
      by (simp add: link_spec_def)
    then have "\<not> sub_taken (Some (Subject cl)) (c_ID c) d" "applys ws d = put_customer c d" "c_Email c = Email cl"
      using assms(2,4)
      by (auto simp: LinkCustomer_def Let_def by_email_def coalesce_def sub_taken_def
          split: option.splits if_splits dest: find_SomeD)
    with by_sub_put [OF wf assms(4)] show ?thesis by simp
  qed
qed

text \<open>So the next Link answers with the same row and writes nothing.\<close>

lemma link_again:
  assumes "customers_wf d" "view e = d" "link_spec cl e = Reply (Inr c) ws sq"
    and "c_CognitoSub c = Some (Subject cl)" "Subject cl \<noteq> []" "view e' = applys ws d"
  shows "link_spec cl e' = Reply (Inr c) [] []"
  using link_spec_owner [OF assms(1-5)] assms(5,6)
  by (auto simp: link_spec_def subject_param_def)

section \<open>The cached resolver\<close>

definition cache_ok :: "gstate \<Rightarrow> bool" where
  "cache_ok g = (\<forall>s i. map_of (cache g) s = Some i \<longrightarrow>
     (\<exists>c. by_sub s (committed g) = Some c \<and> c_ID c = i))"

lemma run_CachedResolve_ok:
  assumes "locks g = []" "cache_ok g" "link_spec cl (auto_env i g) = Reply (Inr c) ws sq"
  shows "\<exists>g'. run [] i (CachedResolve cl) [] g = Some ([], Inr (c_ID c), [], g')"
proof (cases "Subject cl = []")
  case True
  then show ?thesis
    using run_DirectResolve_ok [OF assms(1,3)] by (simp add: CachedResolve_def)
next
  case False
  show ?thesis
  proof (cases "map_of (cache g) (Subject cl)")
    case None
    with False show ?thesis
      using run_DirectResolve_ok [OF assms(1,3)] by (simp add: CachedResolve_def prog_simps)
  next
    case (Some j)
    with assms(2) obtain c0 where "by_sub (Subject cl) (committed g) = Some c0" "c_ID c0 = j"
      unfolding cache_ok_def by blast
    with assms(3) False have "c_ID c = j"
      by (auto simp: link_spec_def subject_param_def UpdateCustomerEmail_def reply_defs find_key
          split: if_splits option.splits)
    with Some False show ?thesis
      by (simp add: CachedResolve_def prog_simps)
  qed
qed

section \<open>Link inside a transaction\<close>

text \<open>
  On the pool a unique violation is retried. Inside a transaction the violation has
  aborted the transaction, and the retry only meets that.
\<close>

lemma run_linkOnce_aborted:
  assumes "tx_state t = TxFailed"
  shows "run [] i (linkOnce cl) (t # ts) g = Some ([], Inl ErrTxAborted, t # ts, g)"
  using assms by (cases "subject_param cl") (simp_all add: linkOnce_def Let_def prog_simps)

lemma run_linkOnce_tx:
  assumes "tx_state t = TxLive" "locks g = []"
    and "link_spec cl (tx_env i t (Suc (length ts)) g) = Reply (Inl UniqueViolation) ws sq"
  shows "run [] i (linkOnce cl) (t # ts) g = Some ([], Inl UniqueViolation, tx_fail t # ts, install [] sq g)"
proof -
  have self: "t\<lparr>tx_writes := tx_writes t\<rparr> = t" by simp
  show ?thesis
  proof (cases "Option.bind (subject_param cl) (\<lambda>s. by_sub s (view (tx_env i t (Suc (length ts)) g)))")
    case None
    then show ?thesis
      using assms
      by (cases "subject_param cl")
        (auto simp: linkOnce_def Let_def link_spec_def prog_simps FindCustomerBySub_def reply_defs self)
  next
    case (Some c)
    then obtain s where "subject_param cl = Some s"
      "by_sub s (view (tx_env i t (Suc (length ts)) g)) = Some c"
      by (auto simp: bind_eq_Some_conv)
    then show ?thesis
      using assms
      by (auto simp: linkOnce_def Let_def link_spec_def prog_simps FindCustomerBySub_def reply_defs self
          split: if_splits)
  qed
qed

lemma run_Link_tx_violation:
  assumes "tx_state t = TxLive" "locks g = []"
    and "link_spec cl (tx_env i t (Suc (length ts)) g) = Reply (Inl UniqueViolation) ws sq"
  shows "run [] i (Link cl) (t # ts) g = Some ([], Inl ErrTxAborted, tx_fail t # ts, install [] sq g)"
  using run_linkOnce_tx [OF assms]
  by (simp add: Link_def linkAttempts_def eval_nat_numeral prog_simps run_linkOnce_aborted)

end
