(* ===== verification/Reserve.thy ===== *)
theory Reserve
  imports Customers
begin

text \<open>
  internal/orders/strategy.go, strategy_txn.go and strategy_cte.go: the arms of the reserve
  path. Each arm turns one free unit of a product into a pending order; they differ in
  statement order and in whether there is an explicit transaction.

  Shown here: every arm only commits balanced versions (pooled), so no interleaving of them
  oversells; run alone, every arm gives the same result and the same effect on stock and
  orders (run_arm_Reserve), the two failures out-of-stock and no-such-product kept apart.
\<close>

section \<open>The arms\<close>

record reserve_params =
  rp_ProductID :: int
  rp_Claims :: claims
  rp_ExpiresAt :: int
  rp_IdempotencyKey :: string

definition StrategyBaseline :: string where "StrategyBaseline = ''baseline''"
definition StrategyReserveLast :: string where "StrategyReserveLast = ''reserve-last''"
definition StrategyCTE :: string where "StrategyCTE = ''cte''"

definition StrategyNames :: "string list" where
  "StrategyNames = [StrategyBaseline, StrategyReserveLast, StrategyCTE]"

text \<open>TxnStrategy carries the field reserveLast of txnStrategy.\<close>

datatype arm = TxnStrategy bool | CteStrategy

primrec arm_Name :: "arm \<Rightarrow> string" where
  "arm_Name (TxnStrategy reserveLast) = (if reserveLast then StrategyReserveLast else StrategyBaseline)"
| "arm_Name CteStrategy = StrategyCTE"

definition StrategyByName :: "string \<Rightarrow> error + arm" where
  "StrategyByName name =
     (if name = '''' then Inr (TxnStrategy False)
      else if name = StrategyBaseline then Inr (TxnStrategy False)
      else if name = StrategyReserveLast then Inr (TxnStrategy True)
      else if name = StrategyCTE then Inr CteStrategy
      else Inl (ErrConfig (''unknown reserve strategy '' @ quoted name @ '', want one of '' @ bracketed StrategyNames)))"

definition reserve_unit :: "int \<Rightarrow> unit prog" where
  "reserve_unit p =
     handle (exec (ReserveStock p)) (\<lambda>r. case r of
        Inl e \<Rightarrow> if errors_Is e ErrNoRows then throw ErrOutOfStock else throw e
      | Inr _ \<Rightarrow> ret ())"

definition txn_body :: "(claims \<Rightarrow> int prog) \<Rightarrow> bool \<Rightarrow> reserve_params \<Rightarrow> order prog" where
  "txn_body Resolve reserveLast p =
     call (Resolve (rp_Claims p)) (\<lambda>customerID.
       call (exec (FindProductByID (rp_ProductID p))) (\<lambda>product.
         let reserve = reserve_unit (rp_ProductID p);
             create = exec (CreateOrder customerID (rp_ProductID p) (pr_PriceInCents product) (rp_ExpiresAt p))
         in if reserveLast
            then call create (\<lambda>order. call reserve (\<lambda>_. call commit (\<lambda>_. ret order)))
            else call reserve (\<lambda>_. call create (\<lambda>order. call commit (\<lambda>_. ret order)))))"

definition txn_Reserve :: "(claims \<Rightarrow> int prog) \<Rightarrow> bool \<Rightarrow> reserve_params \<Rightarrow> order prog" where
  "txn_Reserve Resolve reserveLast p = in_tx (txn_body Resolve reserveLast p)"

definition cte_Reserve :: "(claims \<Rightarrow> int prog) \<Rightarrow> reserve_params \<Rightarrow> order prog" where
  "cte_Reserve Resolve p =
     call (Resolve (rp_Claims p)) (\<lambda>customerID.
       handle (exec (ReserveAndCreateOrder (rp_ProductID p) customerID (rp_ExpiresAt p))) (\<lambda>r. case r of
          Inr order \<Rightarrow> ret order
        | Inl e \<Rightarrow>
            if \<not> errors_Is e ErrNoRows then throw e
            else call (exec (FindProductByID (rp_ProductID p))) (\<lambda>_. throw ErrOutOfStock)))"

primrec arm_Reserve :: "(claims \<Rightarrow> int prog) \<Rightarrow> arm \<Rightarrow> reserve_params \<Rightarrow> order prog" where
  "arm_Reserve Resolve (TxnStrategy reserveLast) p = txn_Reserve Resolve reserveLast p"
| "arm_Reserve Resolve CteStrategy p = cte_Reserve Resolve p"

section \<open>Every arm is safe\<close>

text \<open>What a caller of a reserve strategy relies on under concurrency.\<close>

locale reserve_strategy =
  fixes Reserve :: "reserve_params \<Rightarrow> order prog"
  assumes pooled_Reserve: "pooled (Reserve p)"
begin

lemma Reserve_safe: "safe (Reserve p) [] finished"
  by (rule pooled_safe) (rule pooled_Reserve)

lemma Reserve_then: "(\<And>r. pooled (k r)) \<Longrightarrow> pooled (handle (Reserve p) k)"
  by (intro pooled_handle pooled_Reserve)

end

definition took :: "int \<Rightarrow> version list \<Rightarrow> bool" where
  "took p vs = (\<exists>vs0 s. vs = vs0 @ [WStock (Some s) (s\<lparr>s_NumReserved := s_NumReserved s + 1\<rparr>)] \<and>
     neutral vs0 \<and> s_ProductID s = p)"

definition made :: "int \<Rightarrow> version list \<Rightarrow> bool" where
  "made p vs = (\<exists>vs0 r. vs = vs0 @ [WOrder None r] \<and> neutral vs0 \<and> o_Status r = StatusPending \<and> o_ProductID r = p)"

lemma triple_reserve_unit:
  assumes "\<And>vs x. I vs \<Longrightarrow> s_ProductID x = p \<Longrightarrow>
    K (vs @ [WStock (Some x) (x\<lparr>s_NumReserved := s_NumReserved x + 1\<rparr>)])"
  shows "triple I (reserve_unit p) (\<lambda>r vs. case r of Inl _ \<Rightarrow> True | Inr _ \<Rightarrow> K vs)"
  unfolding reserve_unit_def
proof (rule triple_handle)
  show "triple I (exec (ReserveStock p)) (\<lambda>r vs. case r of Inl _ \<Rightarrow> True | Inr _ \<Rightarrow> K vs)"
    by (rule triple_exec [OF sound_stock(1)])
      (use assms in \<open>auto split: sum.split dest!: stock_effects(1)\<close>)
next
  fix r :: "error + stock"
  show "triple (\<lambda>vs. case r of Inl _ \<Rightarrow> True | Inr _ \<Rightarrow> K vs)
    (case r of Inl e \<Rightarrow> if errors_Is e ErrNoRows then throw ErrOutOfStock else throw e | Inr _ \<Rightarrow> ret ())
    (\<lambda>r vs. case r of Inl _ \<Rightarrow> True | Inr _ \<Rightarrow> K vs)"
    by (cases r) (auto intro!: triple_ret triple_throw)
qed

lemma triple_create:
  assumes "\<And>vs x. I vs \<Longrightarrow> o_Status x = StatusPending \<Longrightarrow> o_ProductID x = p \<Longrightarrow> K (vs @ [WOrder None x])"
  shows "triple I (exec (CreateOrder cid p amount expires)) (\<lambda>r vs. case r of Inl _ \<Rightarrow> True | Inr _ \<Rightarrow> K vs)"
  by (rule triple_exec [OF sound_inserts(1)])
    (use assms in \<open>auto split: sum.split dest!: order_effects(4)\<close>)

lemma triple_commit_ret:
  "(\<And>vs. I vs \<Longrightarrow> balanced vs) \<Longrightarrow> triple I (call commit (\<lambda>_. ret x)) (\<lambda>r vs. True)"
  by (rule triple_call [where J = "\<lambda>r vs. True"]) (auto intro: triple_commit triple_ret)

lemma made_then_took:
  "made p vs \<Longrightarrow> s_ProductID s = p \<Longrightarrow>
     balanced (vs @ [WStock (Some s) (s\<lparr>s_NumReserved := s_NumReserved s + 1\<rparr>)])"
  by (auto simp: made_def balanced_neutral_append balanced_reserve_pair)

lemma took_then_made:
  "took p vs \<Longrightarrow> o_Status r = StatusPending \<Longrightarrow> o_ProductID r = p \<Longrightarrow> balanced (vs @ [WOrder None r])"
  by (auto simp: took_def balanced_neutral_append balanced_reserve_pair)

lemma triple_reserve_last:
  "triple neutral
     (call (exec (CreateOrder cid p amount expires)) (\<lambda>order.
        call (reserve_unit p) (\<lambda>_. call commit (\<lambda>_. ret order)))) (\<lambda>r vs. True)"
proof (rule triple_call [OF triple_create [where K = "made p"]])
  fix x
  have "triple (made p) (call (reserve_unit p) (\<lambda>_. call commit (\<lambda>_. ret x))) (\<lambda>r vs. True)"
    by (rule triple_call [OF triple_reserve_unit [where K = balanced]])
      (auto intro: triple_commit_ret made_then_took)
  then show "triple (\<lambda>vs. case Inr x of Inl _ \<Rightarrow> True | Inr _ \<Rightarrow> made p vs)
      (call (reserve_unit p) (\<lambda>_. call commit (\<lambda>_. ret x))) (\<lambda>r vs. True)" by simp
qed (auto simp: made_def)

lemma triple_reserve_first:
  "triple neutral
     (call (reserve_unit p) (\<lambda>_. call (exec (CreateOrder cid p amount expires)) (\<lambda>order.
        call commit (\<lambda>_. ret order)))) (\<lambda>r vs. True)"
proof (rule triple_call [OF triple_reserve_unit [where K = "took p"]])
  fix x :: unit
  have "triple (took p) (call (exec (CreateOrder cid p amount expires)) (\<lambda>order.
      call commit (\<lambda>_. ret order))) (\<lambda>r vs. True)"
    by (rule triple_call [OF triple_create [where K = balanced]])
      (auto intro: triple_commit_ret took_then_made)
  then show "triple (\<lambda>vs. case Inr x of Inl _ \<Rightarrow> True | Inr _ \<Rightarrow> took p vs)
      (call (exec (CreateOrder cid p amount expires)) (\<lambda>order. call commit (\<lambda>_. ret order)))
      (\<lambda>r vs. True)" by simp
qed (auto simp: took_def)

lemma triple_neutral_exec:
  "sound_stmt s \<Longrightarrow> neutral_stmt s \<Longrightarrow> triple neutral (exec s) (\<lambda>r. neutral)"
  by (rule quiet_triple) (rule quiet_exec)

context resolver
begin

lemma closed_txn_Reserve: "closed (txn_Reserve Resolve reserveLast p)"
proof -
  have "triple neutral (txn_body Resolve reserveLast p) (\<lambda>r vs. True)"
    unfolding txn_body_def Let_def
    by (rule triple_call [OF triple_Resolve], rule triple_call [OF triple_neutral_exec])
      (auto intro: sound_reads neutral_reads triple_reserve_first triple_reserve_last)
  then have "triple (\<lambda>vs. vs = []) (txn_body Resolve reserveLast p) (\<lambda>r vs. True)"
    by (rule triple_weaken) auto
  then show ?thesis unfolding txn_Reserve_def by (rule in_tx_closed)
qed

lemma pooled_cte_Reserve: "pooled (cte_Reserve Resolve p)"
  unfolding cte_Reserve_def
  by (auto intro!: pooled_call pooled_handle pooled_Resolve pooled_ret pooled_throw pooled_exec
      sound_inserts balanced_inserts sound_reads neutral_balanced_stmt neutral_reads split: sum.split)

lemma pooled_arm_Reserve: "pooled (arm_Reserve Resolve a p)"
  by (cases a) (simp_all add: closed_pooled closed_txn_Reserve pooled_cte_Reserve)

end

interpretation direct_arm: reserve_strategy "arm_Reserve DirectResolve a" for a
  by unfold_locales (rule direct.pooled_arm_Reserve)

interpretation cached_arm: reserve_strategy "arm_Reserve CachedResolve a" for a
  by unfold_locales (rule cached.pooled_arm_Reserve)


section \<open>What a reserve does, alone\<close>

text \<open>
  The specification of every arm, on the database in which the caller has been linked:
  one more reserved unit and one pending order at the current price, or one of the two
  failures and no change.
\<close>

definition reserve_spec :: "int \<Rightarrow> int \<Rightarrow> int \<Rightarrow> int \<Rightarrow> db \<Rightarrow> (error + order) \<times> db" where
  "reserve_spec p cid expires now d =
     (case find_product p d of
        None \<Rightarrow> (Inl ErrNoRows, d)
      | Some q \<Rightarrow>
          (case find_stock p d of
             None \<Rightarrow> (Inl ErrNoRows, d)
           | Some s \<Rightarrow>
               if s_Quantity s - s_NumReserved s > 0
               then let r = \<lparr>o_ID = order_seq d, o_CustomerID = cid, o_ProductID = p,
                             o_Status = StatusPending, o_CreatedAt = now, o_TotalInCents = p_PriceInCents q,
                             o_ExpiresAt = Some expires, o_StripePaymentIntentID = None\<rparr>
                    in (Inr r, put_order r (put_stock (s\<lparr>s_NumReserved := s_NumReserved s + 1\<rparr>) (burn OrderSeq d)))
               else (Inl ErrOutOfStock, d)))"

text \<open>A database an insert of an order by cid cannot fail on.\<close>

definition reservable :: "int \<Rightarrow> db \<Rightarrow> bool" where
  "reservable cid d =
     (db_inv d \<and> (\<forall>r \<in> set (orders d). o_ID r < order_seq d) \<and>
      (\<forall>q \<in> set (products d). 0 \<le> p_PriceInCents q) \<and> find_customer cid d \<noteq> None)"

lemma reservableD:
  assumes "reservable cid d"
  shows "find_order (order_seq d) d = None" "find_customer cid d \<noteq> None"
    and "find_product p d = Some q \<Longrightarrow> \<not> p_PriceInCents q < 0"
    and "find_stock p d = Some s \<Longrightarrow> stock_check s" "find_stock p d = Some s \<Longrightarrow> find_product p d \<noteq> None"
  using assms
  by (fastforce simp: reservable_def find_order_def find_by_None_iff find_product_def
      dest: find_by_SomeD find_stock_check product_of_stock)+

lemma product_reply:
  "find_product p (view e) = Some q \<Longrightarrow> find_stock p (view e) = Some s \<Longrightarrow>
     FindProductByID p e = Reply (Inr \<lparr>pr_ID = p_ID q, pr_Name = p_Name q, pr_PriceInCents = p_PriceInCents q,
         pr_CreatedAt = p_CreatedAt q, pr_StartAt = p_StartAt q,
         pr_Quantity = s_Quantity s, pr_NumReserved = s_NumReserved s\<rparr>) [] []"
  "find_product p (view e) = None \<or> find_stock p (view e) = None \<Longrightarrow>
     FindProductByID p e = Reply (Inl ErrNoRows) [] []"
  by (cases "find_product p (view e)"; cases "find_stock p (view e)";
      simp add: FindProductByID_def reply_defs join_product_def find_key)+

lemma fresh_txn [simp]: "tx_state \<lparr>tx_state = a, tx_writes = b, tx_now = c\<rparr> = a"
  by simp

lemma stock_check_reserve:
  "stock_check s \<Longrightarrow> 0 < s_Quantity s - s_NumReserved s \<Longrightarrow> stock_check (s\<lparr>s_NumReserved := s_NumReserved s + 1\<rparr>)"
  by (simp add: stock_check_def)

lemma put_commute: "put_order r (put_stock s d) = put_stock s (put_order r d)"
  by (simp add: table_defs)

lemma put_burn: "put_order r (burn q d) = burn q (put_order r d)" "put_stock s (burn q d) = burn q (put_stock s d)"
  by (cases q; simp add: table_defs)+

lemma put_burns: "put_order r (burns sq d) = burns sq (put_order r d)" "put_stock s (burns sq d) = burns sq (put_stock s d)"
  by (induction sq arbitrary: d) (simp_all add: put_burn)

text \<open>Shared by both orders of the transactional arm and the single statement.\<close>

lemma cte_reply:
  assumes "reservable cid d" "view e = d" "env_now e = now"
  shows "ReserveAndCreateOrder p cid expires e =
    (case reserve_spec p cid expires now d of
       (Inl x, _) \<Rightarrow> Reply (Inl ErrNoRows) [] []
     | (Inr r, _) \<Rightarrow>
         (case find_stock p d of
            None \<Rightarrow> Reply (Inl ErrNoRows) [] []
          | Some s \<Rightarrow> Reply (Inr r)
              [WStock (Some s) (s\<lparr>s_NumReserved := s_NumReserved s + 1\<rparr>), WOrder None r] [OrderSeq]))"
proof (cases "find_stock p d")
  case None
  then show ?thesis
    using assms by (simp add: ReserveAndCreateOrder_def reserve_spec_def reply_defs split: option.split)
next
  case (Some s)
  with assms obtain q where q: "find_product p d = Some q"
    using reservableD(5) by blast
  show ?thesis
  proof (cases "0 < s_Quantity s - s_NumReserved s")
    case True
    then show ?thesis
      using Some q assms reservableD(1,2) [OF assms(1)] reservableD(3) [OF assms(1) q]
        stock_check_reserve [OF reservableD(4) [OF assms(1) Some] True]
      by (simp add: ReserveAndCreateOrder_def reserve_spec_def reply_defs insert_order_def Let_def
          new_order_def row_simps)
  next
    case False
    with Some q assms show ?thesis
      by (simp add: ReserveAndCreateOrder_def reserve_spec_def reply_defs)
  qed
qed


lemma reserve_spec_cases:
  obtains (taken) q s r where "find_product p d = Some q" "find_stock p d = Some s"
      "0 < s_Quantity s - s_NumReserved s"
      "reserve_spec p cid expires now d = (Inr r, put_order r (put_stock (s\<lparr>s_NumReserved := s_NumReserved s + 1\<rparr>) (burn OrderSeq d)))"
      "r = \<lparr>o_ID = order_seq d, o_CustomerID = cid, o_ProductID = p, o_Status = StatusPending,
         o_CreatedAt = now, o_TotalInCents = p_PriceInCents q, o_ExpiresAt = Some expires,
         o_StripePaymentIntentID = None\<rparr>"
  | (sold_out) q s where "find_product p d = Some q" "find_stock p d = Some s"
      "\<not> 0 < s_Quantity s - s_NumReserved s" "reserve_spec p cid expires now d = (Inl ErrOutOfStock, d)"
  | (missing) "find_product p d = None \<or> find_stock p d = None" "reserve_spec p cid expires now d = (Inl ErrNoRows, d)"
proof (cases "find_product p d"; cases "find_stock p d")
  fix q s
  assume *: "find_product p d = Some q" "find_stock p d = Some s"
  show thesis
  proof (cases "0 < s_Quantity s - s_NumReserved s")
    case True
    show thesis by (rule taken [OF * True _ refl]) (use * True in \<open>simp add: reserve_spec_def Let_def\<close>)
  next
    case False
    show thesis by (rule sold_out [OF * False]) (use * False in \<open>simp add: reserve_spec_def\<close>)
  qed
qed (use missing in \<open>simp_all add: reserve_spec_def\<close>)

lemma committed_update: "install ws sq g = g\<lparr>committed := burns sq (applys ws (committed g))\<rparr>"
  by (simp add: install_def)

lemma run_cte_Reserve:
  assumes free: "locks g = []" and l: "link_spec (rp_Claims p) (auto_env i g) = Reply (Inr c) ws sq"
    and ok: "reservable (c_ID c) (committed (install ws sq g))"
  shows "run [] i (cte_Reserve DirectResolve p) [] g =
    (let (r, d') = reserve_spec (rp_ProductID p) (c_ID c) (rp_ExpiresAt p) (clock g) (committed (install ws sq g))
     in Some ([], r, [], g\<lparr>committed := d'\<rparr>))"
proof -
  let ?g = "install ws sq g"
  have rep: "ReserveAndCreateOrder (rp_ProductID p) (c_ID c) (rp_ExpiresAt p) (auto_env i ?g) =
    (case reserve_spec (rp_ProductID p) (c_ID c) (rp_ExpiresAt p) (clock g) (committed ?g) of
       (Inl x, _) \<Rightarrow> Reply (Inl ErrNoRows) [] []
     | (Inr r, _) \<Rightarrow>
         (case find_stock (rp_ProductID p) (committed ?g) of
            None \<Rightarrow> Reply (Inl ErrNoRows) [] []
          | Some s \<Rightarrow> Reply (Inr r)
              [WStock (Some s) (s\<lparr>s_NumReserved := s_NumReserved s + 1\<rparr>), WOrder None r] [OrderSeq]))"
    by (rule cte_reply [OF ok]) simp_all
  have reads: "find_product (rp_ProductID p) (committed ?g) = None \<or> find_stock (rp_ProductID p) (committed ?g) = None \<Longrightarrow>
      FindProductByID (rp_ProductID p) (auto_env i ?g) = Reply (Inl ErrNoRows) [] []"
    by (rule product_reply) simp
  show ?thesis
  proof (cases rule: reserve_spec_cases [of "rp_ProductID p" "committed ?g" "c_ID c" "rp_ExpiresAt p" "clock g"])
    case (taken q s r)
    let ?ws = "[WStock (Some s) (s\<lparr>s_NumReserved := s_NumReserved s + 1\<rparr>), WOrder None r]"
    have "run [] i (cte_Reserve DirectResolve p) [] g = Some ([], Inr r, [], install ?ws [OrderSeq] ?g)"
      using rep taken free run_DirectResolve_ok [OF free l] by (simp add: cte_Reserve_def prog_simps)
    moreover have "install ?ws [OrderSeq] ?g = g\<lparr>committed := put_order r (put_stock
        (s\<lparr>s_NumReserved := s_NumReserved s + 1\<rparr>) (burn OrderSeq (committed ?g)))\<rparr>"
      by (simp add: install_def put_burn put_burns del: burn.simps)
    ultimately show ?thesis using taken by simp
  next
    case (sold_out q s)
    have "run [] i (cte_Reserve DirectResolve p) [] g = Some ([], Inl ErrOutOfStock, [], ?g)"
      using rep sold_out free run_DirectResolve_ok [OF free l]
      by (simp add: cte_Reserve_def prog_simps FindProductByID_def reply_defs join_product_def find_key)
    then show ?thesis using sold_out by (simp add: install_def)
  next
    case missing
    have "run [] i (cte_Reserve DirectResolve p) [] g = Some ([], Inl ErrNoRows, [], ?g)"
      using rep missing reads free run_DirectResolve_ok [OF free l] by (simp add: cte_Reserve_def prog_simps)
    then show ?thesis using missing by (simp add: install_def)
  qed
qed


text \<open>The transactional arms: the same on success; on failure everything is rolled back.\<close>

lemma reserve_reply:
  "find_stock p (view e) = Some s \<Longrightarrow> stock_check s \<Longrightarrow> 0 < s_Quantity s - s_NumReserved s \<Longrightarrow>
     ReserveStock p e = Reply (Inr (s\<lparr>s_NumReserved := s_NumReserved s + 1\<rparr>))
       [WStock (Some s) (s\<lparr>s_NumReserved := s_NumReserved s + 1\<rparr>)] []"
  "find_stock p (view e) = Some s \<Longrightarrow> \<not> 0 < s_Quantity s - s_NumReserved s \<Longrightarrow>
     ReserveStock p e = Reply (Inl ErrNoRows) [] []"
  using stock_check_reserve by (auto simp: stock_stmts reply_defs)

lemma create_reply:
  "find_order (order_seq (view e)) (view e) = None \<Longrightarrow> find_customer cid (view e) \<noteq> None \<Longrightarrow>
     find_product p (view e) \<noteq> None \<Longrightarrow> \<not> amount < 0 \<Longrightarrow>
     CreateOrder cid p amount expires e =
       Reply (Inr (new_order cid p amount expires e)) [WOrder None (new_order cid p amount expires e)] [OrderSeq]"
  by (simp add: CreateOrder_def insert_order_def Let_def new_order_def)

lemma order_seq_puts [simp]:
  "order_seq (burns sq (put_stock s d)) = order_seq (burns sq d)"
  "order_seq (burns sq (put_order r d)) = order_seq (burns sq d)"
  "order_seq (put_stock s d) = order_seq d" "order_seq (put_order r d) = order_seq d"
  by (simp_all add: put_burns [symmetric]) (simp_all add: table_defs)

definition rolled_back :: "gstate \<Rightarrow> gstate \<Rightarrow> bool" where
  "rolled_back g g' = (\<exists>sq. g' = install [] sq g)"


lemma run_txn_Reserve_ok:
  assumes free: "locks g = []" and l: "link_spec (rp_Claims p) (auto_env i g) = Reply (Inr c) ws sq"
    and ok: "reservable (c_ID c) (committed (install ws sq g))"
    and q: "find_product (rp_ProductID p) (committed (install ws sq g)) = Some q"
    and s: "find_stock (rp_ProductID p) (committed (install ws sq g)) = Some s"
    and free_unit: "0 < s_Quantity s - s_NumReserved s"
  shows "run [] i (txn_Reserve DirectResolve reserveLast p) [] g =
    (let (r, d') = reserve_spec (rp_ProductID p) (c_ID c) (rp_ExpiresAt p) (clock g) (committed (install ws sq g))
     in Some ([], r, [], g\<lparr>committed := d'\<rparr>))"
proof -
  let ?t = "\<lparr>tx_state = TxLive, tx_writes = [], tx_now = clock g\<rparr>"
  have lt: "link_spec (rp_Claims p) (tx_env i ?t (Suc (length [])) g) = Reply (Inr c) ws sq"
    unfolding l [symmetric] by (rule link_spec_cong) simp_all
  note resolve = run_DirectResolve_tx_ok [OF _ free lt]
  note facts = reservableD(1,2) [OF ok] reservableD(3) [OF ok q] reservableD(4) [OF ok s]
    q s free_unit free
  show ?thesis
  proof (cases reserveLast)
    case True
    then show ?thesis
      using facts resolve
      by (simp add: txn_Reserve_def txn_body_def Let_def reserve_unit_def prog_simps product_reply
          reserve_reply create_reply reserve_spec_def row_simps find_key new_order_def
          del: burns_Cons burn.simps)
        (simp add: install_def put_burns put_burn put_commute applys_burn del: burn.simps)
  next
    case False
    then show ?thesis
      using facts resolve
      by (simp add: txn_Reserve_def txn_body_def Let_def reserve_unit_def prog_simps product_reply
          reserve_reply create_reply reserve_spec_def row_simps find_key new_order_def
          del: burns_Cons burn.simps)
        (simp add: install_def put_burns put_burn put_commute applys_burn del: burn.simps)
  qed
qed


lemma run_txn_Reserve_missing:
  assumes free: "locks g = []" and l: "link_spec (rp_Claims p) (auto_env i g) = Reply (Inr c) ws sq"
    and no: "find_product (rp_ProductID p) (committed (install ws sq g)) = None \<or>
      find_stock (rp_ProductID p) (committed (install ws sq g)) = None"
  shows "run [] i (txn_Reserve DirectResolve reserveLast p) [] g = Some ([], Inl ErrNoRows, [], install [] sq g)"
proof -
  let ?t = "\<lparr>tx_state = TxLive, tx_writes = [], tx_now = clock g\<rparr>"
  have lt: "link_spec (rp_Claims p) (tx_env i ?t (Suc (length [])) g) = Reply (Inr c) ws sq"
    unfolding l [symmetric] by (rule link_spec_cong) simp_all
  note resolve = run_DirectResolve_tx_ok [OF _ free lt]
  have "FindProductByID (rp_ProductID p) e = Reply (Inl ErrNoRows) [] []"
    if "view e = burns sq (applys ws (committed g))" for e
    by (rule product_reply) (use no that in simp)
  then show ?thesis
    using resolve free by (simp add: txn_Reserve_def txn_body_def prog_simps)
qed

lemma run_txn_Reserve_sold_out:
  assumes free: "locks g = []" and l: "link_spec (rp_Claims p) (auto_env i g) = Reply (Inr c) ws sq"
    and ok: "reservable (c_ID c) (committed (install ws sq g))"
    and q: "find_product (rp_ProductID p) (committed (install ws sq g)) = Some q"
    and s: "find_stock (rp_ProductID p) (committed (install ws sq g)) = Some s"
    and no_unit: "\<not> 0 < s_Quantity s - s_NumReserved s"
  shows "\<exists>sq'. run [] i (txn_Reserve DirectResolve reserveLast p) [] g = Some ([], Inl ErrOutOfStock, [], install [] sq' g)"
proof -
  let ?t = "\<lparr>tx_state = TxLive, tx_writes = [], tx_now = clock g\<rparr>"
  have lt: "link_spec (rp_Claims p) (tx_env i ?t (Suc (length [])) g) = Reply (Inr c) ws sq"
    unfolding l [symmetric] by (rule link_spec_cong) simp_all
  note resolve = run_DirectResolve_tx_ok [OF _ free lt]
  note facts = reservableD(1,2) [OF ok] reservableD(3) [OF ok q] q s no_unit free
  have join: "install [] b (install [] a g) = install [] (a @ b) g" for a b
    by (simp add: install_def burns_def)
  show ?thesis
  proof (cases reserveLast)
    case True
    have "run [] i (txn_Reserve DirectResolve reserveLast p) [] g =
      Some ([], Inl ErrOutOfStock, [], install [] (sq @ [OrderSeq]) g)"
      using facts resolve True
      by (simp add: txn_Reserve_def txn_body_def Let_def reserve_unit_def prog_simps product_reply
          reserve_reply create_reply row_simps join del: burns_Cons burn.simps)
    then show ?thesis by blast
  next
    case False
    have "run [] i (txn_Reserve DirectResolve reserveLast p) [] g =
      Some ([], Inl ErrOutOfStock, [], install [] sq g)"
      using facts resolve False
      by (simp add: txn_Reserve_def txn_body_def Let_def reserve_unit_def prog_simps product_reply
          reserve_reply row_simps)
    then show ?thesis by blast
  qed
qed

text \<open>
  The contract of strategy.go, for every arm: the result is the specification's; a success
  has exactly the specified effect; a failure leaves products, stock and orders as they were.
\<close>

lemma run_arm_Reserve:
  assumes "locks g = []" "link_spec (rp_Claims p) (auto_env i g) = Reply (Inr c) ws sq"
    and "reservable (c_ID c) (committed (install ws sq g))"
    and "reserve_spec (rp_ProductID p) (c_ID c) (rp_ExpiresAt p) (clock g) (committed (install ws sq g)) = (r, d')"
  shows "\<exists>g'. run [] i (arm_Reserve DirectResolve a p) [] g = Some ([], r, [], g') \<and>
    (case r of
       Inr order \<Rightarrow> g' = g\<lparr>committed := d'\<rparr>
     | Inl e \<Rightarrow> (\<exists>ws'. (ws' = [] \<or> ws' = ws) \<and> (\<exists>sq'. g' = install ws' sq' g)))"
proof (cases rule: reserve_spec_cases [of "rp_ProductID p" "committed (install ws sq g)" "c_ID c" "rp_ExpiresAt p" "clock g"])
  case (taken q s o')
  with assms show ?thesis
    using run_cte_Reserve [OF assms(1-3)] run_txn_Reserve_ok [OF assms(1-3) taken(1-3)]
    by (cases a) (auto simp: Let_def)
next
  case (sold_out q s)
  with assms show ?thesis
    using run_cte_Reserve [OF assms(1-3)] run_txn_Reserve_sold_out [OF assms(1-3) sold_out(1-3)]
    by (cases a) (fastforce simp: Let_def install_def)+
next
  case missing
  with assms show ?thesis
    using run_cte_Reserve [OF assms(1-3)] run_txn_Reserve_missing [OF assms(1,2) missing(1)]
    by (cases a) (fastforce simp: Let_def install_def)+
qed


text \<open>Linking the caller leaves a well-kept database reservable by that caller.\<close>

definition ready :: "db \<Rightarrow> bool" where
  "ready d =
     (db_inv d \<and> customers_wf d \<and> (\<forall>r \<in> set (orders d). o_ID r < order_seq d) \<and>
      (\<forall>q \<in> set (products d). 0 \<le> p_PriceInCents q))"

lemma link_spec_shape:
  assumes "customers_wf (view e)" "link_spec cl e = Reply (Inr c) ws sq"
  shows "(sq = [] \<or> sq = [CustomerSeq]) \<and>
    (ws = [] \<and> find_customer (c_ID c) (view e) = Some c \<or> (\<exists>old. ws = [WCustomer old c]))"
proof -
  have found: "find_customer (c_ID x) (view e) = Some x" if "by_sub s (view e) = Some x" for s x
  proof -
    have "x \<in> set (customers (view e))" using that assms(1) by (simp add: by_sub_iff)
    moreover have "distinct (map c_ID (customers (view e)))" using assms(1) by (simp add: customers_wf_def)
    ultimately show ?thesis unfolding find_customer_def by (intro find_by_distinct)
  qed
  show ?thesis
    using assms(2) found
    by (auto simp: link_spec_def UpdateCustomerEmail_def LinkCustomer_def reply_defs Let_def bind_eq_Some_conv
        split: option.splits if_splits)
qed

lemma link_spec_sound:
  assumes "wf_view e" "link_spec cl e = Reply r ws sq"
  shows "sound_writes (view e) ws \<and> neutral ws"
proof -
  consider "ws = []" | i m where "UpdateCustomerEmail i m e = Reply r ws sq"
    | m so where "LinkCustomer m so e = Reply r ws sq"
    using assms(2) by (auto simp: link_spec_def split: option.splits if_splits)
  then show ?thesis
  proof cases
    case 1
    then show ?thesis by simp
  next
    case (2 i m)
    then show ?thesis
      using assms(1) sound_customers(1) [of i m] neutral_writes(2) [of i m]
      unfolding sound_stmt_def neutral_stmt_def by blast
  next
    case (3 m so)
    then show ?thesis
      using assms(1) sound_customers(2) [of m so] neutral_writes(3) [of m so]
      unfolding sound_stmt_def neutral_stmt_def by blast
  qed
qed

lemma put_customer_frame [simp]:
  "orders (put_customer c d) = orders d" "products (put_customer c d) = products d"
  "order_seq (put_customer c d) = order_seq d"
  by (simp_all add: put_customer_def)

lemma linked_reservable:
  assumes "ready (committed g)" "link_spec cl (auto_env i g) = Reply (Inr c) ws sq"
  shows "reservable (c_ID c) (committed (install ws sq g))"
proof -
  have wf: "wf_view (auto_env i g)"
    using assms(1) by (simp add: wf_view_def ready_def db_invD)
  then have "sound_writes (committed g) ws" "neutral ws"
    using link_spec_sound [OF wf assms(2)] by simp_all
  then have inv: "db_inv (applys ws (committed g))"
    using assms(1) by (intro db_inv_applys) (auto simp: ready_def sound_writes_def balanced_neutral)
  have "(sq = [] \<or> sq = [CustomerSeq]) \<and>
    (ws = [] \<and> find_customer (c_ID c) (committed g) = Some c \<or> (\<exists>old. ws = [WCustomer old c]))"
    using link_spec_shape [OF _ assms(2)] assms(1) by (simp add: ready_def)
  with inv assms(1) show ?thesis
    by (auto simp: reservable_def ready_def row_simps)
qed

text \<open>Seen from outside: the answer, the tables, and that no lock stays behind.\<close>

lemma arm_Reserve_effect:
  assumes "locks g = []" "ready (committed g)" "link_spec (rp_Claims p) (auto_env i g) = Reply (Inr c) ws sq"
    and "reserve_spec (rp_ProductID p) (c_ID c) (rp_ExpiresAt p) (clock g) (committed (install ws sq g)) = (r, d')"
  shows "\<exists>g'. run [] i (arm_Reserve DirectResolve a p) [] g = Some ([], r, [], g') \<and>
    stocks (committed g') = stocks d' \<and> orders (committed g') = orders d' \<and>
    idems (committed g') = idems d' \<and> locks g' = []"
proof -
  have cust: "ws = [] \<or> (\<exists>old c. ws = [WCustomer old c])"
    using link_spec_shape [OF _ assms(3)] assms(2) by (auto simp: ready_def)
  obtain g' where g': "run [] i (arm_Reserve DirectResolve a p) [] g = Some ([], r, [], g')"
    "case r of Inr order \<Rightarrow> g' = g\<lparr>committed := d'\<rparr>
     | Inl e \<Rightarrow> \<exists>ws'. (ws' = [] \<or> ws' = ws) \<and> (\<exists>sq'. g' = install ws' sq' g)"
    using run_arm_Reserve [OF assms(1,3) linked_reservable [OF assms(2,3)] assms(4)] by blast
  show ?thesis
  proof (cases r)
    case (Inl e)
    then have d': "d' = committed (install ws sq g)"
      using assms(4) by (auto simp: reserve_spec_def Let_def split: option.splits if_splits)
    obtain ws' sq' where "ws' = [] \<or> ws' = ws" "g' = install ws' sq' g" using g'(2) Inl by auto
    with g'(1) d' assms(1) cust show ?thesis
      by (intro exI [of _ g']) (auto simp: row_simps put_customer_def)
  next
    case (Inr order)
    with g' assms(1) show ?thesis by (intro exI [of _ g']) simp
  qed
qed

lemma reserve_outcome:
  assumes "ws = [] \<or> (\<exists>old c. ws = [WCustomer old c])"
  shows "fst (reserve_spec p cid x (clock g) (committed (install ws sq g))) =
    (case find_product p (committed g) of None \<Rightarrow> Inl ErrNoRows
     | Some q \<Rightarrow> (case find_stock p (committed g) of None \<Rightarrow> Inl ErrNoRows
        | Some s \<Rightarrow> if s_Quantity s - s_NumReserved s > 0
            then Inr (new_order cid p (p_PriceInCents q) x (auto_env i (install ws sq g)))
            else Inl ErrOutOfStock))"
  using assms
  by (auto simp: reserve_spec_def row_simps new_order_def Let_def auto_env_def split: option.split)

end
