(* ===== verification/Idempotency.thy ===== *)
theory Idempotency
  imports Reserve
begin

text \<open>
  internal/orders/strategy_idempotent.go: the wrapper that makes a reserve safe to retry,
  and the strategies a process can be configured with. The hexadecimal SHA-256 digest is a
  parameter (sum256); nothing here depends on which function it is.
\<close>

section \<open>The wrapper\<close>

definition requestHash :: "(string \<Rightarrow> string) \<Rightarrow> int \<Rightarrow> string" where
  "requestHash sum256 productID = sum256 (''product_id='' @ show_int productID)"

definition reserveAndRecord :: "(reserve_params \<Rightarrow> order prog) \<Rightarrow> reserve_params \<Rightarrow> order_idempotency \<Rightarrow> order prog" where
  "reserveAndRecord inner p claimed =
     handle (inner p) (\<lambda>r. case r of
        Inl e \<Rightarrow> handle (exec (ReleaseIdempotencyKey (i_CognitoSub claimed) (i_IdemKey claimed))) (\<lambda>_. throw e)
      | Inr order \<Rightarrow>
          handle (exec (CompleteIdempotencyKey (i_CognitoSub claimed) (i_IdemKey claimed) (o_ID order)))
            (\<lambda>_. ret order))"

definition replay :: "reserve_params \<Rightarrow> string \<Rightarrow> order prog" where
  "replay p hash =
     handle (exec (FindIdempotencyKey (Subject (rp_Claims p)) (rp_IdempotencyKey p))) (\<lambda>r. case r of
        Inl e \<Rightarrow> if errors_Is e ErrNoRows then throw ErrReserveInProgress else throw e
      | Inr existing \<Rightarrow>
          if i_RequestHash existing \<noteq> hash then throw ErrIdempotencyKeyReused
          else (case i_OrderID existing of
              None \<Rightarrow> throw ErrReserveInProgress
            | Some i \<Rightarrow> exec (FindOrderByIDPlain i)))"

definition idem_Reserve :: "(string \<Rightarrow> string) \<Rightarrow> (reserve_params \<Rightarrow> order prog) \<Rightarrow> reserve_params \<Rightarrow> order prog" where
  "idem_Reserve sum256 inner p =
     (if rp_IdempotencyKey p = [] \<or> Subject (rp_Claims p) = [] then inner p
      else
        let hash = requestHash sum256 (rp_ProductID p) in
        handle (exec (ClaimIdempotencyKey (Subject (rp_Claims p)) (rp_IdempotencyKey p) hash)) (\<lambda>r. case r of
           Inr claimed \<Rightarrow> reserveAndRecord inner p claimed
         | Inl e \<Rightarrow> if \<not> errors_Is e ErrNoRows then throw e else replay p hash))"

text \<open>A configured strategy: an arm, possibly wrapped.\<close>

datatype strategy = Arm arm | WithIdempotency strategy

primrec strategy_Name :: "strategy \<Rightarrow> string" where
  "strategy_Name (Arm a) = arm_Name a"
| "strategy_Name (WithIdempotency s) = strategy_Name s @ ''+idempotency''"

primrec strategy_Reserve ::
  "(string \<Rightarrow> string) \<Rightarrow> (claims \<Rightarrow> int prog) \<Rightarrow> strategy \<Rightarrow> reserve_params \<Rightarrow> order prog" where
  "strategy_Reserve sum256 Resolve (Arm a) = arm_Reserve Resolve a"
| "strategy_Reserve sum256 Resolve (WithIdempotency s) = idem_Reserve sum256 (strategy_Reserve sum256 Resolve s)"

section \<open>The wrapper keeps the contract\<close>

lemma pooled_neutral [good_intros]:
  "sound_stmt s \<Longrightarrow> neutral_stmt s \<Longrightarrow> pooled (exec s)"
  by (intro pooled_exec neutral_balanced_stmt)

context reserve_strategy
begin

lemma pooled_idem_Reserve: "pooled (idem_Reserve sum256 Reserve p)"
  unfolding idem_Reserve_def reserveAndRecord_def replay_def Let_def
  by (auto intro!: pooled_Reserve pooled_handle pooled_neutral pooled_throw pooled_ret sound_idems
      neutral_writes sound_reads neutral_reads split: sum.split option.split)

end

context resolver
begin

lemma pooled_strategy_Reserve: "pooled (strategy_Reserve sum256 Resolve s p)"
proof (induction s arbitrary: p)
  case (Arm a)
  then show ?case by (simp add: pooled_arm_Reserve)
next
  case (WithIdempotency s)
  then have "reserve_strategy (strategy_Reserve sum256 Resolve s)" by unfold_locales
  then show ?case by (simp add: reserve_strategy.pooled_idem_Reserve)
qed

end

interpretation direct_strategy: reserve_strategy "strategy_Reserve sum256 DirectResolve s" for sum256 s
  by unfold_locales (rule direct.pooled_strategy_Reserve)

interpretation cached_strategy: reserve_strategy "strategy_Reserve sum256 CachedResolve s" for sum256 s
  by unfold_locales (rule cached.pooled_strategy_Reserve)

section \<open>One key, one order\<close>

definition keyed :: "reserve_params \<Rightarrow> bool" where
  "keyed p = (rp_IdempotencyKey p \<noteq> [] \<and> Subject (rp_Claims p) \<noteq> [])"

abbreviation idem_key_of :: "reserve_params \<Rightarrow> string \<times> string" where
  "idem_key_of p \<equiv> (Subject (rp_Claims p), rp_IdempotencyKey p)"

text \<open>A retry of a key that has its answer: the answer again, and nothing else.\<close>

lemma run_replay:
  assumes "keyed p" "locks g = []" "find_idem (idem_key_of p) (committed g) = Some r"
  shows "run [] i (idem_Reserve sum256 inner p) [] g =
    (if i_RequestHash r \<noteq> requestHash sum256 (rp_ProductID p) then Some ([], Inl ErrIdempotencyKeyReused, [], g)
     else case i_OrderID r of
        None \<Rightarrow> Some ([], Inl ErrReserveInProgress, [], g)
      | Some k \<Rightarrow> (case find_order k (committed g) of
          None \<Rightarrow> Some ([], Inl ErrNoRows, [], g) | Some q \<Rightarrow> Some ([], Inr q, [], g)))"
  using assms
  by (auto simp: idem_Reserve_def replay_def keyed_def Let_def prog_simps ClaimIdempotencyKey_def
      FindIdempotencyKey_def FindOrderByIDPlain_def reply_defs split: option.split)

definition claim_row :: "(string \<Rightarrow> string) \<Rightarrow> reserve_params \<Rightarrow> int \<Rightarrow> order_idempotency" where
  "claim_row sum256 p now =
     \<lparr>i_CognitoSub = Subject (rp_Claims p), i_IdemKey = rp_IdempotencyKey p,
      i_RequestHash = requestHash sum256 (rp_ProductID p), i_OrderID = None, i_CreatedAt = now\<rparr>"

lemma claim_row_key [simp]: "i_key (claim_row sum256 p now) = idem_key_of p"
  by (simp add: claim_row_def i_key_def)

definition claimed :: "(string \<Rightarrow> string) \<Rightarrow> reserve_params \<Rightarrow> gstate \<Rightarrow> gstate" where
  "claimed sum256 p g = install [WIdem None (claim_row sum256 p (clock g))] [] g"

text \<open>The first use of a key: the inner reserve, and its order recorded under the key.\<close>

lemma run_first:
  assumes "keyed p" "locks g = []" "find_idem (idem_key_of p) (committed g) = None"
    and inner: "run [] i (inner p) [] (claimed sum256 p g) = Some ([], Inr order, [], g')"
    and "locks g' = []" "find_idem (idem_key_of p) (committed g') = Some (claim_row sum256 p (clock g))"
    and "find_order (o_ID order) (committed g') \<noteq> None"
  shows "run [] i (idem_Reserve sum256 inner p) [] g = Some ([], Inr order, [],
    install [WIdem (Some (claim_row sum256 p (clock g))) ((claim_row sum256 p (clock g))\<lparr>i_OrderID := Some (o_ID order)\<rparr>)] [] g')"
  using assms
  by (auto simp: idem_Reserve_def reserveAndRecord_def keyed_def Let_def prog_simps ClaimIdempotencyKey_def
      CompleteIdempotencyKey_def claim_row_def claimed_def)

lemma run_first_failed:
  assumes "keyed p" "locks g = []" "find_idem (idem_key_of p) (committed g) = None"
    and inner: "run [] i (inner p) [] (claimed sum256 p g) = Some ([], Inl e, [], g')"
    and "locks g' = []" "find_idem (idem_key_of p) (committed g') = Some (claim_row sum256 p (clock g))"
  shows "\<exists>g2. run [] i (idem_Reserve sum256 inner p) [] g = Some ([], Inl e, [], g2) \<and>
    find_idem (idem_key_of p) (committed g2) = None"
  using assms
  by (auto simp: idem_Reserve_def reserveAndRecord_def keyed_def Let_def prog_simps ClaimIdempotencyKey_def
      ReleaseIdempotencyKey_def claim_row_def claimed_def i_key_def row_simps)

text \<open>A first reserve that succeeds, and then any retry of it.\<close>

lemma retry_replays:
  assumes "keyed p" "locks g = []" "find_idem (idem_key_of p) (committed g) = None"
    and "run [] i (inner p) [] (claimed sum256 p g) = Some ([], Inr order, [], g')"
    and "locks g' = []" "find_idem (idem_key_of p) (committed g') = Some (claim_row sum256 p (clock g))"
    and "find_order (o_ID order) (committed g') = Some order"
  shows "\<exists>g1. run [] i (idem_Reserve sum256 inner p) [] g = Some ([], Inr order, [], g1) \<and>
    stocks (committed g1) = stocks (committed g') \<and> orders (committed g1) = orders (committed g') \<and>
    run [] j (idem_Reserve sum256 inner (p\<lparr>rp_ExpiresAt := x\<rparr>)) [] g1 = Some ([], Inr order, [], g1) \<and>
    (\<forall>p'. idem_key_of p' = idem_key_of p \<and> requestHash sum256 (rp_ProductID p') \<noteq> requestHash sum256 (rp_ProductID p) \<longrightarrow>
       run [] j (idem_Reserve sum256 inner p') [] g1 = Some ([], Inl ErrIdempotencyKeyReused, [], g1))"
proof -
  let ?row = "(claim_row sum256 p (clock g))\<lparr>i_OrderID := Some (o_ID order)\<rparr>"
  let ?g1 = "install [WIdem (Some (claim_row sum256 p (clock g))) ?row] [] g'"
  let ?p = "p\<lparr>rp_ExpiresAt := x\<rparr>"
  have first: "run [] i (idem_Reserve sum256 inner p) [] g = Some ([], Inr order, [], ?g1)"
    by (rule run_first [where inner = inner]) (use assms in simp_all)
  have key: "i_key ?row = idem_key_of p"
    by (simp add: claim_row_def i_key_def)
  have "find_idem (idem_key_of ?p) (committed ?g1) = Some ?row"
    using key by (simp add: row_simps)
  moreover have "keyed ?p" using assms(1) by (simp add: keyed_def)
  moreover have "find_order (o_ID order) (committed ?g1) = Some order"
    using assms(7) by (simp add: row_simps)
  ultimately have "run [] j (idem_Reserve sum256 inner ?p) [] ?g1 = Some ([], Inr order, [], ?g1)"
    using run_replay [of ?p ?g1 ?row j sum256 inner] assms(5) by (simp add: claim_row_def)
  moreover have "run [] j (idem_Reserve sum256 inner p') [] ?g1 = Some ([], Inl ErrIdempotencyKeyReused, [], ?g1)"
    if "idem_key_of p' = idem_key_of p" "requestHash sum256 (rp_ProductID p') \<noteq> requestHash sum256 (rp_ProductID p)" for p'
    using run_replay [of p' ?g1 ?row j sum256 inner] that assms(1,5) key
    by (simp add: claim_row_def keyed_def row_simps)
  moreover have "stocks (committed ?g1) = stocks (committed g')" "orders (committed ?g1) = orders (committed g')"
    by (simp_all add: put_idem_def)
  ultimately show ?thesis using first by blast
qed

text \<open>With one of the arms inside.\<close>

lemma put_idem_frame [simp]:
  "customers (put_idem r d) = customers d" "customer_seq (put_idem r d) = customer_seq d"
  "orders (put_idem r d) = orders d" "stocks (put_idem r d) = stocks d" "products (put_idem r d) = products d"
  "order_seq (put_idem r d) = order_seq d"
  by (simp_all add: put_idem_def)

lemma link_spec_customers:
  assumes "customers (view e) = customers (view e')" "customer_seq (view e) = customer_seq (view e')" "env_now e = env_now e'"
  shows "link_spec cl e = link_spec cl e'"
proof -
  have "by_sub s (view e) = by_sub s (view e')" "by_email m (view e) = by_email m (view e')"
    "sub_taken so i (view e) = sub_taken so i (view e')" "find_customer i (view e) = find_customer i (view e')" for s m so i
    using assms by (simp_all add: by_sub_def by_email_def sub_taken_def find_customer_def cong: option.case_cong)
  then show ?thesis
    using assms by (simp add: link_spec_def UpdateCustomerEmail_def LinkCustomer_def cong: option.case_cong if_cong)
qed

lemma claimed_simps [simp]:
  "locks (claimed sum256 p g) = locks g" "clock (claimed sum256 p g) = clock g"
  "committed (claimed sum256 p g) = put_idem (claim_row sum256 p (clock g)) (committed g)"
  by (simp_all add: claimed_def)

lemma ready_claimed: "ready (committed g) \<Longrightarrow> ready (committed (claimed sum256 p g))"
  unfolding ready_def db_inv_def customers_wf_def claimed_simps put_idem_frame row_simps stock_val_def count_orders_def .

lemma find_burn [row_simps]:
  "orders (burn s d) = orders d" "stocks (burn s d) = stocks d" "find_idem k (burn s d) = find_idem k d"
  "find_order i (burn s d) = find_order i d" "find_stock p (burn s d) = find_stock p d"
  using find_burns [where sq = "[s]" and d = d] by simp_all

lemma length_put_order: "find_order (o_ID r) d = None \<Longrightarrow> length (orders (put_order r d)) = length (orders d) + 1"
proof -
  assume "find_order (o_ID r) d = None"
  then have "o_ID r \<notin> o_ID ` set (orders d)" by (auto simp: find_order_def find_by_None_iff)
  then have "length (map o_ID (put_by o_ID r (orders d))) = length (orders d) + 1"
    unfolding keys_put_by by simp
  then show ?thesis by (simp add: put_order_def)
qed

lemma retry_arm:
  assumes "keyed p" "locks g = []" "ready (committed g)" "find_idem (idem_key_of p) (committed g) = None"
    and l: "link_spec (rp_Claims p) (auto_env i g) = Reply (Inr c) ws sq"
    and s: "find_product (rp_ProductID p) (committed g) = Some q" "find_stock (rp_ProductID p) (committed g) = Some s"
      "s_NumReserved s < s_Quantity s"
  shows "\<exists>order g1. run [] i (idem_Reserve sum256 (arm_Reserve DirectResolve a) p) [] g = Some ([], Inr order, [], g1) \<and>
    run [] j (idem_Reserve sum256 (arm_Reserve DirectResolve a) (p\<lparr>rp_ExpiresAt := x\<rparr>)) [] g1 = Some ([], Inr order, [], g1) \<and>
    (\<forall>p'. idem_key_of p' = idem_key_of p \<and> requestHash sum256 (rp_ProductID p') \<noteq> requestHash sum256 (rp_ProductID p) \<longrightarrow>
       run [] j (idem_Reserve sum256 (arm_Reserve DirectResolve a) p') [] g1 = Some ([], Inl ErrIdempotencyKeyReused, [], g1)) \<and>
    reserved_of (rp_ProductID p) (committed g1) = reserved_of (rp_ProductID p) (committed g) + 1 \<and>
    length (orders (committed g1)) = length (orders (committed g)) + 1"
proof -
  let ?g = "claimed sum256 p g"
  have l': "link_spec (rp_Claims p) (auto_env i ?g) = Reply (Inr c) ws sq"
    unfolding l [symmetric] by (rule link_spec_customers) (simp_all add: auto_env_def)
  have cust: "ws = [] \<or> (\<exists>old c. ws = [WCustomer old c])"
    using link_spec_shape [OF _ l] assms(3) by (auto simp: ready_def)
  have ok: "reservable (c_ID c) (committed (install ws sq ?g))"
    by (rule linked_reservable [OF ready_claimed [OF assms(3)] l'])
  let ?d = "committed (install ws sq ?g)"
  let ?order = "new_order (c_ID c) (rp_ProductID p) (p_PriceInCents q) (rp_ExpiresAt p) (auto_env i (install ws sq ?g))"
  let ?d' = "put_order ?order (put_stock (s\<lparr>s_NumReserved := s_NumReserved s + 1\<rparr>) (burn OrderSeq ?d))"
  have spec: "reserve_spec (rp_ProductID p) (c_ID c) (rp_ExpiresAt p) (clock ?g) ?d = (Inr ?order, ?d')"
    using cust s by (auto simp: reserve_spec_def row_simps new_order_def auto_env_def Let_def)
  obtain g' where g': "run [] i (arm_Reserve DirectResolve a p) [] ?g = Some ([], Inr ?order, [], g')" "g' = ?g\<lparr>committed := ?d'\<rparr>"
    using run_arm_Reserve [OF _ l' ok spec] assms(2) by fastforce
  have "find_idem (idem_key_of p) (committed g') = Some (claim_row sum256 p (clock g))"
    "find_order (o_ID ?order) (committed g') = Some ?order" "locks g' = []"
    using g'(2) cust assms(2) by (auto simp: row_simps simp del: burns_Cons burn.simps)
  with retry_replays [where inner = "arm_Reserve DirectResolve a", OF assms(1,2,4) g'(1)] obtain g1 where
    g1: "run [] i (idem_Reserve sum256 (arm_Reserve DirectResolve a) p) [] g = Some ([], Inr ?order, [], g1)"
    "stocks (committed g1) = stocks (committed g')" "orders (committed g1) = orders (committed g')"
    "run [] j (idem_Reserve sum256 (arm_Reserve DirectResolve a) (p\<lparr>rp_ExpiresAt := x\<rparr>)) [] g1 = Some ([], Inr ?order, [], g1)"
    "\<forall>p'. idem_key_of p' = idem_key_of p \<and> requestHash sum256 (rp_ProductID p') \<noteq> requestHash sum256 (rp_ProductID p) \<longrightarrow>
       run [] j (idem_Reserve sum256 (arm_Reserve DirectResolve a) p') [] g1 = Some ([], Inl ErrIdempotencyKeyReused, [], g1)"
    by blast
  have "o_ID ?order = order_seq ?d" by (simp add: new_order_def auto_env_def)
  then have new: "find_order (o_ID ?order) (put_stock (s\<lparr>s_NumReserved := s_NumReserved s + 1\<rparr>) (burn OrderSeq ?d)) = None"
    using reservableD(1) [OF ok] by (simp add: row_simps del: burn.simps)
  have "orders ?d = orders (committed g)"
    using cust by (auto simp: row_simps put_customer_def)
  then have "length (orders (committed g')) = length (orders (committed g)) + 1"
    using length_put_order [OF new] g'(2) by (simp add: row_simps put_stock_def del: burn.simps)
  moreover have "reserved_of (rp_ProductID p) (committed g') = reserved_of (rp_ProductID p) (committed g) + 1"
    using g'(2) s(2) find_key(5) [OF s(2)] by (simp add: row_simps stock_val_def)
  ultimately show ?thesis using g1 by (auto simp: stock_val_def find_stock_def)
qed

text \<open>A keyed reserve that finds nothing left answers so and gives its key back.\<close>

lemma sold_out_releases:
  assumes "keyed p" "locks g = []" "ready (committed g)" "find_idem (idem_key_of p) (committed g) = None"
    and l: "link_spec (rp_Claims p) (auto_env i g) = Reply (Inr c) ws sq"
    and s: "find_product (rp_ProductID p) (committed g) = Some q" "find_stock (rp_ProductID p) (committed g) = Some s"
      "s_Quantity s \<le> s_NumReserved s"
  shows "\<exists>g1. run [] i (idem_Reserve sum256 (arm_Reserve DirectResolve a) p) [] g = Some ([], Inl ErrOutOfStock, [], g1) \<and>
    find_idem (idem_key_of p) (committed g1) = None"
proof -
  let ?g = "claimed sum256 p g"
  have l': "link_spec (rp_Claims p) (auto_env i ?g) = Reply (Inr c) ws sq"
    unfolding l [symmetric] by (rule link_spec_customers) (simp_all add: auto_env_def)
  have cust: "ws = [] \<or> (\<exists>old c. ws = [WCustomer old c])"
    using link_spec_shape [OF _ l] assms(3) by (auto simp: ready_def)
  let ?d = "committed (install ws sq ?g)"
  have spec: "reserve_spec (rp_ProductID p) (c_ID c) (rp_ExpiresAt p) (clock ?g) ?d = (Inl ErrOutOfStock, ?d)"
    using cust s by (auto simp: reserve_spec_def row_simps)
  have free: "locks ?g = []" using assms(2) by simp
  obtain g' where g': "run [] i (arm_Reserve DirectResolve a p) [] ?g = Some ([], Inl ErrOutOfStock, [], g')"
    "idems (committed g') = idems ?d" "locks g' = []"
    using arm_Reserve_effect [OF free ready_claimed [OF assms(3)] l' spec] by blast
  have "find_idem (idem_key_of p) ?d = Some (claim_row sum256 p (clock g))"
    using cust by (auto simp: row_simps)
  then have "find_idem (idem_key_of p) (committed g') = Some (claim_row sum256 p (clock g))"
    using g'(2) by (simp add: find_idem_def)
  from run_first_failed [where inner = "arm_Reserve DirectResolve a", OF assms(1,2,4) g'(1,3) this] show ?thesis .
qed

end
