(* ===== verification/Orders.thy ===== *)
theory Orders
  imports Idempotency
begin

text \<open>
  internal/orders/service.go, status.go and sweeper.go: the order lifecycle. The payment
  gateway, the reserve strategy and the reservation TTL are the service's configuration;
  the process's clock is read where the code calls time.Now and passed as now.
\<close>

section \<open>The service\<close>

record payment_intent_params =
  pi_OrderID :: int
  pi_AmountInCents :: int
  pi_CustomerEmail :: string

record payment_intent =
  pi_ID :: string
  pi_ClientSecret :: string

record checkout_result =
  cr_Order :: order
  cr_PaymentIntentID :: string
  cr_ClientSecret :: string

record orders_svc =
  gateway :: "payment_intent_params \<Rightarrow> error + payment_intent"
  reserve_by :: "reserve_params \<Rightarrow> order prog"
  reservationTTL :: int

definition owns :: "string option \<Rightarrow> string \<Rightarrow> claims \<Rightarrow> bool" where
  "owns customerSub customerEmail cl =
     (case customerSub of
        Some s \<Rightarrow> if Subject cl \<noteq> [] then s = Subject cl
                  else customerEmail \<noteq> [] \<and> customerEmail = Email cl
      | None \<Rightarrow> customerEmail \<noteq> [] \<and> customerEmail = Email cl)"

definition owner_of :: "order_row \<Rightarrow> claims \<Rightarrow> bool" where
  "owner_of o' cl = owns (j_CustomerCognitoSub o') (j_CustomerEmail o') cl"

definition svc_GetOrder :: "int \<Rightarrow> claims \<Rightarrow> order_row prog" where
  "svc_GetOrder i cl =
     call (exec (FindOrderByID i)) (\<lambda>order. if \<not> owner_of order cl then throw ErrForbidden else ret order)"

definition svc_ListOrders :: "claims \<Rightarrow> int \<Rightarrow> int \<Rightarrow> list_order_row list prog" where
  "svc_ListOrders cl lim off =
     call (Link cl) (\<lambda>customer. exec (ListOrdersByCustomer (c_ID customer) lim off))"

definition svc_CreateOrder :: "orders_svc \<Rightarrow> int \<Rightarrow> int \<Rightarrow> claims \<Rightarrow> string \<Rightarrow> order prog" where
  "svc_CreateOrder s now productID cl key =
     reserve_by s \<lparr>rp_ProductID = productID, rp_Claims = cl, rp_ExpiresAt = now + reservationTTL s,
       rp_IdempotencyKey = key\<rparr>"

definition svc_Checkout :: "orders_svc \<Rightarrow> int \<Rightarrow> int \<Rightarrow> claims \<Rightarrow> checkout_result prog" where
  "svc_Checkout s now orderID cl =
     call (exec (FindOrderByID orderID)) (\<lambda>existing.
       if \<not> owner_of existing cl then throw ErrForbidden
       else if o_Status (j_Order existing) \<noteq> StatusPending then throw ErrOrderNotPending
       else
         (case gateway s \<lparr>pi_OrderID = o_ID (j_Order existing),
              pi_AmountInCents = o_TotalInCents (j_Order existing),
              pi_CustomerEmail = j_CustomerEmail existing\<rparr> of
            Inl e \<Rightarrow> throw (Wrapped (''create payment intent for order '' @ show_int orderID) e)
          | Inr intent \<Rightarrow>
              handle (exec (MarkOrderAwaitingPayment orderID (pi_ID intent) (now + reservationTTL s)))
                (\<lambda>r. case r of
                   Inl e \<Rightarrow> if errors_Is e ErrNoRows then throw ErrOrderNotPending else throw e
                 | Inr order \<Rightarrow>
                     ret \<lparr>cr_Order = order, cr_PaymentIntentID = pi_ID intent,
                          cr_ClientSecret = pi_ClientSecret intent\<rparr>)))"

definition svc_CancelOrder :: "int \<Rightarrow> claims \<Rightarrow> order prog" where
  "svc_CancelOrder orderID cl =
     in_tx (call (exec (FindOrderByID orderID)) (\<lambda>existing.
       if \<not> owner_of existing cl then throw ErrForbidden
       else handle (exec (CancelPendingOrder orderID)) (\<lambda>r. case r of
           Inl e \<Rightarrow> if errors_Is e ErrNoRows then throw ErrOrderNotPending else throw e
         | Inr order \<Rightarrow>
             call (exec (ReleaseStock (o_ProductID order))) (\<lambda>_. call commit (\<lambda>_. ret order)))))"

text \<open>classifyUnfulfillable: None is Go's nil error.\<close>

definition classifyUnfulfillable :: "order \<Rightarrow> error option" where
  "classifyUnfulfillable order =
     (let i = show_int (o_ID order); st = o_Status order in
      if st = StatusCompleted then None
      else if st = StatusExpired \<or> st = StatusCancelled
      then Some (Noted ErrPaidButNotFulfillable (''order '' @ i @ '' is '' @ st))
      else if st = StatusFailed
      then Some (Noted ErrPaidButNotFulfillable (''order '' @ i @ '' was marked failed but its payment succeeded''))
      else if st = StatusPending \<or> st = StatusAwaitingPayment
      then Some (Noted ErrPaidButNotFulfillable (''order '' @ i @ '' is unexpectedly '' @ st))
      else Some (Noted ErrPaidButNotFulfillable (''order '' @ i @ '' has unrecognized status '' @ quoted st)))"

definition svc_FulfillPayment :: "string \<Rightarrow> unit prog" where
  "svc_FulfillPayment intentID =
     in_tx (call (exec (FindOrderByPaymentIntentID intentID)) (\<lambda>existing.
       handle (exec (CompleteOrder (o_ID (j_Order existing)))) (\<lambda>r. case r of
          Inl e \<Rightarrow>
            if errors_Is e ErrNoRows
            then call (exec (FindOrderByPaymentIntentID intentID)) (\<lambda>current.
                   case classifyUnfulfillable (j_Order current) of None \<Rightarrow> ret () | Some x \<Rightarrow> throw x)
            else throw e
        | Inr order \<Rightarrow> call (exec (CommitStock (o_ProductID order))) (\<lambda>_. commit))))"

definition svc_FailPayment :: "string \<Rightarrow> unit prog" where
  "svc_FailPayment intentID =
     in_tx (call (exec (FindOrderByPaymentIntentID intentID)) (\<lambda>existing.
       handle (exec (FailOrder (o_ID (j_Order existing)))) (\<lambda>r. case r of
          Inl e \<Rightarrow> if errors_Is e ErrNoRows then ret () else throw e
        | Inr order \<Rightarrow> call (exec (ReleaseStock (o_ProductID order))) (\<lambda>_. commit))))"

primrec release_each :: "order list \<Rightarrow> unit prog" where
  "release_each [] = ret ()"
| "release_each (order # os) = call (exec (ReleaseStock (o_ProductID order))) (\<lambda>_. release_each os)"

definition svc_SweepExpired :: "int \<Rightarrow> int prog" where
  "svc_SweepExpired batchSize =
     in_tx (call (exec (ExpireOrders batchSize)) (\<lambda>expired.
       if expired = [] then ret 0
       else call (release_each expired) (\<lambda>_. call commit (\<lambda>_. ret (int (length expired))))))"

section \<open>The sweeper's loop\<close>

text \<open>
  sweepAll calls SweepExpired until a batch comes back short or fails. The loop has no
  bound of its own: fuel bounds the model, and the result says whether the loop returned.
\<close>

primrec sweepAll :: "nat \<Rightarrow> int \<Rightarrow> bool prog" where
  "sweepAll 0 batchSize = ret False"
| "sweepAll (Suc fuel) batchSize =
     handle (svc_SweepExpired batchSize) (\<lambda>r. case r of
        Inl e \<Rightarrow> ret True
      | Inr released \<Rightarrow> if released < batchSize then ret True else sweepAll fuel batchSize)"

section \<open>Every operation is safe\<close>

lemma triple_neutral_call:
  "sound_stmt s \<Longrightarrow> neutral_stmt s \<Longrightarrow> (\<And>x. triple neutral (k x) (\<lambda>r vs. True)) \<Longrightarrow>
     triple neutral (call (exec s) k) (\<lambda>r vs. True)"
  by (rule triple_call [OF triple_neutral_exec]) auto

lemma in_tx_neutral_closed: "triple neutral body (\<lambda>r vs. True) \<Longrightarrow> closed (in_tx body)"
  by (rule in_tx_closed, erule triple_weaken) auto

lemma triple_true_throw: "triple I (throw e) (\<lambda>r vs. True)" and triple_true_ret: "triple I (ret x) (\<lambda>r vs. True)"
  by (simp_all add: triple_throw triple_ret)

text \<open>A guarded status change, its no-row branch, and the stock change that must follow it.\<close>

definition left_live :: "order \<Rightarrow> version list \<Rightarrow> bool" where
  "left_live x vs = (\<exists>vs0 r st. vs = vs0 @ [WOrder (Some r) x] \<and> neutral vs0 \<and> live_status (o_Status r) \<and>
     x = r\<lparr>o_Status := st\<rparr> \<and> (st = StatusCancelled \<or> st = StatusFailed \<or> st = StatusExpired))"

definition sold :: "order \<Rightarrow> version list \<Rightarrow> bool" where
  "sold x vs = (\<exists>vs0 r. vs = vs0 @ [WOrder (Some r) x] \<and> neutral vs0 \<and> o_Status r = StatusAwaitingPayment \<and>
     x = r\<lparr>o_Status := StatusCompleted\<rparr>)"

lemma triple_guarded:
  assumes "sound_stmt s"
    and "\<And>e x ws sq. s e = Reply (Inr x) ws sq \<Longrightarrow> \<exists>r. ws = [WOrder (Some r) x] \<and> Q r x"
    and "\<And>e ws sq. s e = Reply (Inl ErrNoRows) ws sq \<Longrightarrow> ws = []"
    and "\<And>x. triple (\<lambda>vs. \<exists>vs0 r. vs = vs0 @ [WOrder (Some r) x] \<and> neutral vs0 \<and> Q r x) (k (Inr x)) (\<lambda>r vs. True)"
    and "\<And>e. triple neutral (k (Inl e)) (\<lambda>r vs. True)"
  shows "triple neutral (handle (exec s) k) (\<lambda>r vs. True)"
proof (rule triple_handle)
  show "triple neutral (exec s) (\<lambda>r vs. case r of Inl e \<Rightarrow> neutral vs
      | Inr x \<Rightarrow> \<exists>vs0 r. vs = vs0 @ [WOrder (Some r) x] \<and> neutral vs0 \<and> Q r x)"
    by (rule triple_exec [OF assms(1)]) (use assms(2,3) in \<open>fastforce split: sum.split\<close>)
next
  fix r :: "error + order"
  show "triple (\<lambda>vs. case r of Inl e \<Rightarrow> neutral vs
      | Inr x \<Rightarrow> \<exists>vs0 r. vs = vs0 @ [WOrder (Some r) x] \<and> neutral vs0 \<and> Q r x) (k r) (\<lambda>r vs. True)"
    using assms(4,5) by (cases r) simp_all
qed

lemma update_order_no_rows:
  "update_order i gd f e = Reply (Inl ErrNoRows) ws sq \<Longrightarrow> ws = []"
  by (auto simp: update_order_def reply_defs split: option.splits if_splits)

lemma triple_release_commit:
  assumes "\<And>vs. I vs \<Longrightarrow> left_live x vs"
    and "triple balanced k (\<lambda>r vs. True)"
  shows "triple I (call (exec (ReleaseStock (o_ProductID x))) (\<lambda>_. k)) (\<lambda>r vs. True)"
proof (rule triple_call [where J = "\<lambda>r vs. case r of Inl _ \<Rightarrow> True | Inr _ \<Rightarrow> balanced vs"])
  show "triple I (exec (ReleaseStock (o_ProductID x))) (\<lambda>r vs. case r of Inl _ \<Rightarrow> True | Inr _ \<Rightarrow> balanced vs)"
    by (rule triple_exec [OF sound_stock(3)])
      (auto simp: left_live_def balanced_neutral_append balanced_release_pair split: sum.split
        dest!: assms(1) stock_effects(2))
qed (use assms(2) in simp_all)

lemma triple_sale_commit:
  "triple (sold x) (call (exec (CommitStock (o_ProductID x))) (\<lambda>_. commit)) (\<lambda>r vs. True)"
proof (rule triple_call [where J = "\<lambda>r vs. case r of Inl _ \<Rightarrow> True | Inr _ \<Rightarrow> balanced vs"])
  show "triple (sold x) (exec (CommitStock (o_ProductID x))) (\<lambda>r vs. case r of Inl _ \<Rightarrow> True | Inr _ \<Rightarrow> balanced vs)"
    by (rule triple_exec [OF sound_stock(2)])
      (auto simp: sold_def balanced_neutral_append balanced_commit_pair split: sum.split
        dest!: stock_effects(3))
qed (auto intro: triple_commit)

lemma closed_CancelOrder: "closed (svc_CancelOrder i cl)"
  unfolding svc_CancelOrder_def
proof (intro in_tx_neutral_closed triple_neutral_call sound_reads neutral_reads)
  fix x
  have "triple neutral (handle (exec (CancelPendingOrder i)) (\<lambda>r. case r of
           Inl e \<Rightarrow> if errors_Is e ErrNoRows then throw ErrOrderNotPending else throw e
         | Inr order \<Rightarrow> call (exec (ReleaseStock (o_ProductID order))) (\<lambda>_. call commit (\<lambda>_. ret order)))) (\<lambda>r vs. True)"
  proof (rule triple_guarded [OF sound_orders(2) order_effects(1)])
    show "triple (\<lambda>vs. \<exists>vs0 r. vs = vs0 @ [WOrder (Some r) x] \<and> neutral vs0 \<and>
        o_Status r = StatusPending \<and> x = r\<lparr>o_Status := StatusCancelled\<rparr>)
      (case Inr x of Inl e \<Rightarrow> if errors_Is e ErrNoRows then throw ErrOrderNotPending else throw e
         | Inr order \<Rightarrow> call (exec (ReleaseStock (o_ProductID order))) (\<lambda>_. call commit (\<lambda>_. ret order))) (\<lambda>r vs. True)" for x
      unfolding sum.case
      by (rule triple_release_commit) (fastforce simp: left_live_def intro: triple_commit_ret)+
  qed (auto simp: CancelPendingOrder_def intro: update_order_no_rows triple_true_throw)
  then show "triple neutral (if \<not> owner_of x cl then throw ErrForbidden
       else handle (exec (CancelPendingOrder i)) (\<lambda>r. case r of
           Inl e \<Rightarrow> if errors_Is e ErrNoRows then throw ErrOrderNotPending else throw e
         | Inr order \<Rightarrow> call (exec (ReleaseStock (o_ProductID order))) (\<lambda>_. call commit (\<lambda>_. ret order)))) (\<lambda>r vs. True)"
    by (simp add: triple_true_throw)
qed

lemma closed_FailPayment: "closed (svc_FailPayment t)"
  unfolding svc_FailPayment_def
proof (intro in_tx_neutral_closed triple_neutral_call sound_reads neutral_reads)
  fix x
  show "triple neutral (handle (exec (FailOrder (o_ID (j_Order x)))) (\<lambda>r. case r of
          Inl e \<Rightarrow> if errors_Is e ErrNoRows then ret () else throw e
        | Inr order \<Rightarrow> call (exec (ReleaseStock (o_ProductID order))) (\<lambda>_. commit))) (\<lambda>r vs. True)"
  proof (rule triple_guarded [OF sound_orders(3) order_effects(3)])
    show "triple (\<lambda>vs. \<exists>vs0 r. vs = vs0 @ [WOrder (Some r) x] \<and> neutral vs0 \<and>
        o_Status r = StatusAwaitingPayment \<and> x = r\<lparr>o_Status := StatusFailed\<rparr>)
      (case Inr x of Inl e \<Rightarrow> if errors_Is e ErrNoRows then ret () else throw e
        | Inr order \<Rightarrow> call (exec (ReleaseStock (o_ProductID order))) (\<lambda>_. commit)) (\<lambda>r vs. True)" for x
      unfolding sum.case
      by (rule triple_release_commit) (fastforce simp: left_live_def intro: triple_commit)+
  qed (auto simp: FailOrder_def intro: update_order_no_rows triple_true_throw triple_true_ret)
qed

lemma closed_FulfillPayment: "closed (svc_FulfillPayment t)"
  unfolding svc_FulfillPayment_def
proof (intro in_tx_neutral_closed triple_neutral_call sound_reads neutral_reads)
  fix x
  show "triple neutral (handle (exec (CompleteOrder (o_ID (j_Order x)))) (\<lambda>r. case r of
          Inl e \<Rightarrow>
            if errors_Is e ErrNoRows
            then call (exec (FindOrderByPaymentIntentID t)) (\<lambda>current.
                   case classifyUnfulfillable (j_Order current) of None \<Rightarrow> ret () | Some x \<Rightarrow> throw x)
            else throw e
        | Inr order \<Rightarrow> call (exec (CommitStock (o_ProductID order))) (\<lambda>_. commit))) (\<lambda>r vs. True)"
  proof (rule triple_guarded [OF sound_orders(1) order_effects(2)])
    show "triple (\<lambda>vs. \<exists>vs0 r. vs = vs0 @ [WOrder (Some r) x] \<and> neutral vs0 \<and>
        o_Status r = StatusAwaitingPayment \<and> x = r\<lparr>o_Status := StatusCompleted\<rparr>)
      (case Inr x of Inl e \<Rightarrow>
            if errors_Is e ErrNoRows
            then call (exec (FindOrderByPaymentIntentID t)) (\<lambda>current.
                   case classifyUnfulfillable (j_Order current) of None \<Rightarrow> ret () | Some x \<Rightarrow> throw x)
            else throw e
        | Inr order \<Rightarrow> call (exec (CommitStock (o_ProductID order))) (\<lambda>_. commit)) (\<lambda>r vs. True)" for x
      unfolding sum.case
      by (rule triple_weaken [OF triple_sale_commit]) (auto simp: sold_def)
  qed (auto simp: CompleteOrder_def intro!: triple_true_throw triple_true_ret triple_neutral_call
      sound_reads neutral_reads intro: update_order_no_rows split: option.split)
qed


section \<open>The sweep releases exactly what it expires\<close>

definition products_of :: "int \<Rightarrow> order list \<Rightarrow> int" where
  "products_of p os = int (length (filter (\<lambda>r. o_ProductID r = p) os))"

lemma products_of_simps [simp]:
  "products_of p [] = 0"
  "products_of p (r # os) = of_bool (o_ProductID r = p) + products_of p os"
  by (simp_all add: products_of_def)

text \<open>owing os vs: the versions vs are balanced but for one release for each order of os.\<close>

definition owing :: "order list \<Rightarrow> version list \<Rightarrow> bool" where
  "owing os vs =
     ((\<forall>p. deltas_stock s_NumReserved p vs = deltas_orders (is_live p) vs + products_of p os) \<and>
      (\<forall>p. deltas_stock s_Quantity p vs = 0 \<and> deltas_orders (is_sold p) vs = 0) \<and>
      (\<forall>r. WOrder None r \<notin> set vs))"

lemma owing_Nil: "owing [] vs \<Longrightarrow> balanced vs"
  by (auto simp: owing_def balanced_def)

lemma owing_release:
  "owing (x # os) vs \<Longrightarrow> s_ProductID s = o_ProductID x \<Longrightarrow>
     owing os (vs @ [WStock (Some s) (s\<lparr>s_NumReserved := s_NumReserved s - 1\<rparr>)])"
  by (auto simp: owing_def)

lemma owing_expired:
  "\<forall>r \<in> set rs. live_status (o_Status r) \<Longrightarrow>
     owing (map expire_order rs) (map (\<lambda>r. WOrder (Some r) (expire_order r)) rs)"
proof -
  assume live: "\<forall>r \<in> set rs. live_status (o_Status r)"
  have "deltas_orders (is_live p) (map (\<lambda>r. WOrder (Some r) (expire_order r)) rs) = - products_of p (map expire_order rs)"
    for p using live by (induction rs) (auto simp: is_live_def expire_order_def)
  moreover have "deltas_orders (is_sold p) (map (\<lambda>r. WOrder (Some r) (expire_order r)) rs) = 0"
    for p using live by (induction rs) (auto simp: is_sold_def expire_order_def live_status_def)
  moreover have "deltas_stock f p (map (\<lambda>r. WOrder (Some r) (expire_order r)) rs) = 0" for f p
    by (induction rs) auto
  ultimately show ?thesis by (auto simp: owing_def)
qed

lemma owing_neutral: "neutral us \<Longrightarrow> owing os vs \<Longrightarrow> owing os (us @ vs)"
  by (auto simp: owing_def neutral_deltas)

lemma triple_release_each:
  "triple (owing os) (release_each os) (\<lambda>r vs. case r of Inl _ \<Rightarrow> True | Inr _ \<Rightarrow> balanced vs)"
proof (induction os)
  case Nil
  then show ?case by (auto intro!: triple_ret owing_Nil)
next
  case (Cons x os)
  have "triple (owing (x # os)) (exec (ReleaseStock (o_ProductID x)))
    (\<lambda>r vs. case r of Inl _ \<Rightarrow> True | Inr _ \<Rightarrow> owing os vs)"
    by (rule triple_exec [OF sound_stock(3)])
      (auto split: sum.split dest!: stock_effects(2) intro: owing_release)
  then show ?case by (simp, rule triple_call) (use Cons in auto)
qed

lemma closed_SweepExpired: "closed (svc_SweepExpired b)"
  unfolding svc_SweepExpired_def
proof (rule in_tx_neutral_closed, rule triple_call)
  show "triple neutral (exec (ExpireOrders b)) (\<lambda>r vs. case r of Inl _ \<Rightarrow> True | Inr os \<Rightarrow> owing os vs)"
  proof (rule triple_exec [OF sound_ExpireOrders])
    fix vs e r ws sq
    assume "neutral vs" "ExpireOrders b e = Reply r ws sq"
    then show "case r of Inl _ \<Rightarrow> True | Inr os \<Rightarrow> owing os (vs @ ws)"
      using owing_expired [of "expire_batch b e"] expire_batch_live
      by (auto simp: ExpireOrders_def reply_defs intro!: owing_neutral split: if_splits)
  qed
next
  fix expired
  show "triple (\<lambda>vs. case Inr expired of Inl _ \<Rightarrow> True | Inr os \<Rightarrow> owing os vs)
     (if expired = [] then ret 0
       else call (release_each expired) (\<lambda>_. call commit (\<lambda>_. ret (int (length expired))))) (\<lambda>r vs. True)"
  proof (cases "expired = []")
    case False
    have "triple (owing expired) (call (release_each expired) (\<lambda>_. call commit (\<lambda>_. ret (int (length expired)))))
      (\<lambda>r vs. True)"
      by (rule triple_call [OF triple_release_each]) (auto intro: triple_commit_ret)
    with False show ?thesis by simp
  qed (simp add: triple_true_ret)
qed auto

section \<open>The rest of the service on the pool\<close>

lemma quiet_GetOrder: "quiet (svc_GetOrder i cl)"
  unfolding svc_GetOrder_def by (auto intro!: good_intros)

lemma quiet_ListOrders: "quiet (svc_ListOrders cl lim off)"
  unfolding svc_ListOrders_def by (auto intro!: good_intros)

lemma pooled_Checkout: "pooled (svc_Checkout s now i cl)"
  unfolding svc_Checkout_def
  by (rule pooled_call [OF pooled_neutral [OF sound_reads(4) neutral_reads(4)]])
    (auto intro!: pooled_handle pooled_exec pooled_throw pooled_ret sound_inserts balanced_inserts split: sum.split)

lemma closed_sweepAll: "closed (sweepAll fuel b)"
proof (induction fuel)
  case (Suc fuel)
  then show ?case
    by (auto intro!: closed_handle closed_SweepExpired closed_ret split: sum.split)
qed (simp add: closed_ret)

section \<open>The sweeper's job\<close>

text \<open>Run: sweepAll on every tick; fuel bounds each turn's loop.\<close>

definition Sweeper_Run :: "nat \<Rightarrow> int \<Rightarrow> unit tick list \<Rightarrow> bool prog" where
  "Sweeper_Run fuel batchSize = ticker_loop (\<lambda>_. discard (sweepAll fuel batchSize))"

lemma pooled_Sweeper_Run: "pooled (Sweeper_Run fuel b ss)"
  unfolding Sweeper_Run_def by (intro good_intros closed_pooled closed_sweepAll)

end
