(* ===== verification/OrdersSpec.thy ===== *)
theory OrdersSpec
  imports Orders
begin

text \<open>
  What each operation of the orders service does when it runs alone: the specification as a
  function from the database to the result and the new database, and the lemma that the
  operation, statement by statement, computes it (every branch, the failures included).
\<close>

section \<open>Live orders have their reservation\<close>

lemma live_order_reserved:
  assumes "db_inv d" "find_order i d = Some r" "live_status (o_Status r)"
  obtains s where "find_stock (o_ProductID r) d = Some s" "0 < s_NumReserved s" "stock_check s"
proof -
  have r: "r \<in> set (orders d)" using assms(2) by (auto simp: find_order_def dest: find_by_SomeD)
  then obtain s where s: "find_stock (o_ProductID r) d = Some s"
    using db_invD(5) [OF assms(1)] by (metis not_None_eq)
  have "r \<in> set (filter (is_live (o_ProductID r)) (orders d))"
    using r assms(3) by (simp add: is_live_def)
  then have "0 < length (filter (is_live (o_ProductID r)) (orders d))"
    by (metis length_pos_if_in_set)
  then have "0 < live_orders (o_ProductID r) d"
    by (simp add: count_orders_def)
  then have "0 < s_NumReserved s"
    using db_invD(4) [OF assms(1), of "o_ProductID r"] s by (simp add: stock_val_def)
  with s that assms(1) show thesis using find_stock_check by blast
qed

lemma release_reply:
  "find_stock p (view e) = Some s \<Longrightarrow> 0 < s_NumReserved s \<Longrightarrow> stock_check s \<Longrightarrow>
     ReleaseStock p e = Reply (Inr (s\<lparr>s_NumReserved := s_NumReserved s - 1\<rparr>))
       [WStock (Some s) (s\<lparr>s_NumReserved := s_NumReserved s - 1\<rparr>)] []"
  by (auto simp: stock_stmts reply_defs stock_check_def)

lemma commit_reply:
  "find_stock p (view e) = Some s \<Longrightarrow> 0 < s_NumReserved s \<Longrightarrow> stock_check s \<Longrightarrow>
     CommitStock p e =
       Reply (Inr (s\<lparr>s_Quantity := s_Quantity s - 1, s_NumReserved := s_NumReserved s - 1\<rparr>))
       [WStock (Some s) (s\<lparr>s_Quantity := s_Quantity s - 1, s_NumReserved := s_NumReserved s - 1\<rparr>)] []"
  by (auto simp: stock_stmts reply_defs stock_check_def)

text \<open>Give back one reserved unit; turn one reserved unit into a sale.\<close>

definition unreserve :: "int \<Rightarrow> db \<Rightarrow> db" where
  "unreserve p d = (case find_stock p d of None \<Rightarrow> d
     | Some s \<Rightarrow> put_stock (s\<lparr>s_NumReserved := s_NumReserved s - 1\<rparr>) d)"

definition sell :: "int \<Rightarrow> db \<Rightarrow> db" where
  "sell p d = (case find_stock p d of None \<Rightarrow> d
     | Some s \<Rightarrow> put_stock (s\<lparr>s_Quantity := s_Quantity s - 1, s_NumReserved := s_NumReserved s - 1\<rparr>) d)"

section \<open>GetOrder and CancelOrder\<close>

lemma run_GetOrder:
  "run [] i (svc_GetOrder k cl) [] g =
    Some ([], case Option.bind (find_order k (committed g)) (join_customer (committed g)) of
       None \<Rightarrow> Inl ErrNoRows
     | Some row \<Rightarrow> if owner_of row cl then Inr row else Inl ErrForbidden, [], g)"
  by (auto simp: svc_GetOrder_def prog_simps FindOrderByID_def reply_defs split: option.split)

definition cancel_spec :: "int \<Rightarrow> claims \<Rightarrow> db \<Rightarrow> (error + order) \<times> db" where
  "cancel_spec k cl d =
     (case Option.bind (find_order k d) (join_customer d) of
        None \<Rightarrow> (Inl ErrNoRows, d)
      | Some row \<Rightarrow>
          let r = j_Order row in
          if \<not> owner_of row cl then (Inl ErrForbidden, d)
          else if o_Status r \<noteq> StatusPending then (Inl ErrOrderNotPending, d)
          else (Inr (r\<lparr>o_Status := StatusCancelled\<rparr>),
                unreserve (o_ProductID r) (put_order (r\<lparr>o_Status := StatusCancelled\<rparr>) d)))"

lemma join_customer_order: "join_customer d r = Some row \<Longrightarrow> j_Order row = r"
  by (auto simp: join_customer_def)

lemma g_update_committed [simp]: "g\<lparr>committed := committed g\<rparr> = g"
  by simp

lemma run_CancelOrder:
  assumes "locks g = []" "db_inv (committed g)"
  shows "run [] i (svc_CancelOrder k cl) [] g =
    (let (r, d') = cancel_spec k cl (committed g) in Some ([], r, [], g\<lparr>committed := d'\<rparr>))"
proof (cases "Option.bind (find_order k (committed g)) (join_customer (committed g))")
  case None
  then show ?thesis
    using assms by (simp add: svc_CancelOrder_def cancel_spec_def prog_simps FindOrderByID_def reply_defs)
next
  case (Some row)
  then obtain r where r: "find_order k (committed g) = Some r" and j: "join_customer (committed g) r = Some row"
    by (auto simp: bind_eq_Some_conv)
  note row = join_customer_order [OF j]
  show ?thesis
  proof (cases "owner_of row cl \<and> o_Status r = StatusPending")
    case False
    with r j row assms show ?thesis
      by (auto simp: svc_CancelOrder_def cancel_spec_def prog_simps FindOrderByID_def reply_defs order_stmts)
  next
    case True
    with live_order_reserved [OF assms(2) r] obtain s
      where s: "find_stock (o_ProductID r) (committed g) = Some s" "0 < s_NumReserved s" "stock_check s"
      by auto
    with True r j row assms show ?thesis
      by (simp add: svc_CancelOrder_def cancel_spec_def prog_simps FindOrderByID_def reply_defs
          order_stmts release_reply row_simps unreserve_def Let_def)
  qed
qed

section \<open>Checkout\<close>

definition checkout_spec :: "orders_svc \<Rightarrow> int \<Rightarrow> int \<Rightarrow> claims \<Rightarrow> db \<Rightarrow> (error + checkout_result) \<times> db" where
  "checkout_spec s now k cl d =
     (case Option.bind (find_order k d) (join_customer d) of
        None \<Rightarrow> (Inl ErrNoRows, d)
      | Some row \<Rightarrow>
          let r = j_Order row in
          if \<not> owner_of row cl then (Inl ErrForbidden, d)
          else if o_Status r \<noteq> StatusPending then (Inl ErrOrderNotPending, d)
          else (case gateway s \<lparr>pi_OrderID = o_ID r, pi_AmountInCents = o_TotalInCents r,
                  pi_CustomerEmail = j_CustomerEmail row\<rparr> of
              Inl e \<Rightarrow> (Inl (Wrapped (''create payment intent for order '' @ show_int k) e), d)
            | Inr intent \<Rightarrow>
                if (\<exists>r' \<in> set (orders d). o_StripePaymentIntentID r' = Some (pi_ID intent) \<and> o_ID r' \<noteq> k)
                then (Inl UniqueViolation, d)
                else
                  let r' = r\<lparr>o_Status := StatusAwaitingPayment, o_StripePaymentIntentID := Some (pi_ID intent),
                             o_ExpiresAt := Some (now + reservationTTL s)\<rparr>
                  in (Inr \<lparr>cr_Order = r', cr_PaymentIntentID = pi_ID intent,
                          cr_ClientSecret = pi_ClientSecret intent\<rparr>, put_order r' d)))"

lemma run_Checkout:
  assumes "locks g = []"
  shows "run [] i (svc_Checkout s now k cl) [] g =
    (let (r, d') = checkout_spec s now k cl (committed g) in Some ([], r, [], g\<lparr>committed := d'\<rparr>))"
proof (cases "Option.bind (find_order k (committed g)) (join_customer (committed g))")
  case None
  then show ?thesis
    using assms by (simp add: svc_Checkout_def checkout_spec_def prog_simps FindOrderByID_def reply_defs)
next
  case (Some row)
  then obtain r where r: "find_order k (committed g) = Some r" and j: "join_customer (committed g) r = Some row"
    by (auto simp: bind_eq_Some_conv)
  note row = join_customer_order [OF j]
  show ?thesis
  proof (cases "gateway s \<lparr>pi_OrderID = o_ID r, pi_AmountInCents = o_TotalInCents r,
      pi_CustomerEmail = j_CustomerEmail row\<rparr>")
    case (Inl e)
    with r j row assms show ?thesis
      by (auto simp: svc_Checkout_def checkout_spec_def prog_simps FindOrderByID_def reply_defs Let_def)
  next
    case (Inr intent)
    with r j row assms show ?thesis
      by (auto simp: svc_Checkout_def checkout_spec_def prog_simps FindOrderByID_def reply_defs Let_def
          MarkOrderAwaitingPayment_def install_def)
  qed
qed


section \<open>FulfillPayment and FailPayment\<close>

text \<open>
  These two also run below the worker's open transaction, which holds the lock of its event.
\<close>

definition clear :: "owner \<Rightarrow> gstate \<Rightarrow> bool" where
  "clear me g = (\<forall>(k, ow) \<in> set (locks g). ow \<noteq> me \<and> (\<exists>v. k = KEvent v))"

lemma clear_free [simp]: "locks g = [] \<Longrightarrow> clear me g"
  by (simp add: clear_def)

lemma clear_not_blocked [simp]:
  "clear me g \<Longrightarrow> \<not> blocked me [WOrder a b] g" "clear me g \<Longrightarrow> \<not> blocked me [WStock c d] g"
  by (auto simp: clear_def blocked_def locked_by_other_def list_ex_iff key_list_def split: option.splits)

lemma clear_release [simp]: "clear me g \<Longrightarrow> release me g = g"
  by (simp add: clear_def release_def filter_id_conv split_beta)

definition fulfill_spec :: "string \<Rightarrow> db \<Rightarrow> (error + unit) \<times> db" where
  "fulfill_spec t d =
     (case Option.bind (by_intent t d) (join_customer d) of
        None \<Rightarrow> (Inl ErrNoRows, d)
      | Some row \<Rightarrow>
          let r = j_Order row in
          if o_Status r = StatusAwaitingPayment
          then (Inr (), sell (o_ProductID r) (put_order (r\<lparr>o_Status := StatusCompleted\<rparr>) d))
          else (case classifyUnfulfillable r of None \<Rightarrow> (Inr (), d) | Some e \<Rightarrow> (Inl e, d)))"

definition fail_spec :: "string \<Rightarrow> db \<Rightarrow> (error + unit) \<times> db" where
  "fail_spec t d =
     (case Option.bind (by_intent t d) (join_customer d) of
        None \<Rightarrow> (Inl ErrNoRows, d)
      | Some row \<Rightarrow>
          let r = j_Order row in
          if o_Status r = StatusAwaitingPayment
          then (Inr (), unreserve (o_ProductID r) (put_order (r\<lparr>o_Status := StatusFailed\<rparr>) d))
          else (Inr (), d))"

lemma by_intent_find:
  "db_inv d \<Longrightarrow> by_intent t d = Some r \<Longrightarrow> find_order (o_ID r) d = Some r"
  by (auto simp: by_intent_def find_order_def dest!: find_SomeD intro: find_by_distinct db_invD(1))

lemma run_FulfillPayment:
  assumes "clear (i, Suc (length st)) g" "db_inv (committed g)"
  shows "run [] i (svc_FulfillPayment t) st g =
    (let (r, d') = fulfill_spec t (committed g) in Some ([], r, st, g\<lparr>committed := d'\<rparr>))"
proof (cases "Option.bind (by_intent t (committed g)) (join_customer (committed g))")
  case None
  then show ?thesis
    using assms by (simp add: svc_FulfillPayment_def fulfill_spec_def prog_simps FindOrderByPaymentIntentID_def reply_defs)
next
  case (Some row)
  then obtain r where b: "by_intent t (committed g) = Some r" and j: "join_customer (committed g) r = Some row"
    by (auto simp: bind_eq_Some_conv)
  note row = join_customer_order [OF j]
  note r = by_intent_find [OF assms(2) b]
  show ?thesis
  proof (cases "o_Status r = StatusAwaitingPayment")
    case False
    with r b j row assms show ?thesis
      by (auto simp: svc_FulfillPayment_def fulfill_spec_def prog_simps FindOrderByPaymentIntentID_def
          reply_defs order_stmts split: option.split)
  next
    case True
    with live_order_reserved [OF assms(2) r] obtain s
      where s: "find_stock (o_ProductID r) (committed g) = Some s" "0 < s_NumReserved s" "stock_check s"
      by auto
    with True r b j row assms show ?thesis
      by (simp add: svc_FulfillPayment_def fulfill_spec_def prog_simps FindOrderByPaymentIntentID_def reply_defs
          order_stmts commit_reply row_simps sell_def Let_def)
  qed
qed

lemma run_FailPayment:
  assumes "clear (i, Suc (length st)) g" "db_inv (committed g)"
  shows "run [] i (svc_FailPayment t) st g =
    (let (r, d') = fail_spec t (committed g) in Some ([], r, st, g\<lparr>committed := d'\<rparr>))"
proof (cases "Option.bind (by_intent t (committed g)) (join_customer (committed g))")
  case None
  then show ?thesis
    using assms by (simp add: svc_FailPayment_def fail_spec_def prog_simps FindOrderByPaymentIntentID_def reply_defs)
next
  case (Some row)
  then obtain r where b: "by_intent t (committed g) = Some r" and j: "join_customer (committed g) r = Some row"
    by (auto simp: bind_eq_Some_conv)
  note row = join_customer_order [OF j]
  note r = by_intent_find [OF assms(2) b]
  show ?thesis
  proof (cases "o_Status r = StatusAwaitingPayment")
    case False
    with r b j row assms show ?thesis
      by (auto simp: svc_FailPayment_def fail_spec_def prog_simps FindOrderByPaymentIntentID_def
          reply_defs order_stmts split: option.split)
  next
    case True
    with live_order_reserved [OF assms(2) r] obtain s
      where s: "find_stock (o_ProductID r) (committed g) = Some s" "0 < s_NumReserved s" "stock_check s"
      by auto
    with True r b j row assms show ?thesis
      by (simp add: svc_FailPayment_def fail_spec_def prog_simps FindOrderByPaymentIntentID_def reply_defs
          order_stmts release_reply row_simps unreserve_def Let_def)
  qed
qed

text \<open>Redelivery: what a second event for the same intent does after the first.\<close>

lemma find_put_by_same:
  "List.find P xs = Some x \<Longrightarrow> P y \<Longrightarrow> key y = key x \<Longrightarrow> distinct (map key xs) \<Longrightarrow>
     List.find P (put_by key y xs) = Some y"
proof (induction xs)
  case (Cons a xs)
  show ?case
  proof (cases "P a")
    case True
    with Cons show ?thesis by auto
  next
    case False
    with Cons.prems have "x \<in> set xs" by (auto dest: find_SomeD)
    with Cons.prems have "key a \<noteq> key y" by (auto simp: image_iff)
    with False Cons show ?thesis by simp
  qed
qed simp

lemma by_intent_put:
  assumes "db_inv d" "by_intent t d = Some r"
  shows "by_intent t (put_order (r\<lparr>o_Status := st\<rparr>) d) = Some (r\<lparr>o_Status := st\<rparr>)"
  using assms(2) db_invD(1) [OF assms(1)] unfolding by_intent_def put_order_def
  by (simp, intro find_put_by_same) (auto dest: find_SomeD)

lemma by_intent_frame [simp]:
  "by_intent t (unreserve p d) = by_intent t d" "by_intent t (sell p d) = by_intent t d"
  "join_customer (unreserve p d) r = join_customer d r" "join_customer (sell p d) r = join_customer d r"
  "join_customer (put_order q d) r = join_customer d r"
  by (simp_all add: by_intent_def unreserve_def sell_def put_stock_def join_customer_def row_simps
      find_customer_def put_order_def split: option.split)

lemma join_customer_status:
  "join_customer d r = Some row \<Longrightarrow> \<exists>row'. join_customer d (r\<lparr>o_Status := st\<rparr>) = Some row' \<and> j_Order row' = r\<lparr>o_Status := st\<rparr>"
  by (auto simp: join_customer_def)

lemma fulfill_again:
  assumes "db_inv d" "fulfill_spec t d = (Inr (), d')"
  shows "fulfill_spec t d' = (Inr (), d')"
proof -
  from assms(2) obtain r row where b: "by_intent t d = Some r" and j: "join_customer d r = Some row"
    by (auto simp: fulfill_spec_def bind_eq_Some_conv split: option.splits)
  note row = join_customer_order [OF j]
  show ?thesis
  proof (cases "o_Status r = StatusAwaitingPayment")
    case False
    with assms(2) b j row show ?thesis
      by (auto simp: fulfill_spec_def split: option.splits)
  next
    case True
    with assms(2) b j row have "d' = sell (o_ProductID r) (put_order (r\<lparr>o_Status := StatusCompleted\<rparr>) d)"
      by (simp add: fulfill_spec_def)
    moreover obtain row' where "join_customer d (r\<lparr>o_Status := StatusCompleted\<rparr>) = Some row'"
      "j_Order row' = r\<lparr>o_Status := StatusCompleted\<rparr>"
      using join_customer_status [OF j] by blast
    ultimately show ?thesis
      using by_intent_put [OF assms(1) b]
      by (simp add: fulfill_spec_def classifyUnfulfillable_def)
  qed
qed

lemma fail_again:
  assumes "db_inv d" "fail_spec t d = (Inr (), d')"
  shows "fail_spec t d' = (Inr (), d')"
proof -
  from assms(2) obtain r row where b: "by_intent t d = Some r" and j: "join_customer d r = Some row"
    by (auto simp: fail_spec_def bind_eq_Some_conv split: option.splits)
  note row = join_customer_order [OF j]
  show ?thesis
  proof (cases "o_Status r = StatusAwaitingPayment")
    case False
    with assms(2) b j row show ?thesis by (auto simp: fail_spec_def)
  next
    case True
    with assms(2) b j row have "d' = unreserve (o_ProductID r) (put_order (r\<lparr>o_Status := StatusFailed\<rparr>) d)"
      by (simp add: fail_spec_def)
    moreover obtain row' where "join_customer d (r\<lparr>o_Status := StatusFailed\<rparr>) = Some row'"
      "j_Order row' = r\<lparr>o_Status := StatusFailed\<rparr>"
      using join_customer_status [OF j] by blast
    ultimately show ?thesis
      using by_intent_put [OF assms(1) b] by (simp add: fail_spec_def)
  qed
qed

end
