(* ===== verification/Sweep.thy ===== *)
theory Sweep
  imports OrdersSpec
begin

text \<open>
  The sweeper run alone (service.go SweepExpired, sweeper.go sweepAll): one sweep expires
  exactly the batch it claims and gives back exactly one unit per order of the batch; it
  cannot fail on a healthy database; the loop ends with nothing left to expire when the
  batch size is positive, and never ends when it is zero.
\<close>

section \<open>Giving the units back\<close>

primrec rel_versions :: "order list \<Rightarrow> db \<Rightarrow> version list" where
  "rel_versions [] v = []"
| "rel_versions (x # os) v =
     (case find_stock (o_ProductID x) v of
        None \<Rightarrow> []
      | Some s \<Rightarrow>
          let s' = s\<lparr>s_NumReserved := s_NumReserved s - 1\<rparr>
          in WStock (Some s) s' # rel_versions os (put_stock s' v))"

definition covered :: "order list \<Rightarrow> db \<Rightarrow> bool" where
  "covered os v =
     ((\<forall>p s. find_stock p v = Some s \<longrightarrow> stock_check s) \<and> (\<forall>p. products_of p os \<le> reserved_of p v))"

lemma products_of_nonneg [simp]: "0 \<le> products_of p os"
  by (simp add: products_of_def)

lemma covered_Cons:
  assumes "covered (x # os) v"
  obtains s where "find_stock (o_ProductID x) v = Some s" "0 < s_NumReserved s" "stock_check s"
    and "covered os (put_stock (s\<lparr>s_NumReserved := s_NumReserved s - 1\<rparr>) v)"
proof -
  have "1 \<le> reserved_of (o_ProductID x) v"
    using assms products_of_nonneg [of "o_ProductID x" os] unfolding covered_def
    by (smt (verit) products_of_simps(2) of_bool_eq(2))
  then obtain s where s: "find_stock (o_ProductID x) v = Some s" "0 < s_NumReserved s"
    by (auto simp: stock_val_def split: option.splits)
  then have check: "stock_check s" using assms by (simp add: covered_def)
  have key: "s_ProductID s = o_ProductID x" using s(1) by (rule find_key)
  have "products_of p os \<le> reserved_of p (put_stock (s\<lparr>s_NumReserved := s_NumReserved s - 1\<rparr>) v)" for p
  proof -
    have "products_of p (x # os) \<le> reserved_of p v" using assms by (simp add: covered_def)
    then show ?thesis using s(1) key by (auto simp: stock_val_def row_simps)
  qed
  moreover have "stock_check (s\<lparr>s_NumReserved := s_NumReserved s - 1\<rparr>)"
    using check s(2) by (simp add: stock_check_def)
  ultimately have "covered os (put_stock (s\<lparr>s_NumReserved := s_NumReserved s - 1\<rparr>) v)"
    using assms by (auto simp: covered_def row_simps split: if_splits)
  with s check that show thesis by blast
qed

lemma rel_versions_effect:
  "covered os v \<Longrightarrow> reserved_of p (applys (rel_versions os v) v) = reserved_of p v - products_of p os \<and>
     quantity_of p (applys (rel_versions os v) v) = quantity_of p v"
proof (induction os arbitrary: v)
  case (Cons x os)
  from Cons.prems obtain s where s: "find_stock (o_ProductID x) v = Some s" "0 < s_NumReserved s" "stock_check s"
    and cov: "covered os (put_stock (s\<lparr>s_NumReserved := s_NumReserved s - 1\<rparr>) v)"
    by (rule covered_Cons)
  have "s_ProductID s = o_ProductID x" using s(1) by (rule find_key)
  with Cons.IH [OF cov] s(1) show ?case
    by (auto simp: stock_val_def row_simps Let_def)
qed simp

lemma put_stock_frame [simp]:
  "orders (put_stock s d) = orders d" "products (put_stock s d) = products d" "customers (put_stock s d) = customers d"
  by (simp_all add: put_stock_def)

lemma rel_versions_frame: "orders (applys (rel_versions os v) v) = orders v"
  by (induction os arbitrary: v) (auto simp: Let_def split: option.split)

definition unblocked :: "owner \<Rightarrow> gstate \<Rightarrow> bool" where
  "unblocked me g = (\<forall>k. \<not> locked_by_other me g k)"

lemma unblocked_simps [simp]:
  "unblocked me g \<Longrightarrow> \<not> blocked me ws g" "unblocked me (acquire me ws g) = unblocked me g"
  "locks g = [] \<Longrightarrow> unblocked me g"
  by (simp_all add: unblocked_def blocked_def list_ex_iff)

lemma run_release_each:
  assumes "tx_state t = TxLive" "unblocked (i, Suc (length ts)) g"
    and "covered os (applys (tx_writes t) (committed g))"
  shows "\<exists>g'. run [] i (release_each os) (t # ts) g =
      Some ([], Inr (), t\<lparr>tx_writes := tx_writes t @ rel_versions os (applys (tx_writes t) (committed g))\<rparr> # ts, g') \<and>
    committed g' = committed g \<and> release (i, Suc (length ts)) g' = release (i, Suc (length ts)) g"
  using assms
proof (induction os arbitrary: t g)
  case (Cons x os)
  let ?v = "applys (tx_writes t) (committed g)"
  from Cons.prems(3) obtain s where s: "find_stock (o_ProductID x) ?v = Some s" "0 < s_NumReserved s" "stock_check s"
    and cov: "covered os (put_stock (s\<lparr>s_NumReserved := s_NumReserved s - 1\<rparr>) ?v)"
    by (rule covered_Cons)
  let ?w = "WStock (Some s) (s\<lparr>s_NumReserved := s_NumReserved s - 1\<rparr>)"
  let ?t = "t\<lparr>tx_writes := tx_writes t @ [?w]\<rparr>" and ?g = "acquire (i, Suc (length ts)) [?w] g"
  have "ReleaseStock (o_ProductID x) (tx_env i t (Suc (length ts)) g) =
      Reply (Inr (s\<lparr>s_NumReserved := s_NumReserved s - 1\<rparr>)) [?w] []"
    by (rule release_reply) (use s in simp_all)
  then have "run [] i (release_each (x # os)) (t # ts) g = run [] i (release_each os) (?t # ts) ?g"
    using Cons.prems(1,2) by (simp add: prog_simps)
  moreover have "\<exists>g'. run [] i (release_each os) (?t # ts) ?g =
      Some ([], Inr (), ?t\<lparr>tx_writes := tx_writes ?t @ rel_versions os (applys (tx_writes ?t) (committed ?g))\<rparr> # ts, g') \<and>
    committed g' = committed ?g \<and> release (i, Suc (length ts)) g' = release (i, Suc (length ts)) ?g"
    by (rule Cons.IH) (use Cons.prems(1,2) cov in simp_all)
  ultimately show ?case using s(1) by (simp add: Let_def)
qed simp

section \<open>One sweep\<close>

definition due :: "int \<Rightarrow> order \<Rightarrow> bool" where
  "due now r = (live_status (o_Status r) \<and> (case o_ExpiresAt r of None \<Rightarrow> False | Some t \<Rightarrow> t < now))"

text \<open>The batch of a sweep that no lock stands in the way of.\<close>

definition due_batch :: "int \<Rightarrow> int \<Rightarrow> db \<Rightarrow> order list" where
  "due_batch b now d =
     take (nat b) (sort_key (\<lambda>r. case o_ExpiresAt r of None \<Rightarrow> 0 | Some t \<Rightarrow> t) (filter (due now) (orders d)))"

lemma expire_batch_free:
  "(\<And>k. \<not> locked e k) \<Longrightarrow> expire_batch b e = due_batch b (env_now e) (view e)"
proof -
  assume "\<And>k. \<not> locked e k"
  moreover have "expirable e = due (env_now e)"
    by (rule ext) (simp add: expirable_def due_def)
  ultimately show ?thesis by (simp add: expire_batch_def due_batch_def)
qed

definition expire_in :: "order list \<Rightarrow> order \<Rightarrow> order" where
  "expire_in batch r = (if r \<in> set batch then expire_order r else r)"

definition sweep_db :: "order list \<Rightarrow> db \<Rightarrow> db" where
  "sweep_db batch d =
     (let v = applys (map (\<lambda>r. WOrder (Some r) (expire_order r)) batch) d
      in applys (rel_versions (map expire_order batch) v) v)"

lemma due_batch_set: "set (due_batch b now d) \<subseteq> {r \<in> set (orders d). due now r}"
  by (auto simp: due_batch_def dest: in_set_takeD)

lemma due_batch_distinct:
  "distinct (map o_ID (orders d)) \<Longrightarrow> distinct (map o_ID (due_batch b now d))"
  by (auto simp: due_batch_def distinct_map inj_on_def take_map [symmetric] dest: in_set_takeD)

lemma put_by_map:
  "distinct (map key xs) \<Longrightarrow> key y \<in> key ` set xs \<Longrightarrow>
     put_by key y xs = map (\<lambda>x. if key x = key y then y else x) xs"
proof (induction xs)
  case (Cons a xs)
  show ?case
  proof (cases "key a = key y")
    case True
    with Cons.prems have "\<forall>x \<in> set xs. key x \<noteq> key y" by (auto simp: image_iff)
    then have "map (\<lambda>x. if key x = key y then y else x) xs = xs" by (simp add: map_idI)
    with True show ?thesis by simp
  qed (use Cons in auto)
qed simp

lemma expire_order_ID [simp]: "o_ID (expire_order r) = o_ID r" "o_ProductID (expire_order r) = o_ProductID r"
  by (simp_all add: expire_order_def)

lemma orders_expired:
  assumes "distinct (map o_ID (orders d))" "distinct (map o_ID batch)" "set batch \<subseteq> set (orders d)"
  shows "orders (applys (map (\<lambda>r. WOrder (Some r) (expire_order r)) batch) d) = map (expire_in batch) (orders d)"
  using assms
proof (induction batch arbitrary: d)
  case Nil
  have "expire_in [] = id" by (rule ext) (simp add: expire_in_def)
  then show ?case by simp
next
  case (Cons x batch)
  have one: "orders (put_order (expire_order x) d) = map (\<lambda>r. if o_ID r = o_ID x then expire_order x else r) (orders d)"
    using Cons.prems put_by_map [of o_ID "orders d" "expire_order x"] by (auto simp: put_order_def)
  have sub: "set batch \<subseteq> set (orders (put_order (expire_order x) d))"
  proof
    fix r assume r: "r \<in> set batch"
    then have "o_ID r \<noteq> o_ID x" "r \<in> set (orders d)" using Cons.prems by (auto simp: image_iff)
    then show "r \<in> set (orders (put_order (expire_order x) d))" unfolding one by (force simp: image_iff)
  qed
  have "orders (applys (map (\<lambda>r. WOrder (Some r) (expire_order r)) batch) (put_order (expire_order x) d)) =
      map (expire_in batch) (orders (put_order (expire_order x) d))"
    by (rule Cons.IH) (use Cons.prems sub in \<open>simp_all add: put_order_def distinct_put_by\<close>)
  also have "\<dots> = map (expire_in (x # batch)) (orders d)"
    unfolding one map_map
  proof (rule map_cong [OF refl])
    fix r assume r: "r \<in> set (orders d)"
    show "(expire_in batch \<circ> (\<lambda>r. if o_ID r = o_ID x then expire_order x else r)) r = expire_in (x # batch) r"
    proof (cases "o_ID r = o_ID x")
      case True
      with r Cons.prems(1,3) have "r = x" by (auto simp: distinct_map inj_on_def)
      moreover have "expire_order x \<notin> set batch \<or> expire_order (expire_order x) = expire_order x"
        by (simp add: expire_order_def)
      ultimately show ?thesis by (auto simp: expire_in_def)
    next
      case False
      then show ?thesis by (auto simp: expire_in_def)
    qed
  qed
  finally show ?case by simp
qed

lemma stock_val_expired:
  "stock_val f p (applys (map (\<lambda>r. WOrder (Some r) (expire_order r)) batch) d) = stock_val f p d"
  "find_stock p (applys (map (\<lambda>r. WOrder (Some r) (expire_order r)) batch) d) = find_stock p d"
  by (induction batch arbitrary: d) (simp_all add: stock_val_def row_simps)

lemma products_of_expired [simp]: "products_of p (map expire_order os) = products_of p os"
  by (induction os) simp_all

text \<open>A batch of live orders is covered by the reservations: that is the invariant.\<close>

lemma batch_covered:
  assumes inv: "db_inv d" and sub: "set batch \<subseteq> set (orders d)" and dist: "distinct batch"
    and live: "\<forall>r \<in> set batch. live_status (o_Status r)"
  shows "covered (map expire_order batch) (applys (map (\<lambda>r. WOrder (Some r) (expire_order r)) batch) d)"
proof -
  have "products_of p batch \<le> reserved_of p d" for p
  proof -
    have "set (filter (\<lambda>r. o_ProductID r = p) batch) \<subseteq> set (filter (is_live p) (orders d))"
      using sub live by (auto simp: is_live_def)
    then have "length (filter (\<lambda>r. o_ProductID r = p) batch) \<le> length (filter (is_live p) (orders d))"
      using dist by (metis distinct_card distinct_filter List.finite_set card_length card_mono le_trans)
    then show ?thesis
      using db_invD(4) [OF inv, of p] by (simp add: products_of_def count_orders_def)
  qed
  then show ?thesis
    using find_stock_check [OF inv] by (simp add: covered_def stock_val_expired)
qed

lemma due_batch_covered:
  assumes "db_inv d"
  shows "covered (map expire_order (due_batch b now d))
    (applys (map (\<lambda>r. WOrder (Some r) (expire_order r)) (due_batch b now d)) d)"
proof (rule batch_covered [OF assms])
  have "distinct (map o_ID (due_batch b now d))"
    using assms by (intro due_batch_distinct db_invD(1))
  then show "distinct (due_batch b now d)" by (simp add: distinct_map)
qed (use due_batch_set [of b now d] in \<open>auto simp: due_def\<close>)

text \<open>What one sweep changes: orders of the batch expire, their units come back.\<close>

lemma sweep_db_effect:
  assumes "db_inv d" "batch = due_batch b now d"
  shows "orders (sweep_db batch d) = map (expire_in batch) (orders d)"
    and "reserved_of p (sweep_db batch d) = reserved_of p d - products_of p batch"
    and "quantity_of p (sweep_db batch d) = quantity_of p d"
proof -
  have cov: "covered (map expire_order batch) (applys (map (\<lambda>r. WOrder (Some r) (expire_order r)) batch) d)"
    unfolding assms(2) by (rule due_batch_covered) (rule assms(1))
  show "orders (sweep_db batch d) = map (expire_in batch) (orders d)"
    unfolding sweep_db_def Let_def rel_versions_frame
    by (rule orders_expired)
      (use assms due_batch_set [of b now d] in \<open>auto simp: db_invD(1) due_batch_distinct\<close>)
  show "reserved_of p (sweep_db batch d) = reserved_of p d - products_of p batch"
    "quantity_of p (sweep_db batch d) = quantity_of p d"
    using rel_versions_effect [OF cov] by (simp_all add: sweep_db_def Let_def stock_val_expired)
qed

lemma run_SweepExpired:
  assumes free: "locks g = []" and inv: "db_inv (committed g)" and b: "0 \<le> b"
  shows "run [] i (svc_SweepExpired b) [] g =
    (let batch = due_batch b (clock g) (committed g)
     in Some ([], Inr (int (length batch)), [], g\<lparr>committed := sweep_db batch (committed g)\<rparr>))"
proof -
  let ?b = "due_batch b (clock g) (committed g)"
  let ?ws = "map (\<lambda>r. WOrder (Some r) (expire_order r)) ?b"
  let ?t = "\<lparr>tx_state = TxLive, tx_writes = [], tx_now = clock g\<rparr>"
  let ?t1 = "\<lparr>tx_state = TxLive, tx_writes = ?ws, tx_now = clock g\<rparr>"
  let ?g1 = "acquire (i, Suc 0) ?ws g"
  have "expire_batch b (tx_env i ?t (Suc 0) g) = ?b"
    using free by (subst expire_batch_free) (simp_all add: tx_env_def)
  then have ex: "ExpireOrders b (tx_env i ?t (Suc 0) g) = Reply (Inr (map expire_order ?b)) ?ws []"
    using b by (simp add: ExpireOrders_def)
  show ?thesis
  proof (cases "?b = []")
    case True
    with ex free show ?thesis
      by (simp add: svc_SweepExpired_def prog_simps sweep_db_def)
  next
    case False
    obtain g' where g': "run [] i (release_each (map expire_order ?b)) [?t1] ?g1 =
        Some ([], Inr (), [?t1\<lparr>tx_writes := ?ws @ rel_versions (map expire_order ?b) (applys ?ws (committed g))\<rparr>], g')"
      "committed g' = committed g" "release (i, Suc 0) g' = g"
      using run_release_each [of ?t1 i "[]" ?g1 "map expire_order ?b"] due_batch_covered [OF inv, of b "clock g"] free
      by auto
    with False ex free show ?thesis
      by (simp add: svc_SweepExpired_def prog_simps sweep_db_def Let_def) (simp add: install_def)?
  qed
qed


section \<open>The loop\<close>

definition due_count :: "int \<Rightarrow> db \<Rightarrow> nat" where
  "due_count now d = length (filter (due now) (orders d))"

lemma due_expired [simp]: "\<not> due now (expire_order r)"
  by (simp add: due_def expire_order_def)

lemma length_due_batch: "int (length (due_batch b now d)) = min (max b 0) (int (due_count now d))"
  by (auto simp: due_batch_def due_count_def)

lemma due_left:
  assumes "db_inv d" "batch = due_batch b now d"
  shows "filter (due now) (orders (sweep_db batch d)) = filter (\<lambda>r. due now r \<and> r \<notin> set batch) (orders d)"
proof -
  have "filter (due now) (map (expire_in batch) xs) = filter (\<lambda>r. due now r \<and> r \<notin> set batch) xs" for xs
    by (induction xs) (auto simp: expire_in_def)
  then show ?thesis using sweep_db_effect(1) [OF assms] by simp
qed

lemma due_count_sweep:
  assumes "db_inv d" "batch = due_batch b now d"
  shows "due_count now (sweep_db batch d) = due_count now d - length batch"
proof -
  let ?D = "filter (due now) (orders d)"
  have dist: "distinct ?D" "distinct batch"
    using db_invD(1) [OF assms(1)] due_batch_distinct [OF db_invD(1) [OF assms(1)], of b now] assms(2)
    by (auto simp: distinct_map)
  have sub: "set batch \<subseteq> set ?D" using due_batch_set assms(2) by auto
  have "due_count now (sweep_db batch d) = length (filter (\<lambda>r. r \<notin> set batch) ?D)"
    using due_left [OF assms] by (simp add: due_count_def conj_commute)
  also have "\<dots> = card (set ?D - set batch)"
  proof -
    have "distinct (filter (\<lambda>r. r \<notin> set batch) ?D)" using dist(1) by (rule distinct_filter)
    then have "length (filter (\<lambda>r. r \<notin> set batch) ?D) = card (set (filter (\<lambda>r. r \<notin> set batch) ?D))"
      by (rule distinct_card [symmetric])
    also have "set (filter (\<lambda>r. r \<notin> set batch) ?D) = set ?D - set batch" by auto
    finally show ?thesis .
  qed
  also have "\<dots> = card (set ?D) - card (set batch)"
    using sub by (simp add: card_Diff_subset)
  also have "\<dots> = due_count now d - length batch"
    using distinct_card [OF dist(1)] distinct_card [OF dist(2)] by (simp add: due_count_def)
  finally show ?thesis .
qed

lemma db_inv_sweep:
  fixes g :: gstate
  assumes "locks g = []" "db_inv (committed g)" "0 \<le> b"
  shows "db_inv (sweep_db (due_batch b (clock g) (committed g)) (committed g))"
proof -
  note sweep = run_SweepExpired [of g b 0]
  have "run [] 0 (svc_SweepExpired b) [] g = Some ([], Inr (int (length (due_batch b (clock g) (committed g)))), [],
      g\<lparr>committed := sweep_db (due_batch b (clock g) (committed g)) (committed g)\<rparr>)"
    using sweep assms by (simp add: Let_def)
  from pooled_run(2) [OF closed_pooled [OF closed_SweepExpired] this assms(1,2)] show ?thesis by simp
qed

lemma run_sweepAll:
  assumes "locks g = []" "db_inv (committed g)" "0 < b" "due_count (clock g) (committed g) < fuel"
  shows "\<exists>d'. run [] i (sweepAll fuel b) [] g = Some ([], Inr True, [], g\<lparr>committed := d'\<rparr>) \<and>
    db_inv d' \<and> due_count (clock g) d' = 0"
  using assms
proof (induction fuel arbitrary: g)
  case (Suc fuel)
  let ?b = "due_batch b (clock g) (committed g)" and ?n = "due_count (clock g) (committed g)"
  let ?d = "sweep_db ?b (committed g)"
  have sweep: "run [] i (svc_SweepExpired b) [] g = Some ([], Inr (int (length ?b)), [], g\<lparr>committed := ?d\<rparr>)"
    using run_SweepExpired [of g b i] Suc.prems by (simp add: Let_def)
  have inv: "db_inv ?d" using db_inv_sweep [OF Suc.prems(1,2)] Suc.prems(3) by simp
  have left: "due_count (clock g) ?d = ?n - length ?b" by (rule due_count_sweep [OF Suc.prems(2) refl])
  have len: "int (length ?b) = min b (int ?n)" using length_due_batch [of b "clock g" "committed g"] Suc.prems(3) by simp
  show ?case
  proof (cases "int (length ?b) < b")
    case True
    then have "due_count (clock g) ?d = 0" using left len by simp
    with True sweep inv show ?thesis by (auto simp: prog_simps)
  next
    case False
    then have "due_count (clock g) ?d < fuel" using left len Suc.prems(3,4) by linarith
    then obtain d' where "run [] i (sweepAll fuel b) [] (g\<lparr>committed := ?d\<rparr>) =
        Some ([], Inr True, [], g\<lparr>committed := d'\<rparr>)" "db_inv d'" "due_count (clock g) d' = 0"
      using Suc.IH [of "g\<lparr>committed := ?d\<rparr>"] Suc.prems(1,3) inv by auto
    with False sweep show ?thesis by (auto simp: prog_simps)
  qed
qed simp

text \<open>With a batch size of zero no batch is ever short: the loop does not return.\<close>

lemma run_sweepAll_zero:
  assumes "locks g = []" "db_inv (committed g)"
  shows "run [] i (sweepAll fuel 0) [] g = Some ([], Inr False, [], g)"
proof (induction fuel)
  case (Suc fuel)
  have "run [] i (svc_SweepExpired 0) [] g = Some ([], Inr 0, [], g)"
    using run_SweepExpired [of g 0 i] assms by (simp add: due_batch_def sweep_db_def)
  with Suc show ?case by (simp add: prog_simps)
qed simp

end
