(* ===== verification/Payments.thy ===== *)
theory Payments
  imports Sweep
begin

text \<open>
  internal/payments: the event routing table (events.go), the worker that drains the inbox
  (worker.go), the Stripe gateway's request (gateway.go), the webhook endpoint (handler.go).
  Parameters: Stripe's client (create), the SDK's reading of a stored event (event_object)
  and of a signed webhook body (construct_event), the JSON text parser (parse), the driver's
  error texts (drv).
\<close>

section \<open>Routing\<close>

text \<open>The values of the SDK's constants, as Stripe documents the event types.\<close>

definition PaymentIntentSucceeded :: string where "PaymentIntentSucceeded = ''payment_intent.succeeded''"
definition PaymentIntentPaymentFailed :: string where
  "PaymentIntentPaymentFailed = ''payment_intent.payment_failed''"
definition PaymentIntentCanceled :: string where "PaymentIntentCanceled = ''payment_intent.canceled''"

definition HandledEventTypes :: "string list" where
  "HandledEventTypes = [PaymentIntentSucceeded, PaymentIntentPaymentFailed, PaymentIntentCanceled]"

datatype eventAction = actionIgnore | actionFulfill | actionFail

definition actionFor :: "string \<Rightarrow> eventAction" where
  "actionFor ty =
     (if ty = PaymentIntentSucceeded then actionFulfill
      else if ty = PaymentIntentPaymentFailed \<or> ty = PaymentIntentCanceled then actionFail
      else actionIgnore)"

definition eventTypeFilter :: "string list" where
  "eventTypeFilter = map (\<lambda>t. t) HandledEventTypes"

lemmas event_type_defs = PaymentIntentSucceeded_def PaymentIntentPaymentFailed_def PaymentIntentCanceled_def

section \<open>The worker\<close>

record payments_env =
  event_object :: "string \<Rightarrow> error + string option"
  parse_json :: "string \<Rightarrow> json option"
  driver_text :: "error \<Rightarrow> string"

definition id_field :: "string \<Rightarrow> string \<Rightarrow> json \<Rightarrow> string option" where
  "id_field cur k v = (if same_field ''id'' k then decode_string cur v else Some cur)"

definition paymentIntentID :: "payments_env \<Rightarrow> string \<Rightarrow> error + string" where
  "paymentIntentID pe payload =
     (case event_object pe payload of
        Inl e \<Rightarrow> Inl (Wrapped ''unmarshal stripe event'' e)
      | Inr None \<Rightarrow> Inl (ErrPayload ''stripe event has no data object'')
      | Inr (Some raw) \<Rightarrow>
          (case Option.bind (parse_json pe raw) (decode_struct id_field []) of
             None \<Rightarrow> Inl (Wrapped ''unmarshal payment intent'' (ErrPayload ''json''))
           | Some i \<Rightarrow> if i = [] then Inl (ErrPayload ''stripe event object has no id'') else Inr i))"

definition worker_apply :: "payments_env \<Rightarrow> stripe_event \<Rightarrow> unit prog" where
  "worker_apply pe event =
     (let action = actionFor (e_Type event) in
      if action = actionIgnore then ret ()
      else case paymentIntentID pe (e_Payload event) of
          Inl e \<Rightarrow> throw e
        | Inr intentID \<Rightarrow>
            (case action of
               actionFulfill \<Rightarrow> svc_FulfillPayment intentID
             | actionFail \<Rightarrow> svc_FailPayment intentID
             | actionIgnore \<Rightarrow> ret ()))"

text \<open>Which outcomes settle an event for good.\<close>

definition settles :: "error + unit \<Rightarrow> bool" where
  "settles r = (case r of Inr _ \<Rightarrow> True
     | Inl e \<Rightarrow> errors_Is e ErrPaidButNotFulfillable \<or> errors_Is e ErrNoRows)"

definition mark_event :: "payments_env \<Rightarrow> stripe_event \<Rightarrow> error + unit \<Rightarrow> unit prog" where
  "mark_event pe event r =
     (case r of
        Inr _ \<Rightarrow> exec (MarkStripeEventProcessed (e_ID event) None)
      | Inl e \<Rightarrow>
          if errors_Is e ErrPaidButNotFulfillable \<or> errors_Is e ErrNoRows
          then exec (MarkStripeEventProcessed (e_ID event) (Some (error_text (driver_text pe) e)))
          else exec (MarkStripeEventFailed (e_ID event) (Some (error_text (driver_text pe) e))))"

definition processNext :: "payments_env \<Rightarrow> int \<Rightarrow> bool prog" where
  "processNext pe maxAttempts =
     in_tx (handle (exec (ClaimNextStripeEvent maxAttempts)) (\<lambda>r. case r of
        Inl e \<Rightarrow> if errors_Is e ErrNoRows then ret False else throw e
      | Inr event \<Rightarrow>
          handle (worker_apply pe event) (\<lambda>applyErr.
            call (mark_event pe event applyErr) (\<lambda>_. call commit (\<lambda>_. ret True)))))"

text \<open>
  drain, like sweepAll, has no bound of its own; the result says whether it returned within
  the fuel.
\<close>

primrec drain :: "nat \<Rightarrow> payments_env \<Rightarrow> int \<Rightarrow> bool prog" where
  "drain 0 pe maxAttempts = ret False"
| "drain (Suc fuel) pe maxAttempts =
     handle (processNext pe maxAttempts) (\<lambda>r. case r of
        Inl e \<Rightarrow> ret True
      | Inr processed \<Rightarrow> if \<not> processed then ret True else drain fuel pe maxAttempts)"

section \<open>The gateway's request\<close>

definition idempotencyKey :: "int \<Rightarrow> string" where
  "idempotencyKey orderID = ''doorbust-order-'' @ show_int orderID"

record intent_request =
  ir_Amount :: int
  ir_Currency :: string
  ir_Description :: string
  ir_IdempotencyKey :: string
  ir_Metadata :: "(string \<times> string) list"
  ir_ReceiptEmail :: "string option"

definition intent_request_for :: "string \<Rightarrow> payment_intent_params \<Rightarrow> intent_request" where
  "intent_request_for currency p =
     \<lparr>ir_Amount = pi_AmountInCents p, ir_Currency = currency,
      ir_Description = ''doorbust order '' @ show_int (pi_OrderID p),
      ir_IdempotencyKey = idempotencyKey (pi_OrderID p),
      ir_Metadata = [(''order_id'', show_int (pi_OrderID p))],
      ir_ReceiptEmail = (if pi_CustomerEmail p \<noteq> [] then Some (pi_CustomerEmail p) else None)\<rparr>"

definition CreatePaymentIntent ::
  "(intent_request \<Rightarrow> error + payment_intent) \<Rightarrow> string \<Rightarrow> payment_intent_params \<Rightarrow> error + payment_intent" where
  "CreatePaymentIntent create currency p = create (intent_request_for currency p)"

section \<open>The webhook\<close>

definition maxWebhookBody :: nat where "maxWebhookBody = 2 ^ 20"

definition HandleWebhook ::
  "(string \<Rightarrow> string \<Rightarrow> error + (string \<times> string \<times> int)) \<Rightarrow> request \<Rightarrow> (string \<times> string) list response prog" where
  "HandleWebhook construct_event r =
     (if length (q_Body r) > maxWebhookBody
      then ret (WriteError 400 CodeInvalidRequest ''could not read request body'')
      else case construct_event (q_Body r) (get_first ''Stripe-Signature'' (q_Headers r)) of
          Inl e \<Rightarrow> ret (WriteError 400 CodeInvalidRequest ''invalid signature'')
        | Inr (i, ty, created) \<Rightarrow>
            handle (exec (InsertStripeEvent i ty (q_Body r) created)) (\<lambda>x. case x of
               Inl e \<Rightarrow> ret WriteInternalError
             | Inr inserted \<Rightarrow> ret (Write 200 [(''status'', ''received'')])))"

section \<open>Safety\<close>

lemma closed_worker_apply: "closed (worker_apply pe event)"
  unfolding worker_apply_def Let_def
  by (auto split: sum.split eventAction.split intro: closed_ret closed_throw closed_FulfillPayment closed_FailPayment)

lemma quiet_mark_event: "quiet (mark_event pe event r)"
  unfolding mark_event_def by (auto split: sum.split intro: good_intros)

lemma closed_processNext: "closed (processNext pe m)"
  unfolding processNext_def
proof (rule in_tx_neutral_closed, rule triple_handle [OF triple_neutral_exec])
  fix r :: "error + stripe_event"
  have body: "triple neutral (handle (worker_apply pe event) (\<lambda>applyErr.
      call (mark_event pe event applyErr) (\<lambda>_. call commit (\<lambda>_. ret True)))) (\<lambda>r vs. True)" for event
    by (rule triple_handle [OF closed_triple [OF closed_worker_apply]], rule triple_call [OF quiet_triple [OF quiet_mark_event]])
      (auto intro: triple_commit_ret balanced_neutral)
  then show "triple neutral (case r of
        Inl e \<Rightarrow> if errors_Is e ErrNoRows then ret False else throw e
      | Inr event \<Rightarrow> handle (worker_apply pe event) (\<lambda>applyErr.
            call (mark_event pe event applyErr) (\<lambda>_. call commit (\<lambda>_. ret True)))) (\<lambda>r vs. True)"
    by (cases r) (auto intro: triple_true_ret triple_true_throw)
qed (auto intro: sound_reads neutral_reads)

lemma closed_drain: "closed (drain fuel pe m)"
proof (induction fuel)
  case (Suc fuel)
  then show ?case by (auto intro!: closed_handle closed_processNext closed_ret split: sum.split)
qed (simp add: closed_ret)

lemma quiet_HandleWebhook: "quiet (HandleWebhook ce r)"
  unfolding HandleWebhook_def
  by (auto intro!: good_intros quiet_handle quiet_ret split: sum.split prod.split)

section \<open>The worker's job\<close>

definition Worker_Run :: "nat \<Rightarrow> payments_env \<Rightarrow> int \<Rightarrow> unit tick list \<Rightarrow> bool prog" where
  "Worker_Run fuel pe maxAttempts = ticker_loop (\<lambda>_. discard (drain fuel pe maxAttempts))"

lemma pooled_Worker_Run: "pooled (Worker_Run fuel pe m ss)"
  unfolding Worker_Run_def by (intro good_intros closed_pooled closed_drain)

end
