(* ===== verification/Worker.thy ===== *)
theory Worker
  imports Payments
begin

text \<open>
  The inbox worker run alone: what one event does, that an event is settled, retried or
  given up on, and that a drain ends with nothing left to claim.
\<close>

section \<open>One event\<close>

definition apply_spec :: "payments_env \<Rightarrow> stripe_event \<Rightarrow> db \<Rightarrow> (error + unit) \<times> db" where
  "apply_spec pe event d =
     (if actionFor (e_Type event) = actionIgnore then (Inr (), d)
      else case paymentIntentID pe (e_Payload event) of
          Inl e \<Rightarrow> (Inl e, d)
        | Inr t \<Rightarrow> if actionFor (e_Type event) = actionFulfill then fulfill_spec t d else fail_spec t d)"

definition claimables :: "int \<Rightarrow> db \<Rightarrow> stripe_event list" where
  "claimables m d =
     sort_key e_ReceivedAt (filter (\<lambda>v. e_ProcessedAt v = None \<and> e_Attempts v < m) (events d))"

definition marked :: "payments_env \<Rightarrow> int \<Rightarrow> error + unit \<Rightarrow> stripe_event \<Rightarrow> stripe_event" where
  "marked pe now r v =
     (let err = (case r of Inr _ \<Rightarrow> None | Inl e \<Rightarrow> Some (error_text (driver_text pe) e)) in
      if settles r
      then v\<lparr>e_ProcessedAt := Some now, e_Attempts := e_Attempts v + 1, e_LastError := err\<rparr>
      else v\<lparr>e_Attempts := e_Attempts v + 1, e_LastError := err\<rparr>)"

definition process_spec :: "payments_env \<Rightarrow> int \<Rightarrow> int \<Rightarrow> db \<Rightarrow> bool \<times> db" where
  "process_spec pe m now d =
     (case claimables m d of
        [] \<Rightarrow> (False, d)
      | v # _ \<Rightarrow> (case apply_spec pe v d of (r, d') \<Rightarrow> (True, put_event (marked pe now r v) d')))"

lemma run_worker_apply:
  assumes "clear (i, Suc (length st)) g" "db_inv (committed g)"
  shows "run [] i (worker_apply pe event) st g =
    (case apply_spec pe event (committed g) of (r, d') \<Rightarrow> Some ([], r, st, g\<lparr>committed := d'\<rparr>))"
  using run_FulfillPayment [OF assms] run_FailPayment [OF assms]
  by (cases "actionFor (e_Type event)"; cases "paymentIntentID pe (e_Payload event)")
    (auto simp: worker_apply_def apply_spec_def Let_def split: prod.splits)

lemma events_frame [simp]:
  "events (put_order r d) = events d" "events (put_stock s d) = events d"
  "events (unreserve p d) = events d" "events (sell p d) = events d"
  by (simp_all add: put_order_def put_stock_def unreserve_def sell_def split: option.split)

lemma events_apply_spec: "apply_spec pe v d = (r, d') \<Longrightarrow> events d' = events d"
  by (auto simp: apply_spec_def fulfill_spec_def fail_spec_def Let_def split: if_splits sum.splits option.splits)

lemma acquire_committed [simp]:
  "(acquire me ws g)\<lparr>committed := d\<rparr> = acquire me ws (g\<lparr>committed := d\<rparr>)"
  by (simp add: acquire_def)

lemma clear_acquire [simp]:
  "clear me g \<Longrightarrow> me \<noteq> ow \<Longrightarrow> clear me (acquire ow [WLock (KEvent v)] g)"
  by (auto simp: clear_def acquire_def)

lemma claim_first:
  assumes "claimables m d = v # vs" "distinct (map e_ID (events d))"
  shows "find_event (e_ID v) d = Some v" "e_ProcessedAt v = None" "e_Attempts v < m"
proof -
  have "v \<in> set (claimables m d)" using assms(1) by simp
  then have v: "v \<in> set (events d)" "e_ProcessedAt v = None" "e_Attempts v < m"
    by (auto simp: claimables_def)
  then show "e_ProcessedAt v = None" "e_Attempts v < m" by simp_all
  show "find_event (e_ID v) d = Some v"
    using v(1) assms(2) by (simp add: find_event_def find_by_distinct)
qed

lemma run_processNext:
  assumes free: "locks g = []" and inv: "db_inv (committed g)" and ev: "distinct (map e_ID (events (committed g)))"
  shows "run [] i (processNext pe m) [] g =
    (case process_spec pe m (clock g) (committed g) of (b, d') \<Rightarrow> Some ([], Inr b, [], g\<lparr>committed := d'\<rparr>))"
proof -
  let ?t = "\<lparr>tx_state = TxLive, tx_writes = [], tx_now = clock g\<rparr>"
  have claim: "filter (claimable m (tx_env i ?t (Suc 0) g)) (events (committed g)) =
      filter (\<lambda>v. e_ProcessedAt v = None \<and> e_Attempts v < m) (events (committed g))"
    using free by (simp add: claimable_def tx_env_def cong: filter_cong)
  show ?thesis
  proof (cases "claimables m (committed g)")
    case Nil
    then show ?thesis
      using free claim
      by (simp add: processNext_def prog_simps ClaimNextStripeEvent_def claimables_def process_spec_def reply_defs)
  next
    case (Cons v vs)
    note v = claim_first [OF Cons ev]
    let ?g1 = "acquire (i, Suc 0) [WLock (KEvent (e_ID v))] g"
    let ?t1 = "\<lparr>tx_state = TxLive, tx_writes = [WLock (KEvent (e_ID v))], tx_now = clock g\<rparr>"
    obtain r d1 where a: "apply_spec pe v (committed g) = (r, d1)" by (cases "apply_spec pe v (committed g)")
    have cl: "clear (i, Suc (length [?t1])) ?g1" using free by simp
    have "run [] i (worker_apply pe v) [?t1] ?g1 = Some ([], r, [?t1], ?g1\<lparr>committed := d1\<rparr>)"
      using run_worker_apply [OF cl, of pe v] inv a by simp
    moreover have "find_event (e_ID v) d1 = Some v"
      using v(1) events_apply_spec [OF a] by (simp add: find_event_def)
    ultimately show ?thesis
      using free claim Cons a
      by (cases r)
        (auto simp: processNext_def prog_simps ClaimNextStripeEvent_def claimables_def process_spec_def
          mark_event_def marked_def settles_def MarkStripeEventProcessed_def MarkStripeEventFailed_def
          update_event_def install_def)
  qed
qed


section \<open>A drain\<close>

text \<open>
  The attempts an inbox can still take: each pass over an event uses one up, or settles it.
\<close>

definition left_of :: "int \<Rightarrow> stripe_event \<Rightarrow> nat" where
  "left_of m v = (if e_ProcessedAt v = None then nat (m - e_Attempts v) else 0)"

definition attempts_left :: "int \<Rightarrow> db \<Rightarrow> nat" where
  "attempts_left m d = sum_list (map (left_of m) (events d))"

lemma marked_facts [simp]:
  "e_ID (marked pe now r v) = e_ID v" "e_Attempts (marked pe now r v) = e_Attempts v + 1"
  by (simp_all add: marked_def Let_def)

lemma marked_left: "e_ProcessedAt v = None \<Longrightarrow> e_Attempts v < m \<Longrightarrow> left_of m (marked pe now r v) < left_of m v"
  by (auto simp: left_of_def)

lemma process_progress:
  assumes "process_spec pe m now d = (True, d')" "distinct (map e_ID (events d))"
  shows "attempts_left m d' < attempts_left m d" "distinct (map e_ID (events d'))"
proof -
  obtain v vs where cl: "claimables m d = v # vs"
    using assms(1) by (auto simp: process_spec_def split: list.splits)
  obtain r d1 where a: "apply_spec pe v d = (r, d1)" by (cases "apply_spec pe v d")
  note v = claim_first [OF cl assms(2)]
  have d': "d' = put_event (marked pe now r v) d1" and ev: "events d1 = events d"
    using assms(1) cl a events_apply_spec [OF a] by (simp_all add: process_spec_def)
  have "find_by e_ID (e_ID (marked pe now r v)) (events d) = Some v"
    using v(1) by (simp add: find_event_def)
  from sum_put_by [OF this, of "left_of m"] marked_left [OF v(2,3), of pe now r]
  show "attempts_left m d' < attempts_left m d"
    by (simp add: attempts_left_def d' ev put_event_def)
  show "distinct (map e_ID (events d'))"
    using assms(2) by (simp add: d' ev put_event_def distinct_put_by)
qed

lemma db_inv_process:
  fixes g :: gstate
  assumes "locks g = []" "db_inv (committed g)" "distinct (map e_ID (events (committed g)))"
    and "process_spec pe m (clock g) (committed g) = (b, d')"
  shows "db_inv d'"
proof -
  have "run [] 0 (processNext pe m) [] g = Some ([], Inr b, [], g\<lparr>committed := d'\<rparr>)"
    using run_processNext [OF assms(1-3), of 0 pe m] assms(4) by simp
  from pooled_run(2) [OF closed_pooled [OF closed_processNext] this assms(1,2)] show ?thesis by simp
qed

lemma process_idle: "process_spec pe m now d = (False, d') \<Longrightarrow> d' = d \<and> claimables m d = []"
  by (auto simp: process_spec_def split: list.splits prod.splits)

lemma claimables_Nil: "claimables m d = [] \<longleftrightarrow> (\<forall>v \<in> set (events d). e_ProcessedAt v \<noteq> None \<or> m \<le> e_Attempts v)"
proof -
  have "claimables m d = [] \<longleftrightarrow> set (claimables m d) = {}" by simp
  then show ?thesis by (auto simp: claimables_def)
qed

lemma run_drain:
  assumes "locks g = []" "db_inv (committed g)" "distinct (map e_ID (events (committed g)))"
    and "attempts_left m (committed g) < fuel"
  shows "\<exists>d'. run [] i (drain fuel pe m) [] g = Some ([], Inr True, [], g\<lparr>committed := d'\<rparr>) \<and> db_inv d' \<and>
    claimables m d' = []"
  using assms
proof (induction fuel arbitrary: g)
  case (Suc fuel)
  obtain b d1 where p: "process_spec pe m (clock g) (committed g) = (b, d1)"
    by (cases "process_spec pe m (clock g) (committed g)")
  have step: "run [] i (processNext pe m) [] g = Some ([], Inr b, [], g\<lparr>committed := d1\<rparr>)"
    using run_processNext [OF Suc.prems(1-3), of i pe m] p by simp
  show ?case
  proof (cases b)
    case False
    then have "d1 = committed g" "claimables m d1 = []"
      using process_idle [of pe m "clock g" "committed g" d1] p by simp_all
    with False step Suc.prems(2) show ?thesis by (auto simp: prog_simps intro!: exI [of _ d1])
  next
    case True
    then have "process_spec pe m (clock g) (committed g) = (True, d1)" using p by simp
    note prog = process_progress [OF this Suc.prems(3)]
    have "\<exists>d'. run [] i (drain fuel pe m) [] (g\<lparr>committed := d1\<rparr>) =
        Some ([], Inr True, [], g\<lparr>committed := d1\<rparr>\<lparr>committed := d'\<rparr>) \<and> db_inv d' \<and> claimables m d' = []"
      by (rule Suc.IH) (use Suc.prems prog db_inv_process [OF Suc.prems(1-3) p] in auto)
    with True step show ?thesis by (auto simp: prog_simps)
  qed
qed simp

end
