(* ===== verification/Poller.thy ===== *)
theory Poller
  imports Payments
begin

text \<open>
  internal/payments/poller.go: pulling events from Stripe into the inbox. Times are in
  microseconds, Stripe's created in seconds. The SDK's event list is a parameter (list_events:
  the types and the lower bound give the events in the order they arrive and, if the listing
  broke off, the error); so is the JSON rendering of a payload (marshal).
\<close>

record stripe_msg =
  m_ID :: string
  m_Type :: string
  m_Created :: int
  m_Raw :: "string option"

record poller =
  list_events :: "string list \<Rightarrow> int \<Rightarrow> stripe_msg list \<times> error option"
  marshal :: "stripe_msg \<Rightarrow> string \<Rightarrow> error + string"
  po_overlap :: int
  po_initialLookback :: int

definition micros :: "int \<Rightarrow> int" where "micros s = s * 1000000"

definition unix :: "int \<Rightarrow> int" where "unix t = t div 1000000"

definition sinceFor :: "poller \<Rightarrow> int option \<Rightarrow> int \<Rightarrow> int" where
  "sinceFor po cursor now =
     (case cursor of None \<Rightarrow> now - po_initialLookback po | Some t \<Rightarrow> t - po_overlap po)"

definition eventPayload :: "poller \<Rightarrow> stripe_msg \<Rightarrow> error + string" where
  "eventPayload po m =
     (case m_Raw m of
        None \<Rightarrow> Inl (ErrPayload (''stripe event '' @ m_ID m @ '' has no data object''))
      | Some raw \<Rightarrow>
          if raw = [] then Inl (ErrPayload (''stripe event '' @ m_ID m @ '' has no data object''))
          else marshal po m raw)"

text \<open>fetched, inserted, err: Go's three results, the counts kept beside the error.\<close>

type_synonym poll_result = "int \<times> int \<times> error option"

primrec poll_each :: "poller \<Rightarrow> stripe_msg list \<Rightarrow> error option \<Rightarrow> int \<Rightarrow> int \<Rightarrow> poll_result prog" where
  "poll_each po [] err fetched inserted =
     ret (fetched, inserted, map_option (Wrapped ''list stripe events'') err)"
| "poll_each po (m # ms) err fetched inserted =
     (case eventPayload po m of
        Inl e \<Rightarrow> poll_each po ms err (fetched + 1) inserted
      | Inr payload \<Rightarrow>
          handle (exec (InsertStripeEvent (m_ID m) (m_Type m) payload (micros (m_Created m)))) (\<lambda>r. case r of
             Inl e \<Rightarrow> ret (fetched + 1, inserted, Some (Wrapped (''record stripe event '' @ m_ID m) e))
           | Inr rows \<Rightarrow> poll_each po ms err (fetched + 1) (inserted + rows)))"

definition poll :: "poller \<Rightarrow> int \<Rightarrow> poll_result prog" where
  "poll po now =
     handle (exec LatestStripeEventCreatedAt) (\<lambda>r. case r of
        Inl e \<Rightarrow> ret (0, 0, Some (Wrapped ''read poll cursor'' e))
      | Inr cursor \<Rightarrow>
          (case list_events po eventTypeFilter (unix (sinceFor po cursor now)) of
             (ms, err) \<Rightarrow> poll_each po ms err 0 0))"

text \<open>pollOnce: the new value of lastSuccess, where the poll was clean.\<close>

definition pollOnce :: "poller \<Rightarrow> int \<Rightarrow> int \<Rightarrow> int \<Rightarrow> int prog" where
  "pollOnce po now later lastSuccess =
     call (poll po now) (\<lambda>(fetched, inserted, err).
       case err of Some e \<Rightarrow> ret lastSuccess | None \<Rightarrow> ret (unix later))"

definition LastSuccess :: "int \<Rightarrow> int option" where
  "LastSuccess u = (if u = 0 then None else Some (micros u))"

lemma quiet_poll_each: "quiet (poll_each po ms err f n)"
  by (induction ms arbitrary: f n) (auto intro!: good_intros split: sum.split)

lemma quiet_poll: "quiet (poll po now)"
  unfolding poll_def by (auto intro!: good_intros quiet_poll_each split: sum.split prod.split)

lemma quiet_pollOnce: "quiet (pollOnce po now later u)"
  unfolding pollOnce_def by (auto intro!: good_intros quiet_poll split: option.split)

text \<open>
  Run: a poll at once, then one per tick; a poll starts and ends at the times of its pair. The
  value is lastSuccess.
\<close>

primrec poller_ticks :: "poller \<Rightarrow> int \<Rightarrow> (int \<times> int) tick list \<Rightarrow> int prog" where
  "poller_ticks po u [] = ret u"
| "poller_ticks po u (s # ss) =
     (case s of
        Cancelled \<Rightarrow> ret u
      | Tick x \<Rightarrow> call (pollOnce po (fst x) (snd x) u) (\<lambda>u'. poller_ticks po u' ss))"

definition Poller_Run :: "poller \<Rightarrow> int \<times> int \<Rightarrow> (int \<times> int) tick list \<Rightarrow> int prog" where
  "Poller_Run po first ss = poller_ticks po 0 (Tick first # ss)"

lemma quiet_Poller_Run: "quiet (Poller_Run po first ss)"
proof -
  have "quiet (poller_ticks po u ss)" for u ss
    by (induction ss arbitrary: u) (auto intro!: good_intros quiet_pollOnce split: tick.split)
  then show ?thesis by (simp only: Poller_Run_def)
qed

section \<open>A poll, alone\<close>

definition inbox_row :: "stripe_msg \<Rightarrow> string \<Rightarrow> int \<Rightarrow> stripe_event" where
  "inbox_row m payload now =
     \<lparr>e_ID = m_ID m, e_Type = m_Type m, e_Payload = payload, e_ReceivedAt = now, e_ProcessedAt = None,
      e_Attempts = 0, e_LastError = None, e_StripeCreatedAt = Some (micros (m_Created m))\<rparr>"

text \<open>What one listed event does to the inbox: nothing if it is there or cannot be rendered.\<close>

definition store_msg :: "poller \<Rightarrow> int \<Rightarrow> stripe_msg \<Rightarrow> db \<Rightarrow> db" where
  "store_msg po now m d =
     (case eventPayload po m of
        Inl _ \<Rightarrow> d
      | Inr payload \<Rightarrow> (case find_event (m_ID m) d of Some _ \<Rightarrow> d | None \<Rightarrow> put_event (inbox_row m payload now) d))"

definition storable :: "poller \<Rightarrow> db \<Rightarrow> stripe_msg \<Rightarrow> bool" where
  "storable po d m = (find_event (m_ID m) d = None \<and> (\<exists>payload. eventPayload po m = Inr payload))"

fun new_count :: "poller \<Rightarrow> int \<Rightarrow> stripe_msg list \<Rightarrow> db \<Rightarrow> int" where
  "new_count po now [] d = 0"
| "new_count po now (m # ms) d =
     (if find_event (m_ID m) (store_msg po now m d) \<noteq> find_event (m_ID m) d then 1 else 0)
       + new_count po now ms (store_msg po now m d)"

definition store_all :: "poller \<Rightarrow> int \<Rightarrow> stripe_msg list \<Rightarrow> db \<Rightarrow> db" where
  "store_all po now ms d = fold (store_msg po now) ms d"

lemma run_poll_each:
  assumes "locks g = []"
  shows "run [] i (poll_each po ms err f n) [] g =
    Some ([], Inr (f + int (length ms), n + new_count po (clock g) ms (committed g),
        map_option (Wrapped ''list stripe events'') err), [],
      g\<lparr>committed := store_all po (clock g) ms (committed g)\<rparr>)"
  using assms
proof (induction ms arbitrary: f n g)
  case Nil
  then show ?case by (simp add: store_all_def)
next
  case (Cons m ms)
  show ?case
  proof (cases "eventPayload po m")
    case (Inl e)
    with Cons show ?thesis by (simp add: store_all_def store_msg_def)
  next
    case (Inr payload)
    show ?thesis
    proof (cases "find_event (m_ID m) (committed g)")
      case (Some v)
      with Inr Cons show ?thesis
        by (simp add: prog_simps InsertStripeEvent_def store_all_def store_msg_def)
    next
      case None
      let ?row = "inbox_row m payload (clock g)"
      have "run [] i (poll_each po ms err (f + 1) (n + 1)) [] (g\<lparr>committed := put_event ?row (committed g)\<rparr>) =
        Some ([], Inr (f + 1 + int (length ms), n + 1 + new_count po (clock g) ms (put_event ?row (committed g)),
          map_option (Wrapped ''list stripe events'') err), [],
          g\<lparr>committed := store_all po (clock g) ms (put_event ?row (committed g))\<rparr>)"
        using Cons.IH [of "g\<lparr>committed := put_event ?row (committed g)\<rparr>" "f + 1" "n + 1"] Cons.prems by simp
      moreover have "find_event (m_ID m) (put_event ?row (committed g)) = Some ?row"
        by (simp add: row_simps inbox_row_def)
      ultimately show ?thesis
        using Inr None Cons.prems
        by (simp add: prog_simps InsertStripeEvent_def store_all_def store_msg_def inbox_row_def algebra_simps
            install_def)
    qed
  qed
qed

definition cursor_of :: "db \<Rightarrow> int option" where
  "cursor_of d = (case List.map_filter e_StripeCreatedAt (events d) of [] \<Rightarrow> None | t # ts \<Rightarrow> Some (fold max ts t))"

lemma run_poll:
  assumes "locks g = []" "list_events po eventTypeFilter (unix (sinceFor po (cursor_of (committed g)) now)) = (ms, err)"
  shows "run [] i (poll po now) [] g =
    Some ([], Inr (int (length ms), new_count po (clock g) ms (committed g),
        map_option (Wrapped ''list stripe events'') err), [],
      g\<lparr>committed := store_all po (clock g) ms (committed g)\<rparr>)"
  using assms run_poll_each [OF assms(1), of i po ms err 0 0]
  by (simp add: poll_def prog_simps LatestStripeEventCreatedAt_def cursor_of_def)

text \<open>The cursor is at least as late as every stored event's creation time.\<close>

lemma fold_max_ge: "(x :: int) \<in> insert m (set xs) \<Longrightarrow> x \<le> fold max xs m"
proof -
  assume "x \<in> insert m (set xs)"
  then have "x \<le> Max (set (m # xs))" by (intro Max_ge) simp_all
  then show ?thesis by (simp only: Max.set_eq_fold)
qed

lemma cursor_covers:
  assumes "v \<in> set (events d)" "e_StripeCreatedAt v = Some t"
  shows "\<exists>c. cursor_of d = Some c \<and> t \<le> c"
proof -
  have "t \<in> set (List.map_filter e_StripeCreatedAt (events d))"
    using assms by (force simp: List.map_filter_def)
  then show ?thesis
    using fold_max_ge by (cases "List.map_filter e_StripeCreatedAt (events d)") (auto simp: cursor_of_def)
qed

section \<open>Recording is idempotent\<close>

lemma store_msg_keeps: "find_event v d = Some r \<Longrightarrow> find_event v (store_msg po now m d) = Some r"
  by (auto simp: store_msg_def row_simps inbox_row_def split: sum.split option.split)

lemma store_all_keeps: "find_event v d = Some r \<Longrightarrow> find_event v (store_all po now ms d) = Some r"
  by (induction ms arbitrary: d) (simp_all add: store_all_def store_msg_keeps)

lemma store_msg_stores:
  "eventPayload po m = Inr payload \<Longrightarrow> find_event (m_ID m) (store_msg po now m d) \<noteq> None"
  by (auto simp: store_msg_def row_simps inbox_row_def split: option.split)

lemma store_all_stores:
  "m \<in> set ms \<Longrightarrow> eventPayload po m = Inr payload \<Longrightarrow> find_event (m_ID m) (store_all po now ms d) \<noteq> None"
proof (induction ms arbitrary: d)
  case (Cons a ms)
  show ?case
  proof (cases "a = m")
    case True
    with Cons.prems(2) obtain r where "find_event (m_ID m) (store_msg po now m d) = Some r"
      using store_msg_stores by blast
    with True show ?thesis
      using store_all_keeps [of "m_ID m" "store_msg po now m d" r po now ms] by (simp add: store_all_def)
  qed (use Cons in \<open>simp add: store_all_def\<close>)
qed simp

lemma store_known:
  "(\<And>m payload. m \<in> set ms \<Longrightarrow> eventPayload po m = Inr payload \<Longrightarrow> find_event (m_ID m) d \<noteq> None) \<Longrightarrow>
     store_all po now ms d = d \<and> new_count po now ms d = 0"
proof (induction ms)
  case (Cons m ms)
  have "store_msg po now m d = d"
    using Cons.prems [of m] by (auto simp: store_msg_def split: sum.split option.split)
  with Cons show ?case by (simp add: store_all_def)
qed (simp add: store_all_def)

lemma store_again:
  "store_all po now' ms (store_all po now ms d) = store_all po now ms d \<and>
     new_count po now' ms (store_all po now ms d) = 0"
  by (rule store_known) (rule store_all_stores)

lemma new_count_bounds: "0 \<le> new_count po now ms d \<and> new_count po now ms d \<le> int (length ms)"
  by (induction ms arbitrary: d) (fastforce)+

end
