(* ===== verification/Products.thy ===== *)
theory Products
  imports Customers
begin

text \<open>
  internal/products/service.go: reading the storefront, and the vendor's CreateProduct,
  which inserts a product and its only stock row in one transaction. This is the one
  operation that brings capacity into the world.
\<close>

record create_product_params =
  cp_Name :: string
  cp_PriceInCents :: int
  cp_StartAt :: int
  cp_Quantity :: int

definition svc_ListProducts :: "int \<Rightarrow> int \<Rightarrow> product_row list prog" where
  "svc_ListProducts lim off = exec (ListProducts lim off)"

definition svc_GetProduct :: "int \<Rightarrow> product_row prog" where
  "svc_GetProduct i = exec (FindProductByID i)"

definition svc_CreateProduct :: "create_product_params \<Rightarrow> product_row prog" where
  "svc_CreateProduct p =
     in_tx (call (exec (CreateProduct (cp_Name p) (cp_PriceInCents p) (cp_StartAt p))) (\<lambda>product.
       call (exec (CreateStock (p_ID product) (cp_Quantity p))) (\<lambda>stock.
         call commit (\<lambda>_.
           ret \<lparr>pr_ID = p_ID product, pr_Name = p_Name product, pr_PriceInCents = p_PriceInCents product,
                pr_CreatedAt = p_CreatedAt product, pr_StartAt = p_StartAt product,
                pr_Quantity = s_Quantity stock, pr_NumReserved = s_NumReserved stock\<rparr>))))"

lemma quiet_ListProducts: "quiet (svc_ListProducts lim off)"
  and quiet_GetProduct: "quiet (svc_GetProduct i)"
  by (simp_all add: svc_ListProducts_def svc_GetProduct_def good_intros)

lemma closed_CreateProduct: "closed (svc_CreateProduct p)"
  unfolding svc_CreateProduct_def
proof (rule in_tx_closed, rule triple_call)
  show "triple (\<lambda>vs. vs = []) (exec (CreateProduct (cp_Name p) (cp_PriceInCents p) (cp_StartAt p)))
    (\<lambda>r vs. case r of Inl _ \<Rightarrow> True | Inr x \<Rightarrow> vs = [WProduct x])"
    by (rule triple_exec [OF sound_products]) (auto split: sum.split dest: product_effects)
next
  fix x
  have "triple (\<lambda>vs. vs = [WProduct x]) (exec (CreateStock (p_ID x) (cp_Quantity p)))
    (\<lambda>r vs. case r of Inl _ \<Rightarrow> True | Inr _ \<Rightarrow> balanced vs)"
    by (rule triple_exec [OF sound_stock(4)])
      (auto split: sum.split dest!: product_effects(2) intro: balanced_new_stock)
  then have "triple (\<lambda>vs. vs = [WProduct x]) (call (exec (CreateStock (p_ID x) (cp_Quantity p))) (\<lambda>stock.
      call commit (\<lambda>_. ret \<lparr>pr_ID = p_ID x, pr_Name = p_Name x, pr_PriceInCents = p_PriceInCents x,
        pr_CreatedAt = p_CreatedAt x, pr_StartAt = p_StartAt x,
        pr_Quantity = s_Quantity stock, pr_NumReserved = s_NumReserved stock\<rparr>))) (\<lambda>r vs. True)"
    by (rule triple_call) (auto intro!: triple_call [where J = "\<lambda>r vs. True"] triple_commit triple_ret)
  then show "triple (\<lambda>vs. case Inr x of Inl _ \<Rightarrow> True | Inr x \<Rightarrow> vs = [WProduct x])
    (call (exec (CreateStock (p_ID x) (cp_Quantity p))) (\<lambda>stock.
      call commit (\<lambda>_. ret \<lparr>pr_ID = p_ID x, pr_Name = p_Name x, pr_PriceInCents = p_PriceInCents x,
        pr_CreatedAt = p_CreatedAt x, pr_StartAt = p_StartAt x,
        pr_Quantity = s_Quantity stock, pr_NumReserved = s_NumReserved stock\<rparr>))) (\<lambda>r vs. True)"
    by simp
qed auto

section \<open>What CreateProduct does, alone\<close>

text \<open>
  A product number the sequence has not given out; prices and quantities that pass the
  CHECK constraints.
\<close>

definition create_spec :: "create_product_params \<Rightarrow> int \<Rightarrow> db \<Rightarrow> db" where
  "create_spec p now d =
     put_stock \<lparr>s_ID = stock_seq d, s_ProductID = product_seq d, s_Quantity = cp_Quantity p, s_NumReserved = 0\<rparr>
       (put_product \<lparr>p_ID = product_seq d, p_Name = cp_Name p, p_PriceInCents = cp_PriceInCents p,
          p_CreatedAt = now, p_StartAt = cp_StartAt p\<rparr> (burn StockSeq (burn ProductSeq d)))"

lemma seq_frame [simp]:
  "stock_seq (put_product x d) = stock_seq d" "product_seq (put_product x d) = product_seq d"
  by (simp_all add: put_product_def)

lemma run_CreateProduct:
  assumes "locks g = []" "0 \<le> cp_PriceInCents p" "0 \<le> cp_Quantity p"
    and "find_product (product_seq (committed g)) (committed g) = None"
    and "find_stock (product_seq (committed g)) (committed g) = None"
  shows "run [] i (svc_CreateProduct p) [] g =
    Some ([], Inr \<lparr>pr_ID = product_seq (committed g), pr_Name = cp_Name p, pr_PriceInCents = cp_PriceInCents p,
        pr_CreatedAt = clock g, pr_StartAt = cp_StartAt p, pr_Quantity = cp_Quantity p, pr_NumReserved = 0\<rparr>, [],
      g\<lparr>committed := create_spec p (clock g) (committed g)\<rparr>)"
proof -
  let ?d = "committed g"
  have "install [] [StockSeq] (install [] [ProductSeq] g) = g\<lparr>committed := burn StockSeq (burn ProductSeq ?d)\<rparr>"
    by (simp add: install_def)
  moreover have "stock_seq (burns [ProductSeq] ?d) = stock_seq ?d" by simp
  ultimately show ?thesis
    using assms
    by (simp add: svc_CreateProduct_def prog_simps CreateProduct_def CreateStock_def stock_check_def
        row_simps create_spec_def table_defs Let_def)
qed

end
