(* ===== verification/Strconv.thy ===== *)
theory Strconv
  imports Prelude "HOL-Library.Word"
begin

text \<open>
  What the program uses of Go's strconv and of its integer conversions: decimal 64-bit
  parsing, and the truncating conversions to int32 and int64.
\<close>

text \<open>strconv.ParseInt with base 10 and 64 bits, and strconv.Atoi on a 64-bit platform.\<close>

definition parse_int64 :: "string \<Rightarrow> int option" where
  "parse_int64 s =
     (let (neg, ds) = (case s of
            c # cs \<Rightarrow> if c = CHR ''-'' then (True, cs) else if c = CHR ''+'' then (False, cs) else (False, s)
          | [] \<Rightarrow> (False, [])) in
      if ds = [] \<or> \<not> list_all is_digit ds then None
      else let n = (if neg then - int (read_nat ds) else int (read_nat ds))
           in if - (2 ^ 63) \<le> n \<and> n < 2 ^ 63 then Some n else None)"

text \<open>int32(n): the low 32 bits, read as a signed number.\<close>

definition int32 :: "int \<Rightarrow> int" where
  "int32 n = sint (word_of_int n :: 32 word)"

lemma int32_id: "- (2 ^ 31) \<le> n \<Longrightarrow> n < 2 ^ 31 \<Longrightarrow> int32 n = n"
  by (simp add: int32_def sint_sbintrunc' signed_take_bit_int_eq_self)

lemma int32_range: "- (2 ^ 31) \<le> int32 n \<and> int32 n < 2 ^ 31"
  unfolding int32_def using sint_range_size [of "word_of_int n :: 32 word"] by (simp add: word_size)

definition int64 :: "int \<Rightarrow> int" where
  "int64 n = sint (word_of_int n :: 64 word)"

lemma int64_id: "- (2 ^ 63) \<le> n \<Longrightarrow> n < 2 ^ 63 \<Longrightarrow> int64 n = n"
  by (simp add: int64_def sint_sbintrunc' signed_take_bit_int_eq_self)


text \<open>What the API prints it also reads back: FormatInt followed by ParseInt.\<close>

lemma plus_not_digit: "\<not> is_digit (CHR ''+'')"
  by (simp add: is_digit_def)

lemma parse_show_nat: "int n < 2 ^ 63 \<Longrightarrow> parse_int64 (show_nat n) = Some (int n)"
proof -
  assume "int n < 2 ^ 63"
  obtain c cs where s: "show_nat n = c # cs" by (metis show_nat_nonempty list.exhaust)
  have "is_digit c" using show_nat_digits [of n] s by simp
  then have "c \<noteq> CHR ''-''" "c \<noteq> CHR ''+''" using minus_not_digit plus_not_digit by metis+
  then have "parse_int64 (show_nat n) = (if \<not> list_all is_digit (show_nat n) then None
      else let n = int (read_nat (show_nat n)) in if - (2 ^ 63) \<le> n \<and> n < 2 ^ 63 then Some n else None)"
    using s by (simp add: parse_int64_def)
  with \<open>int n < 2 ^ 63\<close> show ?thesis
    using show_nat_digits [of n] by (simp add: list_all_iff)
qed

lemma parse_show_int: "- (2 ^ 63) \<le> n \<Longrightarrow> n < 2 ^ 63 \<Longrightarrow> parse_int64 (show_int n) = Some n"
proof (cases "n < 0")
  case True
  assume "- (2 ^ 63) \<le> n"
  with True show ?thesis
    using show_nat_digits [of "nat (- n)"]
    by (simp add: parse_int64_def show_int_def list_all_iff)
next
  case False
  assume "n < 2 ^ 63"
  with False show ?thesis by (simp add: show_int_def parse_show_nat)
qed

end
