(* ===== verification/Ops.thy ===== *)
theory Ops
  imports Json Strconv
begin

text \<open>
  The process around the service: environment knobs (internal/env/env.go), readiness
  (cmd/ready.go), the profiler's address (cmd/pprof.go). Times and durations are in
  nanoseconds; a time that was never set is None.
\<close>

section \<open>Environment\<close>

text \<open>os.Getenv gives the empty string for a variable that is not set.\<close>

type_synonym environ = "string \<Rightarrow> string"

definition GetString :: "environ \<Rightarrow> string \<Rightarrow> string \<Rightarrow> string" where
  "GetString ev key fallback = (if ev key \<noteq> [] then ev key else fallback)"

definition GetInt :: "environ \<Rightarrow> string \<Rightarrow> int \<Rightarrow> int" where
  "GetInt ev key fallback =
     (if ev key = [] then fallback
      else case parse_int64 (ev key) of None \<Rightarrow> fallback | Some n \<Rightarrow> n)"

definition parse_bool :: "string \<Rightarrow> bool option" where
  "parse_bool s =
     (if s \<in> set [''1'', ''t'', ''T'', ''true'', ''TRUE'', ''True''] then Some True
      else if s \<in> set [''0'', ''f'', ''F'', ''false'', ''FALSE'', ''False''] then Some False
      else None)"

definition GetBool :: "environ \<Rightarrow> string \<Rightarrow> bool \<Rightarrow> bool" where
  "GetBool ev key fallback =
     (if ev key = [] then fallback
      else case parse_bool (ev key) of None \<Rightarrow> fallback | Some b \<Rightarrow> b)"

primrec split_on :: "char \<Rightarrow> string \<Rightarrow> string list" where
  "split_on c [] = [[]]"
| "split_on c (x # xs) =
     (if x = c then [] # split_on c xs
      else case split_on c xs of [] \<Rightarrow> [[x]] | y # ys \<Rightarrow> (x # y) # ys)"

definition is_space :: "char \<Rightarrow> bool" where
  "is_space c = (let n = (of_char c :: nat) in n = 32 \<or> (9 \<le> n \<and> n \<le> 13))"

definition trim_space :: "string \<Rightarrow> string" where
  "trim_space s = rev (dropWhile is_space (rev (dropWhile is_space s)))"

definition GetStringSlice :: "environ \<Rightarrow> string \<Rightarrow> string list" where
  "GetStringSlice ev key = filter (\<lambda>p. p \<noteq> []) (map trim_space (split_on (CHR '','') (ev key)))"

definition MustGetString :: "environ \<Rightarrow> string \<Rightarrow> error + string" where
  "MustGetString ev key =
     (if ev key = [] then Inl (ErrConfig (key @ '' is required '' @ em_dash @ '' set it in .env or the environment'')) else Inr (ev key))"

lemma GetStringSlice_no_blank: "s \<in> set (GetStringSlice ev key) \<Longrightarrow> s \<noteq> []"
  by (simp add: GetStringSlice_def)

lemma split_on_Nil [simp]: "split_on c xs \<noteq> []"
  by (induction xs) (auto split: list.split)

lemma split_on_no_sep: "s \<in> set (split_on c xs) \<Longrightarrow> c \<notin> set s"
  by (induction xs arbitrary: s) (auto split: list.splits if_splits)

lemma trim_space_subset: "set (trim_space s) \<subseteq> set s"
  by (auto simp: trim_space_def dest!: set_dropWhileD)

section \<open>Readiness\<close>

definition pollerDisabled :: string where "pollerDisabled = ''disabled''"
definition pollerStarting :: string where "pollerStarting = ''starting''"
definition pollerFailing :: string where "pollerFailing = ''failing''"
definition pollerStale :: string where "pollerStale = ''stale''"
definition pollerOK :: string where "pollerOK = ''ok''"

lemmas poller_states = pollerDisabled_def pollerStarting_def pollerFailing_def pollerStale_def pollerOK_def

definition pollerStatus :: "int option \<Rightarrow> int \<Rightarrow> int \<Rightarrow> int \<Rightarrow> string \<times> bool" where
  "pollerStatus lastOK startedAt now grace =
     (case lastOK of
        None \<Rightarrow> if now - startedAt \<le> grace then (pollerStarting, True) else (pollerFailing, False)
      | Some t \<Rightarrow> if now - t > grace then (pollerStale, False) else (pollerOK, True))"

definition stalePollMultiple :: int where "stalePollMultiple = 5"

definition minPollerGrace :: int where "minPollerGrace = 30 * 1000000000"

text \<open>A time.Duration is an int64; the product wraps.\<close>

definition pollerGrace :: "int \<Rightarrow> int" where
  "pollerGrace interval =
     (let grace = int64 (stalePollMultiple * interval)
      in if grace > minPollerGrace then grace else minPollerGrace)"

record readyResponse =
  rr_Status :: string
  rr_Database :: string
  rr_StripePoller :: string
  rr_StripePollAge :: "int option"

record poller_view =
  pv_last :: "int option"
  pv_startedAt :: int
  pv_interval :: int

definition readyHandler :: "error + unit \<Rightarrow> poller_view option \<Rightarrow> int \<Rightarrow> readyResponse response" where
  "readyHandler ping poller now =
     (let dbok = (case ping of Inr _ \<Rightarrow> True | Inl _ \<Rightarrow> False);
          body0 = \<lparr>rr_Status = ''ok'', rr_Database = (if dbok then ''ok'' else ''unavailable''),
                   rr_StripePoller = pollerDisabled, rr_StripePollAge = None\<rparr>;
          (body, ready) = (case poller of
              None \<Rightarrow> (body0, dbok)
            | Some p \<Rightarrow>
                (let (st, ok) = pollerStatus (pv_last p) (pv_startedAt p) now (pollerGrace (pv_interval p))
                 in (body0\<lparr>rr_StripePoller := st,
                       rr_StripePollAge := map_option (\<lambda>t. (now - t) div 1000000000) (pv_last p)\<rparr>, dbok \<and> ok)))
      in if \<not> ready then Write 503 (body\<lparr>rr_Status := ''unavailable''\<rparr>) else Write 200 body)"

lemma pollerGrace_min: "minPollerGrace \<le> pollerGrace interval"
  by (simp add: pollerGrace_def Let_def)

lemma pollerStatus_ready:
  "snd (pollerStatus lastOK startedAt now grace) =
     (case lastOK of None \<Rightarrow> now \<le> startedAt + grace | Some t \<Rightarrow> now \<le> t + grace)"
  by (auto simp: pollerStatus_def split: option.split)

text \<open>200 exactly when the database answers and the poller, if any, is healthy.\<close>

lemma readyHandler_status:
  "r_Status (readyHandler ping poller now) =
     (if (\<exists>u. ping = Inr u) \<and>
        (case poller of None \<Rightarrow> True
         | Some p \<Rightarrow> snd (pollerStatus (pv_last p) (pv_startedAt p) now (pollerGrace (pv_interval p))))
      then 200 else 503)"
  by (cases ping; cases poller) (auto simp: readyHandler_def Let_def split: prod.split)

section \<open>The profiler's address\<close>

text \<open>net.SplitHostPort.\<close>

definition last_colon :: "string \<Rightarrow> nat option" where
  "last_colon s = (if CHR '':'' \<in> set s then Some (length s - Suc (length (takeWhile (\<lambda>c. c \<noteq> CHR '':'') (rev s)))) else None)"

definition SplitHostPort :: "string \<Rightarrow> (string \<times> string) option" where
  "SplitHostPort s =
     (case last_colon s of
        None \<Rightarrow> None
      | Some i \<Rightarrow>
          if hd s = CHR ''['' then
            if CHR '']'' \<notin> set s then None
            else
              let e = length (takeWhile (\<lambda>c. c \<noteq> CHR '']'') s) in
              if e + 1 \<noteq> i then None
              else if CHR ''['' \<in> set (drop 1 s) \<or> CHR '']'' \<in> set (drop (e + 1) s) then None
              else Some (drop 1 (take e s), drop (i + 1) s)
          else
            let host = take i s in
            if CHR '':'' \<in> set host then None
            else if CHR ''['' \<in> set s \<or> CHR '']'' \<in> set s then None
            else Some (host, drop (i + 1) s))"

definition isPort :: "string \<Rightarrow> bool" where
  "isPort s = (s \<noteq> [] \<and> list_all is_digit s)"

definition loopback :: string where "loopback = ''127.0.0.1:''"

definition defaultPprofAddr :: string where "defaultPprofAddr = ''127.0.0.1:6060''"

definition loopbackOnly :: "string \<Rightarrow> string" where
  "loopbackOnly addr =
     (case SplitHostPort addr of
        None \<Rightarrow> if isPort addr then loopback @ addr else defaultPprofAddr
      | Some (host, port) \<Rightarrow>
          if host = '''' \<or> host = ''0.0.0.0'' \<or> host = ''::'' \<or> host = ''*'' then loopback @ port else addr)"

text \<open>newPprofServer: no server for an empty address.\<close>

definition newPprofServer :: "string \<Rightarrow> string option" where
  "newPprofServer addr = (if addr = [] then None else Some addr)"

lemma loopbackOnly_cases:
  "has_prefix (loopbackOnly addr) loopback \<or>
     (\<exists>host port. SplitHostPort addr = Some (host, port) \<and> host \<notin> {'''', ''0.0.0.0'', ''::'', ''*''} \<and>
        loopbackOnly addr = addr)"
  by (auto simp: loopbackOnly_def has_prefix_def loopback_def defaultPprofAddr_def split: option.split prod.split)

lemma loopbackOnly_examples:
  "loopbackOnly '':6060'' = ''127.0.0.1:6060''" "loopbackOnly ''6060'' = ''127.0.0.1:6060''"
  "loopbackOnly ''::'' = ''127.0.0.1:6060''" "loopbackOnly ''[::]:6060'' = ''127.0.0.1:6060''"
  "loopbackOnly ''192.168.1.5:6060'' = ''192.168.1.5:6060''" "loopbackOnly ''[::0]:6060'' = ''[::0]:6060''"
  by (simp_all add: loopbackOnly_def SplitHostPort_def last_colon_def isPort_def loopback_def
      defaultPprofAddr_def is_digit_def Let_def)

end
