(* ===== verification/Web.thy ===== *)
theory Web
  imports Ops
begin

text \<open>
  internal/web/spa.go: which file of the built frontend answers a path. The file system
  under the distribution directory is a parameter: files name says that name opens as a
  regular file. The answer is a file with its cache policy, or the JSON 404.
\<close>

definition indexFile :: string where "indexFile = ''index.html''"

text \<open>path.Clean of a rooted path, as the list of its components.\<close>

definition clean_step :: "string list \<Rightarrow> string \<Rightarrow> string list" where
  "clean_step acc p = (if p = '''' \<or> p = ''.'' then acc else if p = ''..'' then tl acc else p # acc)"

definition clean_parts :: "string \<Rightarrow> string list" where
  "clean_parts s = rev (foldl clean_step [] (split_on (CHR ''/'') s))"

fun join_with :: "char \<Rightarrow> string list \<Rightarrow> string" where
  "join_with c [] = []"
| "join_with c [x] = x"
| "join_with c (x # xs) = x @ c # join_with c xs"

definition spa_name :: "string \<Rightarrow> string" where
  "spa_name urlpath =
     (let name = join_with (CHR ''/'') (clean_parts (''/'' @ urlpath))
      in if name = [] then indexFile else name)"

text \<open>path.Ext(name) != "": a dot in the last component.\<close>

definition has_ext :: "string \<Rightarrow> bool" where
  "has_ext name = (CHR ''.'' \<in> set (takeWhile (\<lambda>c. c \<noteq> CHR ''/'') (rev name)))"

definition cacheControl :: "string \<Rightarrow> string" where
  "cacheControl name =
     (if name = indexFile then ''no-store''
      else if has_prefix name ''assets/'' then ''public, max-age=31536000, immutable''
      else ''public, max-age=300'')"

datatype spa_reply = ServeFile string string | NotFound404

definition serveIndex :: "(string \<Rightarrow> bool) \<Rightarrow> spa_reply" where
  "serveIndex files = (if files indexFile then ServeFile indexFile (cacheControl indexFile) else NotFound404)"

definition spa_ServeHTTP :: "(string \<Rightarrow> bool) \<Rightarrow> string \<Rightarrow> spa_reply" where
  "spa_ServeHTTP files urlpath =
     (let name = spa_name urlpath in
      if \<not> files name
      then if has_ext name then NotFound404 else serveIndex files
      else ServeFile name (cacheControl name))"

text \<open>Handler: no directory, no frontend.\<close>

definition spa_Handler :: "(string \<Rightarrow> bool) option \<Rightarrow> string \<Rightarrow> spa_reply" where
  "spa_Handler root urlpath = (case root of None \<Rightarrow> NotFound404 | Some files \<Rightarrow> spa_ServeHTTP files urlpath)"

section \<open>Paths stay inside\<close>

lemma foldl_clean_parts:
  "\<forall>p \<in> set acc. p \<notin> {'''', ''.'', ''..''} \<Longrightarrow>
     \<forall>p \<in> set (foldl clean_step acc ps). p \<notin> {'''', ''.'', ''..''}"
proof (induction ps arbitrary: acc)
  case (Cons q ps)
  have "\<forall>p \<in> set (clean_step acc q). p \<notin> {'''', ''.'', ''..''}"
    using Cons.prems by (cases acc) (auto simp: clean_step_def)
  from Cons.IH [OF this] show ?case by simp
qed simp

lemma clean_parts_safe: "p \<in> set (clean_parts s) \<Longrightarrow> p \<noteq> '''' \<and> p \<noteq> ''.'' \<and> p \<noteq> ''..''"
  using foldl_clean_parts [of "[]" "split_on (CHR ''/'') s"] by (auto simp: clean_parts_def)

lemma foldl_clean_no_sep:
  "\<forall>p \<in> set acc. c \<notin> set p \<Longrightarrow> \<forall>p \<in> set ps. c \<notin> set p \<Longrightarrow> \<forall>p \<in> set (foldl clean_step acc ps). c \<notin> set p"
proof (induction ps arbitrary: acc)
  case (Cons q ps)
  have "\<forall>p \<in> set (clean_step acc q). c \<notin> set p"
    using Cons.prems by (cases acc) (auto simp: clean_step_def)
  with Cons show ?case by simp
qed simp

lemma clean_parts_no_sep: "p \<in> set (clean_parts s) \<Longrightarrow> CHR ''/'' \<notin> set p"
  using foldl_clean_no_sep [of "[]" "CHR ''/''" "split_on (CHR ''/'') s"] split_on_no_sep
  by (auto simp: clean_parts_def)

lemma split_join:
  "xs \<noteq> [] \<Longrightarrow> \<forall>x \<in> set xs. c \<notin> set x \<Longrightarrow> split_on c (join_with c xs) = xs"
proof (induction c xs rule: join_with.induct)
  case (2 c x)
  then show ?case by (induction x) auto
next
  case (3 c x y ys)
  then have ih: "split_on c (join_with c (y # ys)) = y # ys" and "c \<notin> set x" by simp_all
  from this(2) have "split_on c (x @ c # join_with c (y # ys)) = x # split_on c (join_with c (y # ys))"
    by (induction x) auto
  with ih show ?case by simp
qed simp

text \<open>The file name a request reaches never steps out of the directory.\<close>

lemma spa_name_confined: "p \<in> set (split_on (CHR ''/'') (spa_name u)) \<Longrightarrow> p \<noteq> '''' \<and> p \<noteq> ''.'' \<and> p \<noteq> ''..''"
proof -
  assume p: "p \<in> set (split_on (CHR ''/'') (spa_name u))"
  let ?parts = "clean_parts (''/'' @ u)"
  show ?thesis
  proof (cases "join_with (CHR ''/'') ?parts = []")
    case True
    with p show ?thesis by (simp add: spa_name_def indexFile_def)
  next
    case False
    then have "?parts \<noteq> []" by auto
    with clean_parts_no_sep have "split_on (CHR ''/'') (join_with (CHR ''/'') ?parts) = ?parts"
      by (intro split_join) auto
    with p False show ?thesis using clean_parts_safe by (simp add: spa_name_def)
  qed
qed

end
