(* ===== verification/RateLimit.thy ===== *)
theory RateLimit
  imports Auth Ops Complex_Main "HOL-Library.AList"
begin

text \<open>
  internal/ratelimit: one token bucket per key, evicted when idle. The bucket itself is
  golang.org/x/time/rate's Limiter and is a parameter: new_bucket is NewLimiter with the
  configured rate and burst, allow_n is AllowN(now, 1). The map of buckets is an association
  list; its state is passed along, one call of Allow at a time (the mutex).
\<close>

record 'b bucket =
  bu_limiter :: 'b
  bu_seen :: int

record 'b limiter =
  rl_rps :: real
  rl_burst :: int
  rl_idle :: int
  new_bucket :: 'b
  allow_n :: "'b \<Rightarrow> int \<Rightarrow> bool \<times> 'b"

type_synonym 'b buckets = "(string \<times> 'b bucket) list"

definition Enabled :: "'b limiter \<Rightarrow> bool" where
  "Enabled l = (rl_rps l > 0 \<and> rl_burst l > 0)"

definition evict :: "'b limiter \<Rightarrow> int \<Rightarrow> 'b buckets \<Rightarrow> 'b buckets" where
  "evict l now bs = filter (\<lambda>(k, b). \<not> now - bu_seen b > rl_idle l) bs"

definition Allow :: "'b limiter \<Rightarrow> string \<Rightarrow> int \<Rightarrow> 'b buckets \<Rightarrow> bool \<times> 'b buckets" where
  "Allow l key now bs =
     (if \<not> Enabled l then (True, bs)
      else
        let (lim, bs') = (case map_of bs key of
              Some b \<Rightarrow> (bu_limiter b, bs)
            | None \<Rightarrow> (new_bucket l, evict l now bs));
            (ok, lim') = allow_n l lim now
        in (ok, AList.update key \<lparr>bu_limiter = lim', bu_seen = now\<rparr> bs'))"

text \<open>
  Middleware: the next handler runs on the request, or the request is answered with 429.
  reject turns the response into the handler's result type.
\<close>

definition too_many :: "'a response" where
  "too_many = (let w = WriteError 429 CodeRateLimited ''too many requests''
     in w\<lparr>r_Headers := (''Retry-After'', ''1'') # r_Headers w\<rparr>)"

definition limit_by ::
  "('a response \<Rightarrow> 'r) \<Rightarrow> 'b limiter \<Rightarrow> (request \<Rightarrow> string) \<Rightarrow> int \<Rightarrow> (request \<Rightarrow> 'r) \<Rightarrow>
     request \<Rightarrow> 'b buckets \<Rightarrow> 'r \<times> 'b buckets" where
  "limit_by reject l keyFor now next r bs =
     (if \<not> Enabled l then (next r, bs)
      else
        let key = keyFor r in
        if key = [] then (next r, bs)
        else case Allow l key now bs of
            (True, bs') \<Rightarrow> (next r, bs')
          | (False, bs') \<Rightarrow> (reject too_many, bs'))"

definition BySubject :: "request \<Rightarrow> string" where
  "BySubject r = (case FromContext r of None \<Rightarrow> [] | Some c \<Rightarrow> Subject c)"

definition ByIP :: "request \<Rightarrow> string" where
  "ByIP r = (case SplitHostPort (q_RemoteAddr r) of None \<Rightarrow> q_RemoteAddr r | Some (host, port) \<Rightarrow> host)"

text \<open>New: the buckets, none yet, are the state beside it.\<close>

definition new_limiter :: "(real \<Rightarrow> int \<Rightarrow> 'b) \<Rightarrow> ('b \<Rightarrow> int \<Rightarrow> bool \<times> 'b) \<Rightarrow> real \<Rightarrow> int \<Rightarrow> int \<Rightarrow> 'b limiter" where
  "new_limiter bucket_for allow rps burst idle =
     \<lparr>rl_rps = rps, rl_burst = burst, rl_idle = idle, new_bucket = bucket_for rps burst, allow_n = allow\<rparr>"

definition limiter_Len :: "'b buckets \<Rightarrow> nat" where
  "limiter_Len bs = length bs"

section \<open>Buckets\<close>

lemma Allow_disabled: "\<not> Enabled l \<Longrightarrow> Allow l key now bs = (True, bs)"
  by (simp add: Allow_def)

lemma Allow_seen:
  assumes "Enabled l"
  shows "\<exists>b. map_of (snd (Allow l key now bs)) key = Some b \<and> bu_seen b = now"
  using assms by (auto simp: Allow_def Let_def update_conv' split: option.split prod.split)

text \<open>A key with a bucket keeps that bucket; another key's call does not spend from it.\<close>

lemma Allow_same_bucket:
  assumes "Enabled l" "map_of bs key = Some b"
  shows "Allow l key now bs = (fst (allow_n l (bu_limiter b) now),
    AList.update key \<lparr>bu_limiter = snd (allow_n l (bu_limiter b) now), bu_seen = now\<rparr> bs)"
  using assms by (simp add: Allow_def split_beta)

lemma map_of_evict:
  assumes "distinct (map fst bs)" "map_of bs k = Some b" "now - bu_seen b \<le> rl_idle l"
  shows "map_of (evict l now bs) k = Some b"
  using assms
proof (induction bs)
  case (Cons a bs)
  obtain k' b' where a: "a = (k', b')" by (cases a)
  show ?case
  proof (cases "k' = k")
    case False
    with Cons a show ?thesis by (auto simp: evict_def)
  qed (use Cons a in \<open>auto simp: evict_def\<close>)
qed simp

lemma Allow_other_key:
  assumes "distinct (map fst bs)" "k \<noteq> key" "map_of bs k = Some b" "now - bu_seen b \<le> rl_idle l"
  shows "map_of (snd (Allow l key now bs)) k = Some b"
  using assms map_of_evict [OF assms(1,3,4)]
  by (auto simp: Allow_def Let_def update_conv' split: option.split prod.split)

text \<open>Memory: after a new key arrives, no bucket that has been idle too long remains.\<close>

lemma Allow_evicts:
  assumes "Enabled l" "0 \<le> rl_idle l" "map_of bs key = None"
  shows "\<forall>(k, b) \<in> set (snd (Allow l key now bs)). now - bu_seen b \<le> rl_idle l"
proof -
  obtain ok b' where "allow_n l (new_bucket l) now = (ok, b')" by (cases "allow_n l (new_bucket l) now")
  then have all: "snd (Allow l key now bs) = AList.update key \<lparr>bu_limiter = b', bu_seen = now\<rparr> (evict l now bs)"
    using assms by (simp add: Allow_def)
  have "set (AList.update key x ys) \<subseteq> insert (key, x) (set ys)" for x and ys :: "(string \<times> 'a bucket) list"
    by (induction ys) auto
  moreover have "\<forall>(k, b) \<in> set (evict l now bs). now - bu_seen b \<le> rl_idle l"
    by (auto simp: evict_def)
  ultimately show ?thesis
    unfolding all using assms(2) by fastforce
qed

section \<open>A caller's budget\<close>

text \<open>
  The calls one key makes, other keys apart: as long as its bucket is not evicted, the
  decisions are those of a single bucket asked at the same times.
\<close>

primrec bucket_run :: "'b limiter \<Rightarrow> 'b \<Rightarrow> int list \<Rightarrow> bool list" where
  "bucket_run l b [] = []"
| "bucket_run l b (t # ts) = (case allow_n l b t of (ok, b') \<Rightarrow> ok # bucket_run l b' ts)"

primrec limiter_run :: "'b limiter \<Rightarrow> string \<Rightarrow> 'b buckets \<Rightarrow> int list \<Rightarrow> bool list" where
  "limiter_run l key bs [] = []"
| "limiter_run l key bs (t # ts) = (case Allow l key t bs of (ok, bs') \<Rightarrow> ok # limiter_run l key bs' ts)"

lemma limiter_run_known:
  "Enabled l \<Longrightarrow> map_of bs key = Some b \<Longrightarrow> limiter_run l key bs ts = bucket_run l (bu_limiter b) ts"
proof (induction ts arbitrary: bs b)
  case (Cons t ts)
  let ?b = "\<lparr>bu_limiter = snd (allow_n l (bu_limiter b) t), bu_seen = t\<rparr>"
  have "limiter_run l key (AList.update key ?b bs) ts = bucket_run l (bu_limiter ?b) ts"
    by (rule Cons.IH) (use Cons.prems in \<open>simp_all add: update_conv'\<close>)
  with Cons.prems show ?case by (simp add: Allow_same_bucket split_beta)
qed simp

lemma limiter_run_new:
  assumes "Enabled l" "map_of bs key = None"
  shows "limiter_run l key bs ts = bucket_run l (new_bucket l) ts"
proof (cases ts)
  case (Cons t us)
  obtain ok b' where a: "allow_n l (new_bucket l) t = (ok, b')" by (cases "allow_n l (new_bucket l) t")
  let ?bs = "AList.update key \<lparr>bu_limiter = b', bu_seen = t\<rparr> (evict l t bs)"
  have "Allow l key t bs = (ok, ?bs)"
    using assms a by (simp add: Allow_def)
  moreover have "limiter_run l key ?bs us = bucket_run l b' us"
    using limiter_run_known [OF assms(1), of ?bs key "\<lparr>bu_limiter = b', bu_seen = t\<rparr>" us] by (simp add: update_conv')
  ultimately show ?thesis using a Cons by simp
qed simp

section \<open>Callers do not spend each other's budget\<close>

text \<open>
  The calls of all keys in the order they arrive. A key keeps its bucket as long as nobody
  calls later than its idle period after its last call.
\<close>

fun allow_calls :: "'b limiter \<Rightarrow> 'b buckets \<Rightarrow> (string \<times> int) list \<Rightarrow> (string \<times> bool) list" where
  "allow_calls l bs [] = []"
| "allow_calls l bs ((k, t) # calls) =
     (case Allow l k t bs of (ok, bs') \<Rightarrow> (k, ok) # allow_calls l bs' calls)"

fun never_idle :: "'b limiter \<Rightarrow> string \<Rightarrow> int \<Rightarrow> (string \<times> int) list \<Rightarrow> bool" where
  "never_idle l key seen [] = True"
| "never_idle l key seen ((k, t) # calls) =
     (t - seen \<le> rl_idle l \<and> never_idle l key (if k = key then t else seen) calls)"

definition answers_to :: "string \<Rightarrow> (string \<times> 'x) list \<Rightarrow> 'x list" where
  "answers_to key xs = map snd (filter (\<lambda>(k, x). k = key) xs)"

lemma answers_to_simps [simp]:
  "answers_to key [] = []" "answers_to key ((k, x) # xs) = (if k = key then x # answers_to key xs else answers_to key xs)"
  by (simp_all add: answers_to_def)

lemma distinct_Allow: "distinct (map fst bs) \<Longrightarrow> distinct (map fst (snd (Allow l k t bs)))"
  by (auto simp: Allow_def Let_def split_beta evict_def distinct_update distinct_map_filter split: option.split)

lemma others_keep_bucket:
  assumes "Enabled l" "distinct (map fst bs)" "map_of bs key = Some b" "never_idle l key (bu_seen b) calls"
  shows "answers_to key (allow_calls l bs calls) = bucket_run l (bu_limiter b) (answers_to key calls)"
  using assms
proof (induction l bs calls arbitrary: b rule: allow_calls.induct)
  case (2 l bs k t calls)
  obtain ok bs' where a: "Allow l k t bs = (ok, bs')" by fastforce
  have dist: "distinct (map fst bs')" using distinct_Allow [OF "2.prems"(2), of l k t] a by simp
  show ?case
  proof (cases "k = key")
    case False
    then have "map_of bs' key = Some b"
      using Allow_other_key [of bs key k b t l] 2 a by simp
    with 2 a dist False show ?thesis by simp
  next
    case True
    let ?b = "\<lparr>bu_limiter = snd (allow_n l (bu_limiter b) t), bu_seen = t\<rparr>"
    have "(ok, bs') = (fst (allow_n l (bu_limiter b) t), AList.update key ?b bs)"
      using Allow_same_bucket [OF "2.prems"(1,3), of t] a True by simp
    then have ok: "ok = fst (allow_n l (bu_limiter b) t)" and "map_of bs' key = Some ?b"
      by (simp_all add: update_conv')
    with "2.IH" [OF a [symmetric] "2.prems"(1) dist, of ?b] "2.prems"(4) True
    have "answers_to key (allow_calls l bs' calls) = bucket_run l (bu_limiter ?b) (answers_to key calls)" by simp
    then show ?thesis using a ok True by (simp add: split_beta)
  qed
qed simp

end
