(* ===== verification/Handlers.thy ===== *)
theory Handlers
  imports Worker Poller Products Web RateLimit
begin

text \<open>
  The HTTP handlers: internal/orders/handler.go, internal/products/handler.go,
  internal/customers/handler.go. A handler is a program whose value is the response. Query
  numbers are read by strconv (parse_int64) and cut to 32 bits as the code's int32(n) does.
  The URL parameter {id} comes from the router and is an argument; time.Now is an argument.
\<close>

section \<open>Pagination\<close>

definition defaultListLimit :: int where "defaultListLimit = 20"
definition maxListLimit :: int where "maxListLimit = 100"

definition parsePagination :: "(string \<times> string) list \<Rightarrow> string + (int \<times> int)" where
  "parsePagination q =
     (let lv = get_first ''limit'' q; ov = get_first ''offset'' q;
          limit = (if lv = [] then Some defaultListLimit
                   else case parse_int64 lv of None \<Rightarrow> None | Some n \<Rightarrow> if n \<le> 0 then None else Some (int32 n)) in
      case limit of
        None \<Rightarrow> Inl ''invalid limit''
      | Some l \<Rightarrow>
          let l' = (if l > maxListLimit then maxListLimit else l) in
          if ov = [] then Inr (l', 0)
          else case parse_int64 ov of
              None \<Rightarrow> Inl ''invalid offset''
            | Some n \<Rightarrow> if n < 0 then Inl ''invalid offset'' else Inr (l', int32 n))"

section \<open>Bodies\<close>

record orderResponse =
  or_ID :: int
  or_ProductID :: int
  or_ProductName :: string
  or_Status :: string
  or_TotalInCents :: int
  or_CreatedAt :: int
  or_ExpiresAt :: "int option"
  or_PaymentIntentID :: string

definition text_of :: "string option \<Rightarrow> string" where
  "text_of x = (case x of None \<Rightarrow> [] | Some s \<Rightarrow> s)"

definition fromOrder :: "order \<Rightarrow> string \<Rightarrow> orderResponse" where
  "fromOrder r name =
     \<lparr>or_ID = o_ID r, or_ProductID = o_ProductID r, or_ProductName = name, or_Status = o_Status r,
      or_TotalInCents = o_TotalInCents r, or_CreatedAt = o_CreatedAt r, or_ExpiresAt = o_ExpiresAt r,
      or_PaymentIntentID = text_of (o_StripePaymentIntentID r)\<rparr>"

record productResponse =
  pp_ID :: int
  pp_Name :: string
  pp_PriceInCents :: int
  pp_CreatedAt :: int
  pp_StartAt :: int
  pp_Quantity :: int
  pp_NumReserved :: int
  pp_Available :: int

definition newProductResponse :: "product_row \<Rightarrow> productResponse" where
  "newProductResponse p =
     \<lparr>pp_ID = pr_ID p, pp_Name = pr_Name p, pp_PriceInCents = pr_PriceInCents p,
      pp_CreatedAt = pr_CreatedAt p, pp_StartAt = pr_StartAt p, pp_Quantity = pr_Quantity p,
      pp_NumReserved = pr_NumReserved p, pp_Available = pr_Quantity p - pr_NumReserved p\<rparr>"

record meResponse =
  me_ID :: int
  me_Email :: string
  me_Subject :: string
  me_Groups :: "string list"
  me_IsVendor :: bool

datatype api_body =
    OneOrder orderResponse
  | ManyOrders "orderResponse list"
  | Checkout orderResponse string
  | OneProduct productResponse
  | ManyProducts "productResponse list"
  | Me meResponse
  | Status "(string \<times> string) list"
  | Plain string
  | ReadyBody readyResponse
  | FileBody string string

type_synonym reply_prog = "api_body response prog"

definition respond :: "api_body response \<Rightarrow> reply_prog" where
  "respond x = ret x"

section \<open>Orders\<close>

definition writeOrderError :: "(error \<Rightarrow> string) \<Rightarrow> error \<Rightarrow> api_body response" where
  "writeOrderError drv err =
     (if errors_Is err ErrNoRows then WriteError 404 CodeNotFound ''order not found''
      else if errors_Is err ErrForbidden then WriteError 403 CodeForbidden (error_text drv err)
      else if errors_Is err ErrOutOfStock then WriteError 409 CodeOutOfStock (error_text drv err)
      else if errors_Is err ErrOrderNotPending then WriteError 409 CodeOrderNotPending (error_text drv err)
      else if errors_Is err ErrIdempotencyKeyReused
      then WriteError 409 CodeIdempotencyKeyReused (error_text drv err)
      else if errors_Is err ErrReserveInProgress
      then WriteError 409 CodeReserveInProgress (error_text drv err)
      else WriteInternalError)"

definition callerAndID :: "string \<Rightarrow> request \<Rightarrow> api_body response + (claims \<times> int)" where
  "callerAndID idparam r =
     (case parse_int64 idparam of
        None \<Rightarrow> Inl (WriteError 400 CodeInvalidRequest ''invalid order id'')
      | Some i \<Rightarrow>
          (case FromContext r of
             None \<Rightarrow> Inl (WriteError 401 CodeUnauthorized ''unauthorized'')
           | Some c \<Rightarrow> Inr (c, i)))"

definition h_GetOrder :: "(error \<Rightarrow> string) \<Rightarrow> string \<Rightarrow> request \<Rightarrow> reply_prog" where
  "h_GetOrder drv idparam r =
     (case callerAndID idparam r of
        Inl resp \<Rightarrow> respond resp
      | Inr (cl, i) \<Rightarrow>
          handle (svc_GetOrder i cl) (\<lambda>x. case x of
             Inl e \<Rightarrow> respond (writeOrderError drv e)
           | Inr row \<Rightarrow> respond (Write 200 (OneOrder (fromOrder (j_Order row) [])))))"

definition h_ListOrders :: "(error \<Rightarrow> string) \<Rightarrow> request \<Rightarrow> reply_prog" where
  "h_ListOrders drv r =
     (case FromContext r of
        None \<Rightarrow> respond (WriteError 401 CodeUnauthorized ''unauthorized'')
      | Some cl \<Rightarrow>
          (case parsePagination (q_Query r) of
             Inl msg \<Rightarrow> respond (WriteError 400 CodeInvalidRequest msg)
           | Inr (limit, offset) \<Rightarrow>
               handle (svc_ListOrders cl limit offset) (\<lambda>x. case x of
                  Inl e \<Rightarrow> respond (writeOrderError drv e)
                | Inr rows \<Rightarrow>
                    respond (Write 200 (ManyOrders (map (\<lambda>o'. fromOrder (l_Order o') (l_ProductName o')) rows))))))"

definition order_field :: "int \<Rightarrow> string \<Rightarrow> json \<Rightarrow> int option" where
  "order_field cur k v = (if same_field ''product_id'' k then decode_int 64 cur v else None)"

definition h_CreateOrder ::
  "(error \<Rightarrow> string) \<Rightarrow> (string \<Rightarrow> json option) \<Rightarrow> orders_svc \<Rightarrow> int \<Rightarrow> request \<Rightarrow> reply_prog" where
  "h_CreateOrder drv parse s now r =
     (case Decode parse order_field 0 (q_Body r) of
        None \<Rightarrow> respond (WriteError 400 CodeInvalidRequest ''invalid request body'')
      | Some productID \<Rightarrow>
          if productID \<le> 0 then respond (WriteError 400 CodeInvalidRequest ''product_id is required'')
          else (case FromContext r of
              None \<Rightarrow> respond (WriteError 401 CodeUnauthorized ''unauthorized'')
            | Some cl \<Rightarrow>
                handle (svc_CreateOrder s now productID cl (get_first ''Idempotency-Key'' (q_Headers r))) (\<lambda>x. case x of
                   Inl e \<Rightarrow> respond (writeOrderError drv e)
                 | Inr order \<Rightarrow> respond (Write 201 (OneOrder (fromOrder order []))))))"

definition h_Checkout :: "(error \<Rightarrow> string) \<Rightarrow> orders_svc \<Rightarrow> int \<Rightarrow> string \<Rightarrow> request \<Rightarrow> reply_prog" where
  "h_Checkout drv s now idparam r =
     (case callerAndID idparam r of
        Inl resp \<Rightarrow> respond resp
      | Inr (cl, i) \<Rightarrow>
          handle (svc_Checkout s now i cl) (\<lambda>x. case x of
             Inl e \<Rightarrow> respond (writeOrderError drv e)
           | Inr res \<Rightarrow> respond (Write 200 (Checkout (fromOrder (cr_Order res) []) (cr_ClientSecret res)))))"

definition h_CancelOrder :: "(error \<Rightarrow> string) \<Rightarrow> string \<Rightarrow> request \<Rightarrow> reply_prog" where
  "h_CancelOrder drv idparam r =
     (case callerAndID idparam r of
        Inl resp \<Rightarrow> respond resp
      | Inr (cl, i) \<Rightarrow>
          handle (svc_CancelOrder i cl) (\<lambda>x. case x of
             Inl e \<Rightarrow> respond (writeOrderError drv e)
           | Inr order \<Rightarrow> respond (Write 200 (OneOrder (fromOrder order [])))))"

section \<open>Products\<close>

definition h_ListProducts :: "request \<Rightarrow> reply_prog" where
  "h_ListProducts r =
     (case parsePagination (q_Query r) of
        Inl msg \<Rightarrow> respond (WriteError 400 CodeInvalidRequest msg)
      | Inr (limit, offset) \<Rightarrow>
          handle (svc_ListProducts limit offset) (\<lambda>x. case x of
             Inl e \<Rightarrow> respond WriteInternalError
           | Inr rows \<Rightarrow> respond (Write 200 (ManyProducts (map newProductResponse rows)))))"

definition h_GetProduct :: "string \<Rightarrow> request \<Rightarrow> reply_prog" where
  "h_GetProduct idparam r =
     (case parse_int64 idparam of
        None \<Rightarrow> respond (WriteError 400 CodeInvalidRequest ''invalid product id'')
      | Some i \<Rightarrow>
          handle (svc_GetProduct i) (\<lambda>x. case x of
             Inl e \<Rightarrow> if errors_Is e ErrNoRows then respond (WriteError 404 CodeNotFound ''product not found'')
                      else respond WriteInternalError
           | Inr p \<Rightarrow> respond (Write 200 (OneProduct (newProductResponse p)))))"

text \<open>The zero time.Time, in microseconds of the Unix clock.\<close>

definition zero_time :: int where "zero_time = - 62135596800 * 1000000"

definition product_field ::
  "(string \<Rightarrow> int option) \<Rightarrow> create_product_params \<Rightarrow> string \<Rightarrow> json \<Rightarrow> create_product_params option" where
  "product_field parse_time p k v =
     (if same_field ''name'' k then map_option (\<lambda>s. p\<lparr>cp_Name := s\<rparr>) (decode_string (cp_Name p) v)
      else if same_field ''price_in_cents'' k
      then map_option (\<lambda>n. p\<lparr>cp_PriceInCents := n\<rparr>) (decode_int 32 (cp_PriceInCents p) v)
      else if same_field ''start_at'' k
      then (case v of JNull \<Rightarrow> Some p
          | JStr s \<Rightarrow> map_option (\<lambda>t. p\<lparr>cp_StartAt := t\<rparr>) (parse_time s) | _ \<Rightarrow> None)
      else if same_field ''quantity'' k
      then map_option (\<lambda>n. p\<lparr>cp_Quantity := n\<rparr>) (decode_int 32 (cp_Quantity p) v)
      else None)"

definition h_CreateProduct ::
  "(string \<Rightarrow> json option) \<Rightarrow> (string \<Rightarrow> int option) \<Rightarrow> int \<Rightarrow> request \<Rightarrow> reply_prog" where
  "h_CreateProduct parse parse_time now r =
     (case Decode parse (product_field parse_time)
         \<lparr>cp_Name = [], cp_PriceInCents = 0, cp_StartAt = zero_time, cp_Quantity = 0\<rparr> (q_Body r) of
        None \<Rightarrow> respond (WriteError 400 CodeInvalidRequest ''invalid request body'')
      | Some req \<Rightarrow>
          if cp_Name req = [] \<or> cp_PriceInCents req < 0 \<or> cp_Quantity req < 0
          then respond (WriteError 400 CodeInvalidRequest
                 ''name, non-negative price_in_cents and quantity are required'')
          else
            let req' = (if cp_StartAt req = zero_time then req\<lparr>cp_StartAt := now\<rparr> else req) in
            handle (svc_CreateProduct req') (\<lambda>x. case x of
               Inl e \<Rightarrow> respond WriteInternalError
             | Inr p \<Rightarrow> respond (Write 201 (OneProduct (newProductResponse p)))))"

section \<open>GET /me\<close>

definition h_GetMe :: "string \<Rightarrow> request \<Rightarrow> reply_prog" where
  "h_GetMe vendorGroup r =
     (case FromContext r of
        None \<Rightarrow> respond (WriteError 401 CodeUnauthorized ''unauthorized'')
      | Some cl \<Rightarrow>
          if Email cl = [] then respond (WriteError 400 CodeInvalidRequest ''token has no email claim'')
          else handle (GetOrCreate cl) (\<lambda>x. case x of
              Inl e \<Rightarrow> respond WriteInternalError
            | Inr c \<Rightarrow> respond (Write 200 (Me \<lparr>me_ID = c_ID c, me_Email = c_Email c,
                  me_Subject = text_of (c_CognitoSub c), me_Groups = Groups cl,
                  me_IsVendor = HasGroup cl vendorGroup\<rparr>))))"

section \<open>Safety\<close>

lemma pooled_respond [good_intros]: "pooled (respond x)"
  by (simp add: respond_def pooled_ret)

lemma pooled_orders_reads: "pooled (h_GetOrder drv i r)" "pooled (h_ListOrders drv r)"
  unfolding h_GetOrder_def h_ListOrders_def
  by (auto intro!: pooled_handle pooled_respond quiet_pooled [OF quiet_GetOrder] quiet_pooled [OF quiet_ListOrders]
      split: sum.split prod.split option.split)

lemma pooled_orders_writes:
  "(\<And>p. pooled (reserve_by s p)) \<Longrightarrow> pooled (h_CreateOrder drv ps s now r)"
  "pooled (h_Checkout drv s now i r)" "pooled (h_CancelOrder drv i r)"
  unfolding h_CreateOrder_def h_Checkout_def h_CancelOrder_def svc_CreateOrder_def
  by (auto intro!: pooled_handle pooled_respond pooled_Checkout closed_pooled [OF closed_CancelOrder]
      split: sum.split prod.split option.split)

lemma pooled_products:
  "pooled (h_ListProducts r)" "pooled (h_GetProduct i r)" "pooled (h_CreateProduct ps pt now r)"
  unfolding h_ListProducts_def h_GetProduct_def h_CreateProduct_def Let_def
  by (auto intro!: pooled_handle pooled_respond quiet_pooled [OF quiet_ListProducts] quiet_pooled [OF quiet_GetProduct]
      closed_pooled [OF closed_CreateProduct] split: sum.split prod.split option.split)

lemma pooled_GetMe: "pooled (h_GetMe vg r)"
  unfolding h_GetMe_def GetOrCreate_def
  by (auto intro!: pooled_handle pooled_respond quiet_pooled [OF quiet_Link] split: sum.split option.split)

end
