(* ===== verification/Api.thy ===== *)
theory Api
  imports Handlers
begin

text \<open>
  cmd/api.go: how the parts are put together. mount chooses the reserve strategy, wraps the
  routes in their middleware and lists the background jobs; app_prog says which programs the
  sessions of a running process execute: one per request, and the turns of the background
  jobs. Matching a path to a route is the router's (chi); the table of routes is here.
\<close>

section \<open>Configuration\<close>

definition mount_reserve :: "(string \<Rightarrow> string) \<Rightarrow> string \<Rightarrow> bool \<Rightarrow> bool \<Rightarrow> error + (reserve_params \<Rightarrow> order prog)" where
  "mount_reserve sum256 reserveStrategy customerCache idempotency =
     (let resolve = (if customerCache then CachedResolve else DirectResolve) in
      case StrategyByName reserveStrategy of
        Inl e \<Rightarrow> Inl e
      | Inr a \<Rightarrow> Inr (strategy_Reserve sum256 resolve (if idempotency then WithIdempotency (Arm a) else Arm a)))"

record app_config =
  ac_sum256 :: "string \<Rightarrow> string"
  ac_reserveStrategy :: string
  ac_customerCache :: bool
  ac_idempotency :: bool
  ac_reservationTTL :: int
  ac_sweepBatchSize :: int
  ac_maxAttempts :: int
  ac_vendorGroup :: string
  ac_gateway :: "payment_intent_params \<Rightarrow> error + payment_intent"
  ac_verify :: "string \<Rightarrow> error + (string \<times> json)"
  ac_parse_json :: "string \<Rightarrow> json option"
  ac_parse_time :: "string \<Rightarrow> int option"
  ac_driver_text :: "error \<Rightarrow> string"
  ac_construct_event :: "string \<Rightarrow> string \<Rightarrow> error + (string \<times> string \<times> int)"
  ac_event_object :: "string \<Rightarrow> error + string option"
  ac_poller :: "poller option"
  ac_web :: "(string \<Rightarrow> bool) option"

definition payments_of :: "app_config \<Rightarrow> payments_env" where
  "payments_of a = \<lparr>event_object = ac_event_object a, parse_json = ac_parse_json a, driver_text = ac_driver_text a\<rparr>"

text \<open>A bad strategy name is a boot panic: no service.\<close>

definition service_of :: "app_config \<Rightarrow> error + orders_svc" where
  "service_of a =
     (case mount_reserve (ac_sum256 a) (ac_reserveStrategy a) (ac_customerCache a) (ac_idempotency a) of
        Inl e \<Rightarrow> Inl e
      | Inr rs \<Rightarrow> Inr \<lparr>gateway = ac_gateway a, reserve_by = rs, reservationTTL = ac_reservationTTL a\<rparr>)"

section \<open>Routes\<close>

datatype route =
    GetHealth | GetReady | GetProducts | GetProductID | PostWebhook
  | GetMeRoute | PostProducts | GetOrders | GetOrderID | PostOrders | PostCheckout | DeleteOrder
  | GetSpa

definition route_table :: "(string \<times> string \<times> route) list" where
  "route_table =
     [(''GET'', ''/health'', GetHealth),
      (''GET'', ''/products'', GetProducts),
      (''GET'', ''/products/{id}'', GetProductID),
      (''POST'', ''/webhooks/stripe'', PostWebhook),
      (''GET'', ''/me'', GetMeRoute),
      (''POST'', ''/products'', PostProducts),
      (''GET'', ''/orders'', GetOrders),
      (''GET'', ''/orders/{id}'', GetOrderID),
      (''POST'', ''/orders'', PostOrders),
      (''POST'', ''/orders/{id}/checkout'', PostCheckout),
      (''DELETE'', ''/orders/{id}'', DeleteOrder),
      (''GET'', ''/health/ready'', GetReady),
      (''GET'', ''/*'', GetSpa)]"

text \<open>The routes inside r.Group with auth.Middleware.\<close>

definition authed :: "route \<Rightarrow> bool" where
  "authed rt = (rt \<in> set [GetMeRoute, PostProducts, GetOrders, GetOrderID, PostOrders, PostCheckout, DeleteOrder])"

definition map_body :: "('a \<Rightarrow> 'b) \<Rightarrow> 'a response \<Rightarrow> 'b response" where
  "map_body f r =
     \<lparr>r_Status = r_Status r, r_Headers = r_Headers r,
      r_Body = (case r_Body r of Data x \<Rightarrow> Data (f x) | ErrorBody c m \<Rightarrow> ErrorBody c m)\<rparr>"

definition webhook_route :: "app_config \<Rightarrow> request \<Rightarrow> reply_prog" where
  "webhook_route a r =
     call (HandleWebhook (ac_construct_event a) r) (\<lambda>x. ret (map_body Status x))"

definition web_route :: "app_config \<Rightarrow> request \<Rightarrow> reply_prog" where
  "web_route a r =
     (case spa_Handler (ac_web a) (q_Path r) of
        NotFound404 \<Rightarrow> respond (WriteError 404 CodeNotFound ''not found'')
      | ServeFile name cc \<Rightarrow>
          respond \<lparr>r_Status = 200, r_Headers = [(''Cache-Control'', cc)], r_Body = Data (FileBody name cc)\<rparr>)"

text \<open>
  The handler behind a route, given the verified request; ping and view are what the
  readiness probe sees, now is time.Now and ready_now the probe's clock.
\<close>

fun handler_of :: "app_config \<Rightarrow> orders_svc \<Rightarrow> int \<Rightarrow> error + unit \<Rightarrow> poller_view option \<Rightarrow> route \<Rightarrow> string \<Rightarrow> request \<Rightarrow> reply_prog" where
  "handler_of a s now ping pv GetHealth idp r =
     respond \<lparr>r_Status = 200, r_Headers = [], r_Body = Data (Plain ''all good'')\<rparr>"
| "handler_of a s now ping pv GetReady idp r = respond (map_body ReadyBody (readyHandler ping pv now))"
| "handler_of a s now ping pv GetProducts idp r = h_ListProducts r"
| "handler_of a s now ping pv GetProductID idp r = h_GetProduct idp r"
| "handler_of a s now ping pv PostWebhook idp r = webhook_route a r"
| "handler_of a s now ping pv GetMeRoute idp r = h_GetMe (ac_vendorGroup a) r"
| "handler_of a s now ping pv PostProducts idp r =
     RequireGroup respond (ac_vendorGroup a) (h_CreateProduct (ac_parse_json a) (ac_parse_time a) now) r"
| "handler_of a s now ping pv GetOrders idp r = h_ListOrders (ac_driver_text a) r"
| "handler_of a s now ping pv GetOrderID idp r = h_GetOrder (ac_driver_text a) idp r"
| "handler_of a s now ping pv PostOrders idp r = h_CreateOrder (ac_driver_text a) (ac_parse_json a) s now r"
| "handler_of a s now ping pv PostCheckout idp r = h_Checkout (ac_driver_text a) s now idp r"
| "handler_of a s now ping pv DeleteOrder idp r = h_CancelOrder (ac_driver_text a) idp r"
| "handler_of a s now ping pv GetSpa idp r = web_route a r"

definition serve :: "app_config \<Rightarrow> orders_svc \<Rightarrow> int \<Rightarrow> error + unit \<Rightarrow> poller_view option \<Rightarrow> route \<Rightarrow> string \<Rightarrow> request \<Rightarrow> reply_prog" where
  "serve a s now ping pv rt idp r =
     (let h = handler_of a s now ping pv rt idp in
      if authed rt then Middleware respond (ac_verify a) h r else h r)"

section \<open>The programs of a running process\<close>

text \<open>
  A request starts without claims: only the auth middleware adds them. It may be answered by a
  rate limiter instead. A background job is its loop; one turn of it is a program as well.
\<close>

inductive job_prog :: "app_config \<Rightarrow> unit prog \<Rightarrow> bool" for a where
  worker: "job_prog a (discard (drain fuel (payments_of a) (ac_maxAttempts a)))"
| sweeper: "job_prog a (discard (sweepAll fuel (ac_sweepBatchSize a)))"
| polling: "ac_poller a = Some po \<Longrightarrow> job_prog a (discard (pollOnce po now later u))"
| worker_job: "job_prog a (discard (Worker_Run fuel (payments_of a) (ac_maxAttempts a) ss))"
| sweeper_job: "job_prog a (discard (Sweeper_Run fuel (ac_sweepBatchSize a) ss))"
| poller_job: "ac_poller a = Some po \<Longrightarrow> job_prog a (discard (Poller_Run po first ts))"

inductive app_prog :: "app_config \<Rightarrow> unit prog \<Rightarrow> bool" for a where
  request: "service_of a = Inr s \<Longrightarrow> q_Claims r = None \<Longrightarrow>
     app_prog a (discard (serve a s now ping pv rt idp r))"
| limited: "app_prog a (discard (respond too_many))"
| job: "job_prog a p \<Longrightarrow> app_prog a p"

section \<open>Every one of them is safe\<close>

lemma service_pooled: "service_of a = Inr s \<Longrightarrow> pooled (reserve_by s p)"
  by (auto simp: service_of_def mount_reserve_def Let_def direct.pooled_strategy_Reserve
      cached.pooled_strategy_Reserve simp del: strategy_Reserve.simps split: sum.splits if_splits)

lemma pooled_RequireGroup: "(\<And>r. pooled (next r)) \<Longrightarrow> pooled (RequireGroup respond g next r)"
  by (simp add: RequireGroup_def pooled_respond split: option.split)

lemma pooled_Middleware: "(\<And>r. pooled (next r)) \<Longrightarrow> pooled (Middleware respond idv next r)"
  by (simp add: Middleware_def pooled_respond split: option.split sum.split)

lemma pooled_handler_of:
  assumes "service_of a = Inr s"
  shows "pooled (handler_of a s now ping pv rt idp r)"
  using service_pooled [OF assms]
  by (cases rt)
    (simp_all add: pooled_respond pooled_orders_reads pooled_orders_writes pooled_products pooled_GetMe
      pooled_RequireGroup webhook_route_def web_route_def pooled_call pooled_ret
      quiet_pooled quiet_HandleWebhook split: spa_reply.split)

lemma pooled_serve: "service_of a = Inr s \<Longrightarrow> pooled (serve a s now ping pv rt idp r)"
  by (simp add: serve_def Let_def pooled_handler_of pooled_Middleware)

lemma pooled_job: "job_prog a p \<Longrightarrow> pooled p"
proof (induction rule: job_prog.induct)
  case (worker fuel)
  show ?case by (intro pooled_discard closed_pooled closed_drain)
next
  case (sweeper fuel)
  show ?case by (intro pooled_discard closed_pooled closed_sweepAll)
next
  case (polling po now later u)
  show ?case by (intro pooled_discard quiet_pooled quiet_pollOnce)
next
  case (worker_job fuel ss)
  show ?case by (intro pooled_discard pooled_Worker_Run)
next
  case (sweeper_job fuel ss)
  show ?case by (intro pooled_discard pooled_Sweeper_Run)
next
  case (poller_job po first ts)
  show ?case by (intro pooled_discard quiet_pooled quiet_Poller_Run)
qed

lemma app_prog_safe: "app_prog a p \<Longrightarrow> safe p [] finished"
proof (induction rule: app_prog.induct)
  case (request s r now ping pv rt idp)
  then show ?case by (intro pooled_safe pooled_discard pooled_serve)
next
  case limited
  show ?case by (intro pooled_safe pooled_discard pooled_respond)
next
  case (job p)
  then show ?case by (intro pooled_safe pooled_job)
qed

section \<open>Authentication is in front of every private route\<close>

lemma serve_denied:
  assumes "authed rt" "\<And>raw. bearerToken r = Some raw \<Longrightarrow> \<exists>e. Verify (ac_verify a) raw = Inl e"
  shows "\<exists>code msg. serve a s now ping pv rt idp r = respond (WriteError 401 code msg)"
  using assms(1)
  by (cases rule: Middleware_cases [of respond "ac_verify a" "handler_of a s now ping pv rt idp" r])
    (auto simp: serve_def dest!: assms(2))

section \<open>The rate limiters\<close>

text \<open>
  The chain of middleware in front of the handlers, as mount builds it: RealIP (chi's, a
  parameter real_ip), the limiter by address on every route, and inside the authenticated
  group the limiter by subject, behind the token. The two limiters' buckets are the state.
  RequestID, Logger, Recoverer, Timeout and the CORS headers are not modelled.
\<close>

record 'b limits =
  by_address :: "'b limiter"
  by_subject :: "'b limiter"

definition front ::
  "(request \<Rightarrow> request) \<Rightarrow> 'b limits \<Rightarrow> int \<Rightarrow> app_config \<Rightarrow> orders_svc \<Rightarrow> int \<Rightarrow> error + unit \<Rightarrow> poller_view option \<Rightarrow>
     route \<Rightarrow> string \<Rightarrow> request \<Rightarrow> 'b buckets \<times> 'b buckets \<Rightarrow> reply_prog \<times> ('b buckets \<times> 'b buckets)" where
  "front real_ip ls tick a s now ping pv rt idp r bs =
     (let h = handler_of a s now ping pv rt idp;
          keep = (\<lambda>x. (respond x, snd bs));
          inner = (\<lambda>r. if authed rt
             then Middleware keep (ac_verify a) (\<lambda>r. limit_by respond (by_subject ls) BySubject tick h r (snd bs)) r
             else (h r, snd bs)) in
      case limit_by keep (by_address ls) ByIP tick inner (real_ip r) (fst bs) of
        ((p, subjects), addresses) \<Rightarrow> (p, (addresses, subjects)))"

lemma limit_by_cases:
  "fst (limit_by reject l keyFor now next r bs) = next r \<or> fst (limit_by reject l keyFor now next r bs) = reject too_many"
  by (auto simp: limit_by_def Let_def split: prod.split bool.split)

text \<open>What the chain runs is the route behind its middleware, or the refusal.\<close>

lemma front_runs:
  "fst (front real_ip ls tick a s now ping pv rt idp r bs) \<in>
     {serve a s now ping pv rt idp (real_ip r), respond too_many}"
proof -
  let ?h = "handler_of a s now ping pv rt idp"
  let ?lim = "\<lambda>r. limit_by respond (by_subject ls) BySubject tick ?h r (snd bs)"
  let ?inner = "\<lambda>r. if authed rt then Middleware (\<lambda>x. (respond x, snd bs)) (ac_verify a) ?lim r else (?h r, snd bs)"
  have inner: "fst (?inner (real_ip r)) \<in> {serve a s now ping pv rt idp (real_ip r), respond too_many}"
    using limit_by_cases [of respond "by_subject ls" BySubject tick ?h _ "snd bs"]
    by (auto simp: serve_def Middleware_def Let_def split: option.split sum.split)
  have run: "fst (front real_ip ls tick a s now ping pv rt idp r bs) =
      fst (fst (limit_by (\<lambda>x. (respond x, snd bs)) (by_address ls) ByIP tick ?inner (real_ip r) (fst bs)))"
    by (simp add: front_def Let_def split_beta)
  show ?thesis
    using limit_by_cases [of "\<lambda>x. (respond x, snd bs)" "by_address ls" ByIP tick ?inner "real_ip r" "fst bs"]
  proof
    assume eq: "fst (limit_by (\<lambda>x. (respond x, snd bs)) (by_address ls) ByIP tick ?inner (real_ip r) (fst bs)) = ?inner (real_ip r)"
    show ?thesis unfolding run eq by (rule inner)
  next
    assume eq: "fst (limit_by (\<lambda>x. (respond x, snd bs)) (by_address ls) ByIP tick ?inner (real_ip r) (fst bs)) = (respond too_many, snd bs)"
    show ?thesis unfolding run eq by simp
  qed
qed

text \<open>So every answer of the running process is one of its programs.\<close>

lemma front_app:
  assumes "service_of a = Inr s" "q_Claims (real_ip r) = None"
  shows "app_prog a (discard (fst (front real_ip ls tick a s now ping pv rt idp r bs)))"
  using front_runs [of real_ip ls tick a s now ping pv rt idp r bs] assms
  by (auto intro: app_prog.request app_prog.limited)

text \<open>A request without a token is charged to its address only, and never reaches a handler.\<close>

lemma front_denied:
  assumes "authed rt" "\<And>raw. bearerToken (real_ip r) = Some raw \<Longrightarrow> \<exists>e. Verify (ac_verify a) raw = Inl e"
  shows "snd (snd (front real_ip ls tick a s now ping pv rt idp r bs)) = snd bs \<and>
    (\<exists>st code msg hs. st \<in> {401, 429} \<and>
       fst (front real_ip ls tick a s now ping pv rt idp r bs) = respond \<lparr>r_Status = st, r_Headers = hs, r_Body = ErrorBody code msg\<rparr>)"
proof -
  have m: "\<exists>code msg. Middleware (\<lambda>x. (respond x, snd bs)) (ac_verify a) k (real_ip r) =
      (respond (WriteError 401 code msg), snd bs)" for k
    using assms(2) by (auto simp: Middleware_def split: option.split sum.split dest: sym)
  then obtain code msg where
    "Middleware (\<lambda>x. (respond x, snd bs)) (ac_verify a)
       (\<lambda>r. limit_by respond (by_subject ls) BySubject tick (handler_of a s now ping pv rt idp) r (snd bs)) (real_ip r) =
     (respond (WriteError 401 code msg), snd bs)" by blast
  then show ?thesis
    using assms(1)
    by (auto simp: front_def Let_def limit_by_def too_many_def WriteError_def write_body_def split: prod.split bool.split)
qed

end
