(* ===== verification/Purchase.thy ===== *)
theory Purchase
  imports Ledger Api
begin

text \<open>
  The books of the running process: which of its programs make an order, how many, and what
  they answer when they have. A request to POST /orders without an idempotency key makes at
  most one; if it answers 201 it has made exactly the order it shows; if it answers anything
  but 201 and 500 it has made none. No other request and no background job makes one.
\<close>

section \<open>Messages lost by the infrastructure\<close>

fun lost :: "error \<Rightarrow> bool" where
  "lost (Infra m) = True"
| "lost e = False"

text \<open>What the environment may do to a message: lose it, with an error of its own.\<close>

fun lossy :: "choice \<Rightarrow> bool" where
  "lossy Healthy = True"
| "lossy (LostRequest e) = lost e"
| "lossy (LostReply e) = lost e"

lemma lossy_may_fail [simp]: "may_fail lossy e = lost e"
  by (simp add: may_fail_def)

lemma lost_not_sentinel: "lost e \<Longrightarrow> writeOrderError drv e = WriteInternalError" "lost e \<Longrightarrow> \<not> errors_Is e ErrNoRows"
  by (cases e; simp add: writeOrderError_def)+

section \<open>The arms\<close>

text \<open>What a reserve owes the books.\<close>

definition books_order :: "(choice \<Rightarrow> bool) \<Rightarrow> error + order \<Rightarrow> int list \<Rightarrow> bool" where
  "books_order F r ids =
     (case r of Inr order \<Rightarrow> ids = [o_ID order] | Inl e \<Rightarrow> ids = [] \<or> (length ids = Suc 0 \<and> F (LostReply e)))"

lemma books_order_simps [simp]:
  "books_order F (Inr order) ids \<longleftrightarrow> ids = [o_ID order]"
  "books_order F (Inl e) []"
  by (simp_all add: books_order_def)

lemma books_order_lost: "length ids = Suc 0 \<Longrightarrow> F (LostReply e) \<Longrightarrow> books_order F (Inl e) ids"
  by (simp add: books_order_def)

definition honest_reserve :: "(choice \<Rightarrow> bool) \<Rightarrow> order prog \<Rightarrow> bool" where
  "honest_reserve F p = books F p [] [] (\<lambda>r st ids. st = [] \<and> books_order F r ids)"

lemma calm_linkOnce: "calm tx (linkOnce cl)"
  unfolding linkOnce_def Let_def
  by (auto split: option.split sum.split intro!: calm_intros)

lemma calm_link_tries: "calm tx (link_tries n e cl)"
proof (induction n arbitrary: e)
  case (Suc n)
  then show ?case by (auto split: sum.split intro!: calm_intros calm_linkOnce)
qed (auto split: option.split intro: calm_intros)

lemma calm_Link [calm_intros]: "calm tx (Link cl)"
  by (simp add: Link_def calm_link_tries)

locale calm_resolver = resolver +
  assumes calm_Resolve: "calm False (Resolve cl)"
begin

text \<open>The order is created and its commit is all that is left.\<close>

lemma books_finish:
  "books F (call commit (\<lambda>_. ret order)) [(s, [o_ID order])] []
     (\<lambda>r st ids. length st = Suc 0 \<and> books_order F r ids)"
proof (rule tracks_callI)
  show "books F commit [(s, [o_ID order])] [] (\<lambda>r st ids. length st = Suc 0 \<and>
      (case r of Inr _ \<Rightarrow> ids = [o_ID order] | Inl e \<Rightarrow> ids = [] \<or> (ids = [o_ID order] \<and> F (LostReply e))))"
    by (rule books_commit) auto
qed (auto simp: books_order_def)

lemma births_CreateOrder: "CreateOrder cid p amount expires e = Reply r ws sq \<Longrightarrow> \<not> server_error r \<Longrightarrow>
    \<exists>order. r = Inr order \<and> births ws = [o_ID order]"
  by (auto simp: CreateOrder_def insert_order_def Let_def split: if_splits)

lemma books_create:
  "books F (exec (CreateOrder cid p amount expires)) [(s, [])] []
     (\<lambda>r st ids. ids = [] \<and> length st = Suc 0 \<and> (\<forall>order. r = Inr order \<longrightarrow> st = [(TxLive, [o_ID order])]))"
  by (rule books_exec_tx) (auto dest: births_CreateOrder)

lemma calm_reserve_unit: "calm False (reserve_unit p)"
  unfolding reserve_unit_def by (auto intro!: calm_intros split: sum.split)

lemma books_txn_body:
  "books F (txn_body Resolve reserveLast p) [(TxLive, [])] []
     (\<lambda>r st ids. length st = Suc 0 \<and> books_order F r ids)"
proof -
  let ?Q = "\<lambda>r st ids. length st = Suc 0 \<and> books_order F r ids"
  let ?idle = "\<lambda>r st ids. ids = [] \<and> (\<exists>s. st = [(s, [])])"
  have create_first: "books F (call (exec (CreateOrder cid pid amount expires)) (\<lambda>order.
      call (reserve_unit pid') (\<lambda>_. call commit (\<lambda>_. ret order)))) [(s, [])] [] ?Q" for cid pid amount expires pid' s
    by (rule tracks_callI [OF books_create])
      (auto intro!: tracks_callI [OF books_calm_tx [OF calm_reserve_unit]] books_finish)
  have reserve_first: "books F (call (reserve_unit pid') (\<lambda>_. call (exec (CreateOrder cid pid amount expires)) (\<lambda>order.
      call commit (\<lambda>_. ret order)))) [(s, [])] [] ?Q" for cid pid amount expires pid' s
    by (rule tracks_callI [OF books_calm_tx [OF calm_reserve_unit]])
      (auto intro!: tracks_callI [OF books_create] books_finish)
  have find: "books F (exec (FindProductByID pid)) [(s, [])] [] ?idle" for pid s
    using books_calm_tx [OF writes_exec [OF calm_reads(1)]] by (rule tracks_mono) auto
  have resolve: "books F (Resolve cl) [(TxLive, [])] [] ?idle" for cl
    using books_calm_tx [OF calm_Resolve] by (rule tracks_mono) auto
  show ?thesis
    unfolding txn_body_def
    by (rule tracks_callI [OF resolve], erule conjE, elim exE, simp, rule tracks_callI [OF find])
      (auto simp: Let_def create_first reserve_first)
qed

lemma honest_txn: "honest_reserve F (txn_Reserve Resolve reserveLast p)"
  unfolding honest_reserve_def txn_Reserve_def
  by (rule books_in_tx, rule tracks_mono [OF books_txn_body]) (auto simp: length_Suc_conv)

lemma births_ReserveAndCreateOrder: "ReserveAndCreateOrder p cid expires e = Reply r ws sq \<Longrightarrow>
    if server_error r then True else case r of Inr order \<Rightarrow> births ws = [o_ID order] | Inl x \<Rightarrow> x = ErrNoRows \<and> births ws = []"
  by (auto simp: ReserveAndCreateOrder_def insert_order_def reply_defs Let_def split: option.splits if_splits)

lemma honest_cte:
  assumes F: "\<And>x. F (LostReply x) \<Longrightarrow> lost x"
  shows "honest_reserve F (cte_Reserve Resolve p)"
proof -
  let ?Q = "\<lambda>r st ids. st = [] \<and> books_order F r ids"
  have sell: "books F (exec (ReserveAndCreateOrder pid cid expires)) [] []
      (\<lambda>r st ids. st = [] \<and> (case r of Inr order \<Rightarrow> ids = [o_ID order]
         | Inl e \<Rightarrow> ids = [] \<or> (length ids = Suc 0 \<and> F (LostReply e))))" for pid cid expires
    by (rule books_exec_pool) (auto dest!: births_ReserveAndCreateOrder split: sum.splits if_splits)
  have find: "books F (call (exec (FindProductByID pid)) (\<lambda>_. throw ErrOutOfStock)) [] [] ?Q" for pid
    by (rule tracks_callI [OF books_calm_pool [OF writes_exec [OF calm_reads(1)]]])
      auto
  have "books F (handle (exec (ReserveAndCreateOrder pid cid expires)) (\<lambda>r. case r of
          Inr order \<Rightarrow> ret order
        | Inl e \<Rightarrow> if \<not> errors_Is e ErrNoRows then throw e
            else call (exec (FindProductByID pid)) (\<lambda>_. throw ErrOutOfStock))) [] [] ?Q" for pid cid expires
    by (rule tracks_handleI [OF sell])
      (auto simp: find books_order_lost lost_not_sentinel [OF F] split: sum.splits)
  then show ?thesis
    unfolding honest_reserve_def cte_Reserve_def
    by (intro tracks_callI [OF books_calm_pool [OF calm_Resolve]]) auto
qed

lemma honest_arm: "(\<And>x. F (LostReply x) \<Longrightarrow> lost x) \<Longrightarrow> honest_reserve F (arm_Reserve Resolve a p)"
  by (cases a) (simp_all add: honest_txn honest_cte)

lemma honest_strategy:
  "rp_IdempotencyKey p = [] \<Longrightarrow> (\<And>x. F (LostReply x) \<Longrightarrow> lost x) \<Longrightarrow> honest_reserve F (strategy_Reserve sum256 Resolve s p)"
proof (induction s)
  case (Arm a)
  then show ?case by (simp add: honest_arm)
qed (simp add: idem_Reserve_def)

end

interpretation calm_direct: calm_resolver DirectResolve
  by unfold_locales (auto simp: DirectResolve_def intro!: calm_intros)

interpretation calm_cached: calm_resolver CachedResolve
  by unfold_locales (auto simp: CachedResolve_def DirectResolve_def intro!: calm_intros split: option.split)

section \<open>Everything else makes no orders\<close>

lemma calm_customers [calm_intros]: "calm True (GetOrCreate cl)"
  by (simp add: GetOrCreate_def calm_Link)

lemma calm_orders [calm_intros]:
  "calm True (svc_GetOrder i cl)" "calm True (svc_ListOrders cl k off)" "calm True (svc_Checkout s now i cl)"
  "calm True (svc_CancelOrder i cl)" "calm True (svc_FulfillPayment t)" "calm True (svc_FailPayment t)"
  unfolding svc_GetOrder_def svc_ListOrders_def svc_Checkout_def svc_CancelOrder_def svc_FulfillPayment_def
    svc_FailPayment_def
  by (auto intro!: calm_intros split: sum.split option.split)

lemma calm_sweep [calm_intros]: "calm True (svc_SweepExpired n)"
proof -
  have "calm True (release_each os)" for os
    by (induction os) (auto intro!: calm_intros)
  then show ?thesis
    unfolding svc_SweepExpired_def by (auto intro!: calm_intros)
qed

lemma calm_sweepAll [calm_intros]: "calm True (sweepAll fuel n)"
  by (induction fuel) (auto intro!: calm_intros split: sum.split)

lemma calm_worker_apply [calm_intros]: "calm True (worker_apply pe event)"
  unfolding worker_apply_def Let_def by (auto intro!: calm_intros split: sum.split eventAction.split)

lemma calm_processNext [calm_intros]: "calm True (processNext pe n)"
  unfolding processNext_def mark_event_def
  by (auto intro!: calm_intros split: sum.split)

lemma calm_drain [calm_intros]: "calm True (drain fuel pe n)"
  by (induction fuel) (auto intro!: calm_intros split: sum.split)

lemma calm_poll [calm_intros]: "calm True (pollOnce po now later u)"
proof -
  have "calm True (poll_each po ms err f n)" for ms err f n
    by (induction ms arbitrary: f n) (auto intro!: calm_intros split: sum.split)
  then show ?thesis
    unfolding pollOnce_def poll_def
    by (auto intro!: calm_intros split: sum.split prod.split option.split)
qed

lemma calm_runs [calm_intros]:
  "calm True (Worker_Run fuel pe n ss)" "calm True (Sweeper_Run fuel n ss)" "calm True (Poller_Run po first ts)"
proof -
  have "calm True (poller_ticks po u ts)" for u ts
    by (induction ts arbitrary: u) (auto intro!: calm_intros split: tick.split)
  then show "calm True (Poller_Run po first ts)" by (simp only: Poller_Run_def)
qed (auto simp: Worker_Run_def Sweeper_Run_def intro!: calm_intros)

lemma calm_job: "job_prog a p \<Longrightarrow> calm True p"
  by (induction rule: job_prog.induct) (auto intro!: calm_intros)

lemma calm_respond [calm_intros]: "calm True (respond x)"
  by (simp add: respond_def writes_basic)

lemma calm_products [calm_intros]:
  "calm True (svc_ListProducts k off)" "calm True (svc_GetProduct i)" "calm True (svc_CreateProduct p)"
  unfolding svc_ListProducts_def svc_GetProduct_def svc_CreateProduct_def
  by (auto intro!: calm_intros)

lemma calm_handlers:
  "calm True (h_GetOrder drv i r)" "calm True (h_ListOrders drv r)" "calm True (h_Checkout drv s now i r)"
  "calm True (h_CancelOrder drv i r)" "calm True (h_ListProducts r)" "calm True (h_GetProduct i r)"
  "calm True (h_CreateProduct ps pt now r)" "calm True (h_GetMe vg r)" "calm True (webhook_route a r)"
  "calm True (web_route a r)"
  unfolding h_GetOrder_def h_ListOrders_def h_Checkout_def h_CancelOrder_def h_ListProducts_def h_GetProduct_def
    h_CreateProduct_def h_GetMe_def webhook_route_def web_route_def HandleWebhook_def Let_def
  by (auto intro!: calm_intros split: sum.split option.split prod.split spa_reply.split)

lemma calm_serve: "rt \<noteq> PostOrders \<Longrightarrow> calm True (serve a s now ping pv rt idp r)"
proof -
  assume "rt \<noteq> PostOrders"
  then have "calm True (handler_of a s now ping pv rt idp r')" for r'
    by (cases rt) (auto simp: calm_handlers calm_respond RequireGroup_def split: option.split)
  then show ?thesis
    by (auto simp: serve_def Let_def Middleware_def calm_respond split: option.split sum.split)
qed

section \<open>A request that may make one\<close>

definition shown_order :: "api_body response \<Rightarrow> int option" where
  "shown_order resp = (case r_Body resp of Data (OneOrder o') \<Rightarrow> Some (or_ID o') | _ \<Rightarrow> None)"

text \<open>The orders a response answers for: on 201 the one it shows, on 500 one or none, else none.\<close>

definition sold_ids :: "api_body response \<Rightarrow> int list" where
  "sold_ids resp = (if r_Status resp = 201 then (case shown_order resp of Some i \<Rightarrow> [i] | None \<Rightarrow> []) else [])"

definition books_reply :: "api_body response \<Rightarrow> int list \<Rightarrow> bool" where
  "books_reply resp ids =
     (if r_Status resp = 500 then length ids \<le> 1
      else ids = sold_ids resp \<and> (r_Status resp = 201 \<longrightarrow> shown_order resp \<noteq> None))"

lemma sold_ids_length: "length (sold_ids resp) \<le> Suc 0"
  by (simp add: sold_ids_def split: option.split)

lemma books_reply_simps [simp]:
  "r_Status resp \<noteq> 201 \<Longrightarrow> books_reply resp []"
  "books_reply (Write 201 (OneOrder (fromOrder order name))) ids \<longleftrightarrow> ids = [o_ID order]"
  by (auto simp: books_reply_def sold_ids_def shown_order_def fromOrder_def)

lemma error_status: "r_Status (writeOrderError drv e) \<noteq> 201"
  by (simp add: writeOrderError_def WriteInternalError_def)

lemma books_reply_error: "books_order lossy (Inl e) ids \<Longrightarrow> books_reply (writeOrderError drv e) ids"
  by (auto simp: books_order_def lost_not_sentinel error_status)
    (simp add: books_reply_def WriteInternalError_def)

definition owes :: "error + api_body response \<Rightarrow> sheet list \<Rightarrow> int list \<Rightarrow> bool" where
  "owes r st ids = (case r of Inr resp \<Rightarrow> books_reply resp ids | Inl e \<Rightarrow> False)"

lemma books_respond: "r_Status x \<noteq> 201 \<Longrightarrow> books lossy (respond x) [] [] owes"
  by (simp add: respond_def owes_def)

lemma books_CreateOrder:
  assumes "\<And>p. rp_IdempotencyKey p = [] \<Longrightarrow> honest_reserve lossy (reserve_by s p)"
    and "get_first ''Idempotency-Key'' (q_Headers r) = []"
  shows "books lossy (h_CreateOrder drv parse s now r) [] [] owes"
proof -
  have "books lossy (handle (svc_CreateOrder s now productID cl []) (\<lambda>x. case x of
          Inl e \<Rightarrow> respond (writeOrderError drv e)
        | Inr order \<Rightarrow> respond (Write 201 (OneOrder (fromOrder order []))))) [] [] owes" for productID cl
    using assms(1) [of "\<lparr>rp_ProductID = productID, rp_Claims = cl, rp_ExpiresAt = now + reservationTTL s, rp_IdempotencyKey = []\<rparr>"]
    unfolding honest_reserve_def svc_CreateOrder_def
    by (auto simp: respond_def owes_def books_reply_error intro!: tracks_handle elim!: tracks_mono split: sum.split)
  with assms(2) show ?thesis
    by (auto simp: h_CreateOrder_def books_respond split: option.split)
qed

lemma service_honest:
  assumes "service_of a = Inr s" "rp_IdempotencyKey p = []"
  shows "honest_reserve lossy (reserve_by s p)"
  using assms(1) calm_direct.honest_strategy [OF assms(2), where F = lossy] calm_cached.honest_strategy [OF assms(2), where F = lossy]
  by (auto simp: service_of_def mount_reserve_def Let_def simp del: strategy_Reserve.simps split: sum.splits if_splits)

lemma books_PostOrders:
  assumes "service_of a = Inr s" "get_first ''Idempotency-Key'' (q_Headers r) = []"
  shows "books lossy (serve a s now ping pv PostOrders idp r) [] [] owes"
proof -
  let ?h = "handler_of a s now ping pv PostOrders idp"
  have "books lossy (?h (NewContext c r)) [] [] owes" for c
    using books_CreateOrder [of s "NewContext c r"] service_honest [OF assms(1)] assms(2)
    by (simp add: NewContext_def)
  then show ?thesis
    by (cases rule: Middleware_cases [of respond "ac_verify a" ?h r]) (auto simp: serve_def authed_def books_respond)
qed

section \<open>The traffic\<close>

text \<open>
  Requests that buy, whose answers are kept, and everything else the process may run beside
  them.
\<close>

definition answered :: "reply_prog \<Rightarrow> api_body response option prog" where
  "answered p = call p (\<lambda>x. ret (Some x))"

definition unseen :: "unit prog \<Rightarrow> api_body response option prog" where
  "unseen p = call p (\<lambda>_. ret None)"

inductive purchase :: "app_config \<Rightarrow> api_body response option prog \<Rightarrow> bool" for a where
  asked: "service_of a = Inr s \<Longrightarrow> q_Claims r = None \<Longrightarrow> get_first ''Idempotency-Key'' (q_Headers r) = [] \<Longrightarrow>
     purchase a (answered (serve a s now ping pv PostOrders idp r))"
| refused: "purchase a (answered (respond too_many))"

inductive alongside :: "app_config \<Rightarrow> api_body response option prog \<Rightarrow> bool" for a where
  other: "service_of a = Inr s \<Longrightarrow> q_Claims r = None \<Longrightarrow> rt \<noteq> PostOrders \<Longrightarrow>
     alongside a (unseen (discard (serve a s now ping pv rt idp r)))"
| job: "job_prog a p \<Longrightarrow> alongside a (unseen p)"

definition owes_answer :: "error + api_body response option \<Rightarrow> sheet list \<Rightarrow> int list \<Rightarrow> bool" where
  "owes_answer r st ids = (case r of Inr (Some resp) \<Rightarrow> books_reply resp ids | _ \<Rightarrow> False)"

definition owes_nothing :: "error + api_body response option \<Rightarrow> sheet list \<Rightarrow> int list \<Rightarrow> bool" where
  "owes_nothing r st ids = (ids = [])"

text \<open>What is asked of a program that runs beside the purchases.\<close>

definition bystander :: "api_body response option prog \<Rightarrow> bool" where
  "bystander p = (safe p [] finished \<and> books lossy p [] [] owes_nothing)"

lemma purchase_books: "purchase a p \<Longrightarrow> safe p [] finished \<and> books lossy p [] [] owes_answer"
proof (induction rule: purchase.induct)
  case (asked s r now ping pv idp)
  show ?case
    unfolding answered_def
    by (intro conjI pooled_safe pooled_call pooled_serve [OF asked(1)] pooled_ret
        tracks_callI [OF books_PostOrders [OF asked(1,3)]]) (auto simp: owes_def owes_answer_def)
next
  case refused
  show ?case
    unfolding answered_def
    by (intro conjI pooled_safe pooled_call pooled_respond pooled_ret tracks_callI [OF books_respond])
      (auto simp: owes_def owes_answer_def too_many_def WriteError_def write_body_def)
qed

lemma calm_unseen: "calm True p \<Longrightarrow> pooled p \<Longrightarrow> bystander (unseen p)"
  unfolding bystander_def unseen_def owes_nothing_def
  by (intro conjI pooled_safe pooled_call pooled_ret tracks_mono [OF books_calm])
    (auto intro!: calm_intros)

lemma alongside_books: "alongside a p \<Longrightarrow> bystander p"
proof (induction rule: alongside.induct)
  case (other s r rt now ping pv idp)
  then show ?case by (intro calm_unseen writes_discard calm_serve pooled_discard pooled_serve)
next
  case (job p)
  then show ?case by (intro calm_unseen calm_job pooled_job)
qed

section \<open>The account\<close>

definition answer_to :: "api_body response option sys \<Rightarrow> nat \<Rightarrow> api_body response option" where
  "answer_to s i = (case th_prog (threads s ! i) of Return (Inr x) \<Rightarrow> x | _ \<Rightarrow> None)"

text \<open>Of the first k threads: the orders their 201s show, and those that can say nothing for sure.\<close>

definition won :: "nat \<Rightarrow> api_body response option sys \<Rightarrow> int list" where
  "won k s = concat (map (\<lambda>i. case answer_to s i of None \<Rightarrow> [] | Some resp \<Rightarrow> sold_ids resp) [0..<k])"

definition undecided :: "nat \<Rightarrow> api_body response option sys \<Rightarrow> nat list" where
  "undecided k s = filter (\<lambda>i. case answer_to s i of None \<Rightarrow> True | Some resp \<Rightarrow> r_Status resp = 500) [0..<k]"

lemma account_lists:
  assumes "\<And>i. i \<in> set is \<Longrightarrow> if open_at i then w i = [] \<and> length (m i) \<le> 1 else m i = w i"
  shows "mset (concat (map w is)) \<subseteq># mset (concat (map m is)) \<and>
    length (concat (map m is)) \<le> length (concat (map w is)) + length (filter open_at is)"
  using assms
proof (induction "is")
  case (Cons i "is")
  have i: "if open_at i then w i = [] \<and> length (m i) \<le> 1 else m i = w i" by (rule Cons.prems) simp
  have "mset (concat (map w is)) \<subseteq># mset (concat (map m is)) \<and>
      length (concat (map m is)) \<le> length (concat (map w is)) + length (filter open_at is)"
    by (rule Cons.IH, rule Cons.prems) simp
  with i show ?case
    by (cases "open_at i") (auto intro: subset_mset.order_trans [OF _ mset_subset_eq_add_right])
qed simp

lemma books_owed:
  assumes "books lossy p st ids owes_answer"
  shows "length ids \<le> 1"
proof -
  obtain r st' m where "owes_answer r st' (ids @ m)" using books_grow [OF assms] by blast
  then have "length (ids @ m) \<le> 1"
    by (auto simp: owes_answer_def books_reply_def sold_ids_length simp del: length_append
        split: sum.splits option.splits if_splits)
  then show ?thesis by simp
qed

lemma books_owed_nothing: "books lossy p st ids owes_nothing \<Longrightarrow> ids = []"
  using books_grow [of lossy p st ids owes_nothing] by (auto simp: owes_nothing_def)

lemma thread_account:
  assumes "books lossy (th_prog (threads s ! i)) st ids owes_answer"
  shows "if (case answer_to s i of None \<Rightarrow> True | Some resp \<Rightarrow> r_Status resp = 500)
    then (case answer_to s i of None \<Rightarrow> [] | Some resp \<Rightarrow> sold_ids resp) = [] \<and> length ids \<le> 1
    else ids = (case answer_to s i of None \<Rightarrow> [] | Some resp \<Rightarrow> sold_ids resp)"
  using assms books_owed [OF assms]
  by (cases "th_prog (threads s ! i)")
    (auto simp: answer_to_def owes_answer_def books_reply_def sold_ids_def split: sum.splits option.splits if_splits)

text \<open>Every 201 shows an order.\<close>

definition answers_shown :: "nat \<Rightarrow> api_body response option sys \<Rightarrow> bool" where
  "answers_shown k s = list_all (\<lambda>i. case answer_to s i of None \<Rightarrow> True
     | Some resp \<Rightarrow> r_Status resp = 201 \<longrightarrow> shown_order resp \<noteq> None) [0..<k]"

lemma shown_thread:
  "books lossy (th_prog (threads s ! i)) st ids owes_answer \<Longrightarrow>
    case answer_to s i of None \<Rightarrow> True | Some resp \<Rightarrow> r_Status resp = 201 \<longrightarrow> shown_order resp \<noteq> None"
  by (cases "th_prog (threads s ! i)")
    (auto simp: answer_to_def owes_answer_def books_reply_def split: sum.splits option.splits if_splits)

lemma account:
  assumes "db_inv d" "list_all (purchase a) ps" "reaches lossy P (start_with d n ps) s" "\<And>p. P p \<Longrightarrow> bystander p"
  shows "\<exists>new. mset (order_ids (committed (shared s))) = mset (order_ids d) + mset new \<and>
    mset (won (length ps) s) \<subseteq># mset new \<and> length new \<le> length (won (length ps) s) + length (undecided (length ps) s) \<and>
    sys_inv s \<and> answers_shown (length ps) s"
proof -
  let ?k = "length ps"
  have ps: "safe p [] finished \<and> books lossy p [] [] owes_answer" if "p \<in> set ps" for p
    using assms(2) that purchase_books by (auto simp: list_all_iff)
  have "ledger (order_ids d) [] d" by (simp add: ledger_def)
  then have "sys_inv s \<and> (\<exists>made. tracked order_book lossy ?k owes_answer owes_nothing s made \<and>
      ledger (order_ids d) made (committed (shared s)))"
    by (rule ledger.reaches_tracked [OF assms(3,1)]) (erule ps, use assms(4) in \<open>simp add: bystander_def\<close>)
  then obtain made where inv: "sys_inv s" and l: "tracked order_book lossy ?k owes_answer owes_nothing s made"
    and total: "ledger (order_ids d) made (committed (shared s))"
    by blast
  have len: "length made = length (threads s)" "?k \<le> length made" using l by (auto simp: tracked_def)
  have b: "books lossy (th_prog (threads s ! i)) (map (sheet_of order_book) (th_txs (threads s ! i))) (made ! i)
      (if i < ?k then owes_answer else owes_nothing)" if "i < length made" for i
    using l that by (simp add: tracked_def)
  have "made ! i = []" if "?k \<le> i" "i < length made" for i
    using b [OF that(2)] that(1) books_owed_nothing by (simp add: not_less)
  then have rest: "concat (drop ?k made) = []"
    using len by (auto simp: in_set_conv_nth)
  have upto: "take ?k made = map (\<lambda>i. made ! i) [0..<?k]"
    using len by (intro nth_equalityI) simp_all
  have "concat made = concat (map (\<lambda>i. made ! i) [0..<?k])"
    using rest unfolding upto [symmetric] by (metis append_Nil2 append_take_drop_id concat_append)
  moreover have "mset (won ?k s) \<subseteq># mset (concat (map (\<lambda>i. made ! i) [0..<?k])) \<and>
      length (concat (map (\<lambda>i. made ! i) [0..<?k])) \<le> length (won ?k s) + length (undecided ?k s)"
    unfolding won_def undecided_def
  proof (intro account_lists thread_account)
    fix i
    assume "i \<in> set [0..<?k]"
    with b [of i] len show "books lossy (th_prog (threads s ! i)) (map (sheet_of order_book) (th_txs (threads s ! i))) (made ! i) owes_answer"
      by simp
  qed
  moreover have "answers_shown ?k s"
    unfolding answers_shown_def
  proof (clarsimp simp: list_all_iff)
    fix i
    assume "i < ?k"
    with b [of i] len shown_thread
    show "case answer_to s i of None \<Rightarrow> True | Some resp \<Rightarrow> r_Status resp = 201 \<longrightarrow> shown_order resp \<noteq> None"
      by simp
  qed
  ultimately show ?thesis using total inv by (auto simp: ledger_def)
qed

text \<open>The rows added since d.\<close>

definition new_orders :: "db \<Rightarrow> db \<Rightarrow> int list" where
  "new_orders d d' = filter (\<lambda>i. i \<notin> set (order_ids d)) (order_ids d')"

lemma mset_added:
  assumes "mset ys = mset xs + mset new" "distinct ys"
  shows "mset (filter (\<lambda>i. i \<notin> set xs) ys) = mset new" "distinct new"
proof -
  have d: "distinct (xs @ new)"
    using assms by (metis mset_append mset_eq_imp_distinct_iff)
  then show "distinct new" by simp
  have "filter (\<lambda>i. i \<notin> set xs) (xs @ new) = new"
    using d by (auto simp: filter_id_conv filter_empty_conv)
  moreover have "mset (filter (\<lambda>i. i \<notin> set xs) ys) = mset (filter (\<lambda>i. i \<notin> set xs) (xs @ new))"
    by (simp only: mset_filter assms(1) mset_append)
  ultimately show "mset (filter (\<lambda>i. i \<notin> set xs) ys) = mset new" by simp
qed

lemma distinct_sub_mset: "mset xs \<subseteq># mset ys \<Longrightarrow> distinct ys \<Longrightarrow> distinct xs"
proof -
  assume "mset xs \<subseteq># mset ys" "distinct ys"
  moreover obtain zs where "mset ys = mset xs + mset zs"
    using \<open>mset xs \<subseteq># mset ys\<close> by (metis ex_mset subset_mset.add_diff_inverse)
  ultimately show "distinct xs" by (metis distinct_append mset_append mset_eq_imp_distinct_iff)
qed

lemma account_balances:
  assumes "db_inv d" "list_all (purchase a) ps" "reaches lossy P (start_with d n ps) s" "\<And>p. P p \<Longrightarrow> bystander p"
  shows "distinct (won (length ps) s)" "set (won (length ps) s) \<subseteq> set (new_orders d (committed (shared s)))"
    "length (won (length ps) s) \<le> length (new_orders d (committed (shared s)))"
    "length (new_orders d (committed (shared s))) \<le> length (won (length ps) s) + length (undecided (length ps) s)"
    "sys_inv s" "answers_shown (length ps) s"
proof -
  obtain new where new: "mset (order_ids (committed (shared s))) = mset (order_ids d) + mset new"
    "mset (won (length ps) s) \<subseteq># mset new" "length new \<le> length (won (length ps) s) + length (undecided (length ps) s)"
    and inv: "sys_inv s" and shown: "answers_shown (length ps) s"
    using account [OF assms] by blast
  have "distinct (order_ids (committed (shared s)))"
    using inv db_invD(1) by (auto simp: sys_inv_def)
  note n = mset_added [OF new(1) this, folded new_orders_def]
  have len: "length (new_orders d (committed (shared s))) = length new" and sub: "set (new_orders d (committed (shared s))) = set new"
    using n(1) by (metis size_mset, metis set_mset_mset)
  show "distinct (won (length ps) s)"
    using new(2) n(2) by (rule distinct_sub_mset)
  show "set (won (length ps) s) \<subseteq> set (new_orders d (committed (shared s)))"
    using set_mset_mono [OF new(2)] sub by simp
  show "length (won (length ps) s) \<le> length (new_orders d (committed (shared s)))"
    using size_mset_mono [OF new(2)] len by simp
  show "length (new_orders d (committed (shared s))) \<le> length (won (length ps) s) + length (undecided (length ps) s)" "sys_inv s"
    "answers_shown (length ps) s"
    using new(3) len inv shown by simp_all
qed

text \<open>The same run as one of the plain system, where the histories apply.\<close>

lemma traffic_reachable:
  assumes "list_all (purchase a) ps" "reaches lossy P (start_with d n ps) s" "\<And>p. P p \<Longrightarrow> bystander p"
  shows "reachable (\<lambda>p. safe p [] finished) (initial d n) s"
proof -
  have "reaches lossy (\<lambda>p. safe p [] finished) (start_with d n ps) s"
    using assms(2)
    by (induction rule: reaches.induct) (auto intro: reaches.intros dest!: assms(3) simp: bystander_def)
  then show ?thesis
    using assms(1) purchase_books
    by (intro reaches_reachable [OF _ start_with_reachable]) (auto simp: list_all_iff)
qed

end
