(* ===== verification/History.thy ===== *)
theory History
  imports Statements
begin

text \<open>
  What the life of the database looks like from outside, whatever the sessions do: the
  capacity of a product never changes once it has stock, an order keeps its identity and
  only moves along lifecycle edges, a completed idempotency key, a product and a customer's
  Cognito subject are permanent, an inbox event is never lost and never un-processed.
\<close>

definition capacity_history :: "db \<Rightarrow> db \<Rightarrow> bool" where
  "capacity_history d d' =
     (\<forall>p. find_stock p d \<noteq> None \<longrightarrow> find_stock p d' \<noteq> None \<and> capacity p d' = capacity p d)"

definition order_history :: "db \<Rightarrow> db \<Rightarrow> bool" where
  "order_history d d' =
     (\<forall>i r. find_order i d = Some r \<longrightarrow>
        (\<exists>r'. find_order i d' = Some r' \<and> same_order r r' \<and> lifecycle\<^sup>*\<^sup>* (o_Status r) (o_Status r')))"

definition idem_history :: "db \<Rightarrow> db \<Rightarrow> bool" where
  "idem_history d d' =
     (\<forall>k r. find_idem k d = Some r \<longrightarrow> i_OrderID r \<noteq> None \<longrightarrow> find_idem k d' = Some r)"

definition product_history :: "db \<Rightarrow> db \<Rightarrow> bool" where
  "product_history d d' = (\<forall>p x. find_product p d = Some x \<longrightarrow> find_product p d' = Some x)"

definition customer_history :: "db \<Rightarrow> db \<Rightarrow> bool" where
  "customer_history d d' =
     (\<forall>i c s. find_customer i d = Some c \<longrightarrow> c_CognitoSub c = Some s \<longrightarrow>
        (\<exists>c'. find_customer i d' = Some c' \<and> c_CognitoSub c' = Some s))"

definition later_event :: "stripe_event \<Rightarrow> stripe_event \<Rightarrow> bool" where
  "later_event v v' =
     (e_Type v' = e_Type v \<and> e_Payload v' = e_Payload v \<and>
      e_StripeCreatedAt v' = e_StripeCreatedAt v \<and> e_Attempts v \<le> e_Attempts v' \<and>
      (e_ProcessedAt v = None \<or> e_ProcessedAt v' \<noteq> None))"

definition event_history :: "db \<Rightarrow> db \<Rightarrow> bool" where
  "event_history d d' =
     (\<forall>i v. find_event i d = Some v \<longrightarrow> (\<exists>v'. find_event i d' = Some v' \<and> later_event v v'))"

lemma later_event_refl [simp]: "later_event v v"
  by (auto simp: later_event_def)

lemma later_event_trans: "later_event a b \<Longrightarrow> later_event b c \<Longrightarrow> later_event a c"
  unfolding later_event_def by auto

interpretation capacity_log: committed_history capacity_history
proof
  fix d d' :: db
  assume "committed_step d d'"
  then show "capacity_history d d'"
    unfolding capacity_history_def committed_step_def
    by (auto simp: sound_writes_def capacity_applys row_simps find_stock_kept_all [simplified])
qed (auto simp: capacity_history_def)

interpretation product_log: version_history product_history
proof
  fix w d
  assume "old_ok w d"
  then show "product_history d (apply_write w d)"
    by (cases w) (auto simp: product_history_def row_simps)
qed (auto simp: product_history_def row_simps)

interpretation idem_log: version_history idem_history
proof
  fix w d
  assume "old_ok w d" "row_ok w"
  then show "idem_history d (apply_write w d)"
  proof (cases w)
    case (WIdem old r)
    with \<open>old_ok w d\<close> \<open>row_ok w\<close> show ?thesis
      by (cases old) (auto simp: idem_history_def row_simps)
  qed (auto simp: idem_history_def row_simps)
qed (auto simp: idem_history_def row_simps)

interpretation customer_log: version_history customer_history
proof
  fix w d
  assume "old_ok w d" "row_ok w"
  then show "customer_history d (apply_write w d)"
  proof (cases w)
    case (WCustomer old c)
    with \<open>old_ok w d\<close> \<open>row_ok w\<close> show ?thesis
      by (cases old) (auto simp: customer_history_def row_simps)
  qed (auto simp: customer_history_def row_simps)
next
  fix a b c
  assume "customer_history a b" "customer_history b c"
  then show "customer_history a c" unfolding customer_history_def by metis
qed (auto simp: customer_history_def row_simps)

lemma same_order_refl [simp]: "same_order r r"
  by (simp add: same_order_def)

lemma same_order_trans: "same_order a b \<Longrightarrow> same_order b c \<Longrightarrow> same_order a c"
  by (simp add: same_order_def)

interpretation order_log: version_history order_history
proof
  fix w d
  assume "old_ok w d" "row_ok w"
  then show "order_history d (apply_write w d)"
  proof (cases w)
    case (WOrder old r)
    with \<open>old_ok w d\<close> \<open>row_ok w\<close> show ?thesis
      by (cases old) (auto simp: order_history_def row_simps)
  qed (auto simp: order_history_def row_simps)
next
  fix a b c
  assume ab: "order_history a b" and bc: "order_history b c"
  show "order_history a c"
    unfolding order_history_def
  proof (intro allI impI)
    fix i r
    assume "find_order i a = Some r"
    with ab obtain r' where r': "find_order i b = Some r'" "same_order r r'"
      "lifecycle\<^sup>*\<^sup>* (o_Status r) (o_Status r')"
      unfolding order_history_def by blast
    with bc obtain r'' where "find_order i c = Some r''" "same_order r' r''"
      "lifecycle\<^sup>*\<^sup>* (o_Status r') (o_Status r'')"
      unfolding order_history_def by blast
    with r' show "\<exists>r'. find_order i c = Some r' \<and> same_order r r' \<and> lifecycle\<^sup>*\<^sup>* (o_Status r) (o_Status r')"
      by (meson rtranclp_trans same_order_trans)
  qed
qed (auto simp: order_history_def row_simps)

interpretation event_log: version_history event_history
proof
  fix w d
  assume "old_ok w d" "row_ok w"
  then show "event_history d (apply_write w d)"
  proof (cases w)
    case (WEvent old v)
    with \<open>old_ok w d\<close> \<open>row_ok w\<close> show ?thesis
      by (cases old) (auto simp: event_history_def later_event_def row_simps)
  qed (auto simp: event_history_def row_simps)
next
  fix a b c
  assume "event_history a b" "event_history b c"
  then show "event_history a c" 
    unfolding event_history_def by (meson later_event_trans)
qed (auto simp: event_history_def row_simps)

text \<open>
  Every table holds rows of the shape its migrations and its statements give it: orders as in
  order_typed, prices of products that are no less than zero, stock counters within their CHECKs,
  idempotency keys and events with what the code relies on when it reads them back.
\<close>

definition event_typed :: "stripe_event \<Rightarrow> bool" where
  "event_typed v = (0 \<le> e_Attempts v \<and> (e_ProcessedAt v \<noteq> None \<longrightarrow> 0 < e_Attempts v))"

definition tables_typed :: "db \<Rightarrow> bool" where
  "tables_typed d =
     ((\<forall>r \<in> set (orders d). order_typed r) \<and> (\<forall>p \<in> set (products d). 0 \<le> p_PriceInCents p) \<and>
      (\<forall>s \<in> set (stocks d). stock_check s) \<and> (\<forall>v \<in> set (events d). event_typed v))"

lemma tables_typed_apply:
  assumes "old_ok w d" "row_ok w" "tables_typed d"
  shows "tables_typed (apply_write w d)"
proof (cases w)
  case (WOrder old r)
  with assms have "order_typed r"
    by (cases old) (auto simp: tables_typed_def find_order_def dest: find_by_SomeD)
  with WOrder assms(3) show ?thesis by (auto simp: tables_typed_def table_defs dest!: in_put_by)
next
  case (WEvent old v)
  with assms have "event_typed v"
    by (cases old) (auto simp: tables_typed_def event_typed_def find_event_def dest!: find_by_SomeD)
  with WEvent assms(3) show ?thesis by (auto simp: tables_typed_def table_defs dest!: in_put_by)
qed (use assms in \<open>auto simp: tables_typed_def table_defs dest!: in_put_by\<close>)

interpretation typed_log: version_history "\<lambda>d d'. tables_typed d \<longrightarrow> tables_typed d'"
  by unfold_locales (auto simp: tables_typed_apply, simp add: tables_typed_def row_simps)

text \<open>A terminal status is final.\<close>

lemma lifecycle_stuck: "lifecycle\<^sup>*\<^sup>* s t \<Longrightarrow> \<not> live_status s \<Longrightarrow> t = s"
  by (induction rule: converse_rtranclp_induct) (auto dest: lifecycle_from_terminal)

lemma lifecycle_live_back: "lifecycle\<^sup>*\<^sup>* s t \<Longrightarrow> t = StatusPending \<Longrightarrow> s = StatusPending"
  by (induction rule: rtranclp_induct) (auto elim: lifecycle.cases)

end
