(* ===== verification/Sample.thy ===== *)
theory Sample
  imports Purchase History
begin

text \<open>
  A small shop on which the theorems are tried: one product, two customers, the orders,
  inbox events and quantity given. sample_config is a configuration of the process whose
  parameters (the SDKs, the parsers, the digest) are simple concrete functions.
\<close>

definition ann :: claims where "ann = \<lparr>Subject = ''ann'', Email = ''a@x'', Groups = []\<rparr>"
definition bob :: claims where "bob = \<lparr>Subject = ''bob'', Email = ''b@x'', Groups = [''vendors'']\<rparr>"

definition sample_customers :: "customer list" where
  "sample_customers =
     [\<lparr>c_ID = 1, c_Email = ''a@x'', c_CreatedAt = 0, c_CognitoSub = Some ''ann''\<rparr>,
      \<lparr>c_ID = 2, c_Email = ''b@x'', c_CreatedAt = 0, c_CognitoSub = Some ''bob''\<rparr>]"

definition sample_product :: product where
  "sample_product = \<lparr>p_ID = 1, p_Name = ''lamp'', p_PriceInCents = 500, p_CreatedAt = 0, p_StartAt = 0\<rparr>"

definition sample_order :: "int \<Rightarrow> int \<Rightarrow> string \<Rightarrow> string option \<Rightarrow> order" where
  "sample_order k cid st intent =
     \<lparr>o_ID = k, o_CustomerID = cid, o_ProductID = 1, o_Status = st, o_CreatedAt = 10, o_TotalInCents = 500,
      o_ExpiresAt = Some 100, o_StripePaymentIntentID = intent\<rparr>"

definition sample_event :: "string \<Rightarrow> string \<Rightarrow> string \<Rightarrow> int \<Rightarrow> stripe_event" where
  "sample_event k ty payload n =
     \<lparr>e_ID = k, e_Type = ty, e_Payload = payload, e_ReceivedAt = 0, e_ProcessedAt = None, e_Attempts = n,
      e_LastError = None, e_StripeCreatedAt = Some 0\<rparr>"

lemma sample_order_simps [simp]:
  "o_ID (sample_order k c st t) = k" "o_CustomerID (sample_order k c st t) = c"
  "o_ProductID (sample_order k c st t) = 1" "o_Status (sample_order k c st t) = st"
  "o_TotalInCents (sample_order k c st t) = 500" "o_ExpiresAt (sample_order k c st t) = Some 100"
  "o_StripePaymentIntentID (sample_order k c st t) = t"
  "(sample_order k c st t)\<lparr>o_Status := st'\<rparr> = sample_order k c st' t"
  by (simp_all add: sample_order_def)

definition shop :: "int \<Rightarrow> order list \<Rightarrow> order_idempotency list \<Rightarrow> stripe_event list \<Rightarrow> db" where
  "shop q os ks vs =
     \<lparr>customers = sample_customers, products = [sample_product],
      stocks = [\<lparr>s_ID = 1, s_ProductID = 1, s_Quantity = q, s_NumReserved = int (length (filter (is_live 1) os))\<rparr>],
      orders = os, idems = ks, events = vs,
      customer_seq = 3, product_seq = 2, stock_seq = 2, order_seq = 10\<rparr>"

text \<open>A shop with distinct orders of its one product, no more of them live than its quantity.\<close>

lemma shop_inv:
  assumes "distinct (map o_ID os)" "\<forall>r \<in> set os. o_ProductID r = 1"
    and "int (length (filter (is_live 1) os)) \<le> q"
  shows "db_inv (shop q os ks vs)"
proof -
  have "filter (is_live p) os = []" if "p \<noteq> 1" for p
    using assms(2) that by (auto simp: filter_empty_conv is_live_def)
  then show ?thesis
    using assms by (auto simp: db_inv_def shop_def stock_check_def stock_val_def count_orders_def find_stock_def
        find_product_def sample_product_def sample_customers_def)
qed

lemma shop_customers_wf: "customers_wf (shop q os ks vs)"
  by (simp add: customers_wf_def shop_def sample_customers_def)

lemma shop_ready:
  assumes "distinct (map o_ID os)" "\<forall>r \<in> set os. o_ProductID r = 1" "\<forall>r \<in> set os. o_ID r < 10"
    and "int (length (filter (is_live 1) os)) \<le> q"
  shows "ready (shop q os ks vs)"
  unfolding ready_def using shop_inv [OF assms(1,2,4)] shop_customers_wf assms(3)
  by (simp add: shop_def sample_product_def)

definition shop_state :: "db \<Rightarrow> int \<Rightarrow> gstate" where
  "shop_state d n = \<lparr>committed = d, locks = [], clock = n, cache = []\<rparr>"

lemma shop_state_simps [simp]:
  "committed (shop_state d n) = d" "locks (shop_state d n) = []" "clock (shop_state d n) = n"
  "cache (shop_state d n) = []"
  by (simp_all add: shop_state_def)

section \<open>A configuration\<close>

definition sample_gateway :: "payment_intent_params \<Rightarrow> error + payment_intent" where
  "sample_gateway p =
     CreatePaymentIntent (\<lambda>r. Inr \<lparr>pi_ID = ''pi_'' @ ir_IdempotencyKey r, pi_ClientSecret = ''secret''\<rparr>) ''usd'' p"

definition sample_config :: "string \<Rightarrow> bool \<Rightarrow> app_config" where
  "sample_config arm cached =
     \<lparr>ac_sum256 = (\<lambda>s. s), ac_reserveStrategy = arm, ac_customerCache = cached, ac_idempotency = True,
      ac_reservationTTL = 900, ac_sweepBatchSize = 2, ac_maxAttempts = 3, ac_vendorGroup = ''vendors'',
      ac_gateway = sample_gateway,
      ac_verify = (\<lambda>raw. if raw = ''token-ann'' then Inr (''ann'', JObj [(''email'', JStr ''a@x'')])
        else if raw = ''token-bob'' then Inr (''bob'', JObj [(''email'', JStr ''b@x''), (''cognito:groups'', JArr [JStr ''vendors''])])
        else Inl (Infra ''bad token'')),
      ac_parse_json = (\<lambda>s. if s = ''lamp'' then Some (JObj [(''product_id'', JInt 1)])
        else Some (JObj [(''id'', JStr s)])),
      ac_parse_time = (\<lambda>s. None), ac_driver_text = (\<lambda>e. ''driver''),
      ac_construct_event = (\<lambda>b sig. Inl (Infra ''signature'')),
      ac_event_object = (\<lambda>p. Inr (Some p)),
      ac_poller = None, ac_web = None\<rparr>"

definition post_order :: "string \<Rightarrow> string \<Rightarrow> request" where
  "post_order token key =
     \<lparr>q_Method = ''POST'', q_Path = ''/orders'', q_Query = [],
      q_Headers = [(''Authorization'', ''Bearer '' @ token), (''Idempotency-Key'', key)],
      q_Body = ''lamp'', q_RemoteAddr = ''1.2.3.4'', q_Claims = None\<rparr>"

definition sample_service :: "app_config \<Rightarrow> orders_svc" where
  "sample_service a = (case service_of a of Inr s \<Rightarrow> s
     | Inl e \<Rightarrow> \<lparr>gateway = ac_gateway a, reserve_by = (\<lambda>p. throw e), reservationTTL = 0\<rparr>)"

definition buy :: "app_config \<Rightarrow> request \<Rightarrow> unit prog" where
  "buy a r = discard (serve a (sample_service a) 50 (Inr ()) None PostOrders '''' r)"

lemma sample_service:
  "sample_service (sample_config ''baseline'' b) =
     \<lparr>gateway = sample_gateway, reserve_by = idem_Reserve (\<lambda>s. s) (arm_Reserve (if b then CachedResolve else DirectResolve) (TxnStrategy False)),
      reservationTTL = 900\<rparr>"
  "sample_service (sample_config ''cte'' b) =
     \<lparr>gateway = sample_gateway, reserve_by = idem_Reserve (\<lambda>s. s) (arm_Reserve (if b then CachedResolve else DirectResolve) CteStrategy),
      reservationTTL = 900\<rparr>"
  by (simp_all add: sample_service_def service_of_def mount_reserve_def sample_config_def StrategyByName_def
      StrategyBaseline_def StrategyReserveLast_def StrategyCTE_def)

lemma sample_service_of: "service_of (sample_config arm b) = Inr (sample_service (sample_config arm b))"
  if "arm \<in> {''baseline'', ''cte''}"
  using that by (auto simp: sample_service_def service_of_def mount_reserve_def sample_config_def StrategyByName_def
      StrategyBaseline_def StrategyReserveLast_def StrategyCTE_def)

lemma buy_app_prog: "arm \<in> {''baseline'', ''cte''} \<Longrightarrow> app_prog (sample_config arm b) (buy (sample_config arm b) (post_order tok key))"
  unfolding buy_def by (rule app_prog.request) (simp_all add: sample_service_of post_order_def)

text \<open>A buyer's request, seen through the router, the middleware and the decoder.\<close>

definition sample_params :: "claims \<Rightarrow> string \<Rightarrow> reserve_params" where
  "sample_params cl key = \<lparr>rp_ProductID = 1, rp_Claims = cl, rp_ExpiresAt = 950, rp_IdempotencyKey = key\<rparr>"

definition answer :: "error + order \<Rightarrow> unit prog" where
  "answer r = ret ()"

lemma answered: "handle (case r of Inl e \<Rightarrow> ret (f e) | Inr y \<Rightarrow> ret (h y)) (\<lambda>r. ret ()) = ret ()"
  by (cases r) simp_all

lemma buy_reserves:
  "buy (sample_config arm b) (post_order ''token-ann'' key) =
     handle (reserve_by (sample_service (sample_config arm b)) (sample_params ann key)) answer"
  "buy (sample_config arm b) (post_order ''token-bob'' key) =
     handle (reserve_by (sample_service (sample_config arm b)) (sample_params bob key)) answer"
  if "reservationTTL (sample_service (sample_config arm b)) = 900"
  using that
  by (simp_all add: buy_def sample_params_def ann_def bob_def serve_def authed_def Middleware_def bearerToken_def
      post_order_def get_first_def has_prefix_def Verify_def decode_struct_def claims_field_def same_field_def
      lower_char_def decode_string_def NewContext_def string_list_def sample_config_def h_CreateOrder_def
      Decode_def maxRequestBody_def order_field_def FromContext_def decode_int_def svc_CreateOrder_def
      discard_def handle_handle answer_def [abs_def] respond_def answered)

text \<open>The same request as a purchase, whose answer is kept.\<close>

definition ask :: "app_config \<Rightarrow> request \<Rightarrow> api_body response option prog" where
  "ask a r = answered (serve a (sample_service a) 50 (Inr ()) None PostOrders '''' r)"

definition told_order :: "error + order \<Rightarrow> api_body response option prog" where
  "told_order r = ret (Some (case r of Inl e \<Rightarrow> writeOrderError (\<lambda>e. ''driver'') e
     | Inr order \<Rightarrow> Write 201 (OneOrder (fromOrder order []))))"

lemma told_order_handle:
  "handle (case r of Inl e \<Rightarrow> ret (writeOrderError (\<lambda>e. ''driver'') e)
     | Inr order \<Rightarrow> ret (Write 201 (OneOrder (fromOrder order []))))
     (\<lambda>r. case r of Inl e \<Rightarrow> throw e | Inr x \<Rightarrow> ret (Some x)) = told_order r"
  by (cases r) (simp_all add: told_order_def)

lemma ask_purchase:
  "arm \<in> {''baseline'', ''cte''} \<Longrightarrow> purchase (sample_config arm b) (ask (sample_config arm b) (post_order tok []))"
  unfolding ask_def by (rule purchase.asked) (simp_all add: sample_service_of post_order_def get_first_def)

lemma ask_reserves:
  "ask (sample_config arm b) (post_order ''token-ann'' key) =
     handle (reserve_by (sample_service (sample_config arm b)) (sample_params ann key)) told_order"
  "ask (sample_config arm b) (post_order ''token-bob'' key) =
     handle (reserve_by (sample_service (sample_config arm b)) (sample_params bob key)) told_order"
  if "reservationTTL (sample_service (sample_config arm b)) = 900"
  using that
  by (simp_all add: ask_def answered_def sample_params_def ann_def bob_def serve_def authed_def Middleware_def bearerToken_def
      post_order_def get_first_def has_prefix_def Verify_def decode_struct_def claims_field_def same_field_def
      lower_char_def decode_string_def NewContext_def string_list_def sample_config_def h_CreateOrder_def
      Decode_def maxRequestBody_def order_field_def FromContext_def decode_int_def svc_CreateOrder_def
      call_def handle_handle told_order_handle fun_eq_iff respond_def)

text \<open>Computing in the shop: the programs, the statements and the tables.\<close>

lemmas reserve_programs = idem_Reserve_def reserveAndRecord_def txn_Reserve_def txn_body_def cte_Reserve_def
  DirectResolve_def Link_def linkAttempts_def linkOnce_def reserve_unit_def subject_param_def
  sample_params_def ann_def bob_def answer_def requestHash_def

lemmas shop_tables = shop_def sample_customers_def sample_product_def table_defs burns_def stock_check_def
  by_sub_def by_email_def is_live_def live_status_def status_defs

lemmas shop_statements = stmt_defs new_order_def join_product_def join_customer_def join_name_def

text \<open>Linking the two known callers writes nothing.\<close>

lemma shop_link:
  "link_spec ann (auto_env i (shop_state (shop q os ks vs) n)) = Reply (Inr (hd sample_customers)) [] []"
  "link_spec bob (auto_env i (shop_state (shop q os ks vs) n)) = Reply (Inr (hd (tl sample_customers))) [] []"
  by (simp_all add: link_spec_def subject_param_def ann_def bob_def auto_env_def by_sub_def shop_def sample_customers_def)

lemma shop_finds:
  "find_product 1 (shop q os ks vs) = Some sample_product"
  "find_stock 1 (shop q os ks vs) =
     Some \<lparr>s_ID = 1, s_ProductID = 1, s_Quantity = q, s_NumReserved = int (length (filter (is_live 1) os))\<rparr>"
  "find_product 7 (shop q os ks vs) = None"
  by (simp_all add: find_product_def find_stock_def shop_def sample_product_def)

end
