(* ===== verification/Float64.thy ===== *)
theory Float64
  imports Complex_Main
begin

text \<open>
  Go's float64 arithmetic, as far as the benchmark uses it: the result of an operation is the
  exact result rounded to 53 significant bits, ties to even. A float64 is represented by the
  real number it stands for. The exponent is not bounded: the counts, rates and durations
  concerned are far from overflow and underflow.
\<close>

section \<open>Rounding\<close>

definition round_even :: "real \<Rightarrow> int" where
  "round_even z =
     (let k = \<lfloor>z\<rfloor>; d = z - of_int k in
      if d < 1 / 2 then k else if d > 1 / 2 then k + 1 else if even k then k else k + 1)"

definition ulp :: "real \<Rightarrow> real" where
  "ulp x = 2 powr (of_int \<lfloor>log 2 x\<rfloor> - 52)"

definition fl_pos :: "real \<Rightarrow> real" where
  "fl_pos x = of_int (round_even (x / ulp x)) * ulp x"

definition fl :: "real \<Rightarrow> real" where
  "fl x = (if x = 0 then 0 else if x > 0 then fl_pos x else - fl_pos (- x))"

text \<open>int(x) of a float64 in range trunc_ints towards zero.\<close>

definition trunc_int :: "real \<Rightarrow> int" where
  "trunc_int x = (if x < 0 then \<lceil>x\<rceil> else \<lfloor>x\<rfloor>)"

lemma round_even_bounds: "\<lfloor>z\<rfloor> \<le> round_even z" "round_even z \<le> \<lfloor>z\<rfloor> + 1"
  by (simp_all add: round_even_def Let_def)

lemma round_even_of_int [simp]: "round_even (of_int k) = k"
  by (simp add: round_even_def Let_def)

lemma round_even_mono: "x \<le> y \<Longrightarrow> round_even x \<le> round_even y"
proof -
  assume xy: "x \<le> y"
  show ?thesis
  proof (cases "\<lfloor>x\<rfloor> = \<lfloor>y\<rfloor>")
    case False
    with floor_mono [OF xy] have "\<lfloor>x\<rfloor> + 1 \<le> \<lfloor>y\<rfloor>" by simp
    with round_even_bounds(2) [of x] round_even_bounds(1) [of y] show ?thesis by linarith
  qed (use xy in \<open>auto simp: round_even_def Let_def\<close>)
qed

lemma round_even_le: "z \<le> of_int k \<Longrightarrow> round_even z \<le> k"
  using round_even_mono [of z "of_int k"] by simp

lemma round_even_ge: "of_int k \<le> z \<Longrightarrow> k \<le> round_even z"
  using round_even_mono [of "of_int k" z] by simp

lemma ulp_pos [simp]: "0 < ulp x"
  by (simp add: ulp_def)

lemma powr_split: "2 powr (of_int e) = 2 ^ 52 * (2 :: real) powr (of_int e - 52)"
  by (simp add: powr_diff powr_realpow [symmetric])

text \<open>A positive number lies in one binade, and so does its rounding.\<close>

lemma binade:
  assumes "0 < x"
  shows "2 ^ 52 \<le> x / ulp x" "x / ulp x < 2 ^ 53"
proof -
  let ?e = "\<lfloor>log 2 x\<rfloor>"
  have "2 powr (of_int ?e) \<le> x" using assms by (simp add: powr_le_iff)
  then show "2 ^ 52 \<le> x / ulp x"
    using powr_split [of ?e] by (simp add: ulp_def le_divide_eq mult.commute)
  have "x < 2 powr (of_int ?e + 1)" using assms by (simp add: less_powr_iff)
  also have "\<dots> = 2 * (2 ^ 52 * 2 powr (of_int ?e - 52))" by (simp add: powr_add powr_split)
  finally show "x / ulp x < 2 ^ 53" by (simp add: ulp_def divide_less_eq)
qed

lemma fl_pos_binade:
  assumes "0 < x"
  shows "2 powr (of_int \<lfloor>log 2 x\<rfloor>) \<le> fl_pos x" "fl_pos x \<le> 2 powr (of_int \<lfloor>log 2 x\<rfloor> + 1)"
proof -
  let ?e = "\<lfloor>log 2 x\<rfloor>"
  have "2 ^ 52 \<le> round_even (x / ulp x)"
    by (rule round_even_ge) (use binade(1) [OF assms] in simp)
  then have "(2 ^ 52 :: real) \<le> of_int (round_even (x / ulp x))"
    by (metis of_int_le_iff of_int_numeral of_int_power)
  then have "2 ^ 52 * ulp x \<le> fl_pos x" by (simp add: fl_pos_def)
  then show "2 powr (of_int ?e) \<le> fl_pos x" using powr_split [of ?e] by (simp add: ulp_def)
  have "round_even (x / ulp x) \<le> 2 ^ 53"
    by (rule round_even_le) (use binade(2) [OF assms] in simp)
  then have "of_int (round_even (x / ulp x)) \<le> (2 ^ 53 :: real)"
    by (metis of_int_le_iff of_int_numeral of_int_power)
  then have "fl_pos x \<le> 2 ^ 53 * ulp x" by (simp add: fl_pos_def)
  moreover have "2 ^ 53 * ulp x = 2 powr (of_int ?e + 1)"
    by (simp add: ulp_def powr_add powr_split [of ?e])
  ultimately show "fl_pos x \<le> 2 powr (of_int ?e + 1)" by simp
qed

lemma fl_pos_mono: "0 < x \<Longrightarrow> x \<le> y \<Longrightarrow> fl_pos x \<le> fl_pos y"
proof -
  assume x: "0 < x" and xy: "x \<le> y"
  have le: "\<lfloor>log 2 x\<rfloor> \<le> \<lfloor>log 2 y\<rfloor>"
    using x xy by (intro floor_mono) simp
  show ?thesis
  proof (cases "\<lfloor>log 2 x\<rfloor> = \<lfloor>log 2 y\<rfloor>")
    case True
    then have u: "ulp y = ulp x" by (simp add: ulp_def)
    have "round_even (x / ulp x) \<le> round_even (y / ulp x)"
      by (rule round_even_mono) (use xy in \<open>simp add: divide_right_mono less_imp_le\<close>)
    then show ?thesis by (simp add: fl_pos_def u)
  next
    case False
    with le have "of_int \<lfloor>log 2 x\<rfloor> + 1 \<le> (of_int \<lfloor>log 2 y\<rfloor> :: real)" by linarith
    then have "(2 :: real) powr (of_int \<lfloor>log 2 x\<rfloor> + 1) \<le> 2 powr (of_int \<lfloor>log 2 y\<rfloor>)" by simp
    with fl_pos_binade(2) [OF x] fl_pos_binade(1) [of y] x xy show ?thesis by linarith
  qed
qed

lemma fl_pos_nonneg: "0 < x \<Longrightarrow> 0 \<le> fl_pos x"
  using fl_pos_binade(1) [of x] powr_ge_zero [of 2 "of_int \<lfloor>log 2 x\<rfloor>"] by linarith

lemma fl_0 [simp]: "fl 0 = 0"
  by (simp add: fl_def)

lemma fl_mono: "x \<le> y \<Longrightarrow> fl x \<le> fl y"
  using fl_pos_mono [of x y] fl_pos_mono [of "- y" "- x"] fl_pos_nonneg [of y] fl_pos_nonneg [of "- x"]
  by (auto simp: fl_def not_less split: if_splits)

lemma fl_nonneg: "0 \<le> x \<Longrightarrow> 0 \<le> fl x"
  using fl_mono [of 0 x] by simp

text \<open>Whole numbers of at most 53 bits are exact.\<close>

lemma ulp_small:
  assumes "0 < n" "n < 2 ^ 53"
  shows "\<exists>k. ulp (of_int n) = 1 / 2 ^ k"
proof -
  let ?e = "\<lfloor>log 2 (of_int n :: real)\<rfloor>"
  have "(of_int n :: real) < of_int (2 ^ 53)" using assms(2) by (simp only: of_int_less_iff)
  then have "(of_int n :: real) < 2 powr 53" by simp
  then have "log 2 (of_int n :: real) < 53" using assms(1) by (simp add: log_less_iff)
  then have "?e \<le> 52" by linarith
  then have "(of_int ?e - 52 :: real) = - of_nat (nat (52 - ?e))" by simp
  then have "ulp (of_int n) = 1 / 2 ^ nat (52 - ?e)"
    unfolding ulp_def by (simp only:) (simp add: powr_minus_divide powr_realpow del: of_nat_nat)
  then show ?thesis by blast
qed

lemma fl_pos_exact:
  assumes "0 < n" "n \<le> 2 ^ 53"
  shows "fl_pos (of_int n) = of_int n"
proof (cases "n = 2 ^ 53")
  case True
  have "log 2 (of_int n :: real) = 53"
    unfolding True using log_nat_power [of 2 2 53] by simp
  then have "ulp (of_int n) = 2" by (simp add: ulp_def)
  moreover have "(of_int n :: real) / 2 = of_int (2 ^ 52)" unfolding True by simp
  ultimately show ?thesis unfolding fl_pos_def by (simp only: round_even_of_int)
next
  case False
  with assms obtain k where u: "ulp (of_int n) = 1 / 2 ^ k" using ulp_small [of n] by auto
  have "(of_int n :: real) / (1 / 2 ^ k) = of_int (n * 2 ^ k)" by simp
  then show ?thesis unfolding fl_pos_def u by (simp only: round_even_of_int, simp)
qed

lemma fl_exact: "\<bar>n\<bar> \<le> 2 ^ 53 \<Longrightarrow> fl (of_int n) = of_int n"
  using fl_pos_exact [of n] fl_pos_exact [of "- n"] by (auto simp: fl_def)

lemma fl_exact_nat: "int n \<le> 2 ^ 53 \<Longrightarrow> fl (real n) = real n"
  using fl_exact [of "int n"] by simp

lemma trunc_int_mono: "x \<le> y \<Longrightarrow> trunc_int x \<le> trunc_int y"
proof (cases "x < 0 \<longleftrightarrow> y < 0")
  case False
  assume "x \<le> y"
  with False have "x < 0" "0 \<le> y" by linarith+
  then have "\<lceil>x\<rceil> \<le> 0" "0 \<le> \<lfloor>y\<rfloor>" by simp_all
  then have "\<lceil>x\<rceil> \<le> \<lfloor>y\<rfloor>" by (rule order_trans)
  with \<open>x < 0\<close> \<open>0 \<le> y\<close> show ?thesis by (simp add: trunc_int_def)
qed (simp add: trunc_int_def floor_mono ceiling_mono)

lemma trunc_int_of_int [simp]: "trunc_int (of_int n) = n"
  by (simp add: trunc_int_def)

end
