(* ===== verification/BenchReport.thy ===== *)
theory BenchReport
  imports Strconv Float64
begin

text \<open>
  bench/internal/report/result.go, and applyValidity of bench/internal/run/run.go: the shape
  of a benchmark result, and the rules that void it.

  A float64 is a real here; every operation and every decimal constant is rounded by fl
  (theory Float64). Rendering a float with a fixed number of decimals (fmt's %.0f and %.2f) is
  a parameter, fixed.
\<close>

section \<open>The schema\<close>

definition SchemaVersion :: int where "SchemaVersion = 1"

definition TierLoopback :: int where "TierLoopback = 1"
definition TierDeployed :: int where "TierDeployed = 2"

record meta =
  GitSHA :: string
  GitDirty :: bool
  SessionID :: string
  Hostname :: string
  GoVersion :: string
  OSArch :: string
  NumCPU :: int
  AppGOMAXPROCS :: int
  BenchGOMAXPROCS :: int
  GOGC :: string
  GOMEMLIMIT :: string
  RLimitNofile :: int
  StartedAt :: int

record db_info =
  ServerVersion :: string
  SynchronousCommit :: string
  Fsync :: string
  MaxConnections :: string
  SharedBuffers :: string

record app_info =
  ai_Arm :: string
  ai_CustomerCache :: bool
  ai_CustomerCacheEntries :: int
  ai_LogRequests :: bool
  ai_DBMaxConns :: int
  ai_ReservationTTL :: string
  ai_SweepInterval :: string
  ai_StripeEventPollInterval :: string

record model =
  RTTMicros :: real
  CommitCostMicros :: real
  ExecMicros :: real
  ClientRTTsInLock :: int
  PredictedCeiling :: real

record workload =
  wl_Shape :: string
  wl_Arrivals :: string
  wl_TargetRate :: real
  wl_SKUs :: int
  wl_InitialQuantity :: int
  wl_Buyers :: int
  wl_DurationSeconds :: real
  wl_WarmupSeconds :: real

record schedule =
  Requests :: int
  LagP50Micros :: real
  LagP99Micros :: real
  LagMaxMicros :: real
  LateRequests :: int
  LateFraction :: real
  TrustedPercentile :: string
  GeneratorSaturated :: int

record throughput =
  GoodputPerSec :: real
  AcceptedPerSec :: real
  OfferedPerSec :: real

record percentiles =
  P50 :: real
  P95 :: real
  P99 :: real
  P999 :: real
  PMax :: real
  PCount :: int

record latencies =
  Overall :: percentiles
  Reserved :: percentiles
  OutOfStock :: percentiles
  ServiceOverall :: percentiles

record invariant_check =
  ic_Name :: string
  ic_OK :: bool
  ic_Detail :: string

record invariants =
  Passed :: bool
  Checks :: "invariant_check list"

record saturation =
  Verdict :: string
  RefRun :: string

text \<open>Outcomes is a map from an outcome's name; a missing key reads as 0.\<close>

record result =
  Schema :: int
  Tier :: int
  Valid :: bool
  InvalidReasons :: "string list"
  AbsoluteThroughputValid :: bool
  Note :: string
  Meta :: meta
  DB :: db_info
  App :: app_info
  Model :: model
  Workload :: workload
  Schedule :: schedule
  Through :: throughput
  Latency :: latencies
  Outcomes :: "string \<Rightarrow> int"
  Invariants :: invariants
  Saturation_check :: "saturation option"

section \<open>Operations\<close>

definition TrustP999 :: string where "TrustP999 = ''p99.9''"
definition TrustP99 :: string where "TrustP99 = ''p99''"
definition TrustNone :: string where "TrustNone = ''none''"

lemmas trust_defs = TrustP999_def TrustP99_def TrustNone_def

definition TrustedPercentileFor :: "real \<Rightarrow> string" where
  "TrustedPercentileFor lateFraction =
     (if lateFraction > fl 0.01 then TrustNone else if lateFraction > fl 0.001 then TrustP99 else TrustP999)"

definition VerdictServerSaturated :: string where "VerdictServerSaturated = ''server-saturated''"
definition VerdictGeneratorLimited :: string where "VerdictGeneratorLimited = ''generator-limited''"
definition VerdictNotYetSaturated :: string where "VerdictNotYetSaturated = ''not-yet-saturated''"

definition Void :: "string \<Rightarrow> result \<Rightarrow> result" where
  "Void reason r = r\<lparr>Valid := False, InvalidReasons := InvalidReasons r @ [reason]\<rparr>"

text \<open>Go's zero values of the nested structs.\<close>

definition zero_meta :: meta where
  "zero_meta = \<lparr>GitSHA = [], GitDirty = False, SessionID = [], Hostname = [], GoVersion = [], OSArch = [],
     NumCPU = 0, AppGOMAXPROCS = 0, BenchGOMAXPROCS = 0, GOGC = [], GOMEMLIMIT = [], RLimitNofile = 0,
     StartedAt = 0\<rparr>"

definition zero_percentiles :: percentiles where
  "zero_percentiles = \<lparr>P50 = 0, P95 = 0, P99 = 0, P999 = 0, PMax = 0, PCount = 0\<rparr>"

definition zero_result :: result where
  "zero_result = \<lparr>Schema = 0, Tier = 0, Valid = False, InvalidReasons = [], AbsoluteThroughputValid = False,
     Note = [], Meta = zero_meta,
     DB = \<lparr>ServerVersion = [], SynchronousCommit = [], Fsync = [], MaxConnections = [], SharedBuffers = []\<rparr>,
     App = \<lparr>ai_Arm = [], ai_CustomerCache = False, ai_CustomerCacheEntries = 0, ai_LogRequests = False,
       ai_DBMaxConns = 0, ai_ReservationTTL = [], ai_SweepInterval = [], ai_StripeEventPollInterval = []\<rparr>,
     Model = \<lparr>RTTMicros = 0, CommitCostMicros = 0, ExecMicros = 0, ClientRTTsInLock = 0, PredictedCeiling = 0\<rparr>,
     Workload = \<lparr>wl_Shape = [], wl_Arrivals = [], wl_TargetRate = 0, wl_SKUs = 0, wl_InitialQuantity = 0,
       wl_Buyers = 0, wl_DurationSeconds = 0, wl_WarmupSeconds = 0\<rparr>,
     Schedule = \<lparr>Requests = 0, LagP50Micros = 0, LagP99Micros = 0, LagMaxMicros = 0, LateRequests = 0,
       LateFraction = 0, TrustedPercentile = [], GeneratorSaturated = 0\<rparr>,
     Through = \<lparr>GoodputPerSec = 0, AcceptedPerSec = 0, OfferedPerSec = 0\<rparr>,
     Latency = \<lparr>Overall = zero_percentiles, Reserved = zero_percentiles, OutOfStock = zero_percentiles,
       ServiceOverall = zero_percentiles\<rparr>,
     Outcomes = (\<lambda>_. 0), Invariants = \<lparr>Passed = False, Checks = []\<rparr>, Saturation_check = None\<rparr>"

definition loopback_note :: string where
  "loopback_note = ''Tier 1: the generator shares CPU with the app and the database. '' @
     ''Comparable between arms measured in the same session on this machine; '' @
     ''never quotable as absolute throughput.''"

definition deployed_note :: string where
  "deployed_note = ''Tier 2: generator on the app's own box against a remote database. '' @
     ''Absolute, but the generator shares the instance's CPU and the instance '' @
     ''is burstable '' @ em_dash @ '' keep runs short enough that CPU credits are not what is '' @
     ''being measured.''"

definition New :: "int \<Rightarrow> result" where
  "New tier =
     (let r = zero_result\<lparr>Tier := tier, Valid := True\<rparr> in
      if tier = TierLoopback then r\<lparr>AbsoluteThroughputValid := False, Note := loopback_note\<rparr>
      else if tier = TierDeployed then r\<lparr>AbsoluteThroughputValid := True, Note := deployed_note\<rparr>
      else r)"

text \<open>WriteJSON stamps the schema version; the encoder takes the stamped result.\<close>

definition WriteJSON :: "(result \<Rightarrow> 'o) \<Rightarrow> result \<Rightarrow> result \<times> 'o" where
  "WriteJSON encode r = (let r' = r\<lparr>Schema := SchemaVersion\<rparr> in (r', encode r'))"

section \<open>Judging a run\<close>

text \<open>The reasons, in the order they are tested; an if that does not fire adds nothing.\<close>

definition void_if :: "bool \<Rightarrow> string \<Rightarrow> result \<Rightarrow> result" where
  "void_if b reason r = (if b then Void reason r else r)"

definition applyValidity :: "(nat \<Rightarrow> real \<Rightarrow> string) \<Rightarrow> result \<Rightarrow> result" where
  "applyValidity fixed res =
     (let sch = Schedule res; out = Outcomes res;
          share = fixed 2 (fl (LateFraction sch * 100)) @ ''%'';
          late = show_int (LateRequests sch) @ '' of '' @ show_int (Requests sch) @ '' sends ('' @ share @ '')'';
          r1 = void_if (GeneratorSaturated sch > 0) (''generator saturated on '' @
                 show_int (GeneratorSaturated sch) @ '' requests: they were never sent, so the denominator is wrong'') res;
          r2 = void_if (out ''connect_error'' > 0) (show_int (out ''connect_error'') @
                 '' connection errors: the generator hit a socket or port limit'') r1;
          r3 = void_if (LagP99Micros sch > 1000) (''p99 schedule lag '' @ fixed 0 (LagP99Micros sch) @
                 ''us exceeds 1ms: the generator could not keep to its own schedule'') r2;
          r4 = (if TrustedPercentile sch = TrustNone
                then Void (late @ '' missed their deadline by over 1ms, enough to move p99'') r3
                else if TrustedPercentile sch = TrustP99
                then r3\<lparr>Note := Note r3 @ '' '' @ late @
                       '' were late, so p99.9 is not trustworthy here; p50 through p99 are.''\<rparr>
                else r3);
          r5 = void_if (out ''server_error'' > 0) (show_int (out ''server_error'') @
                 '' server errors: the run hit a real failure, not a load limit'') r4;
          r6 = void_if (out ''unauthorized'' > 0) (show_int (out ''unauthorized'') @
                 '' unauthorized responses: a harness problem, not a result'') r5;
          r7 = void_if (out ''not_found'' > 0) (show_int (out ''not_found'') @
                 '' not-found responses: the generator targeted a product that does not exist'') r6;
          r8 = void_if (\<not> Passed (Invariants res)) ''inventory invariants failed after the run'' r7
      in void_if (GitDirty (Meta res))
           ''built from a dirty working tree, so the result cannot be attributed to a commit'' r8)"

lemma Void_simps [simp]:
  "Valid (Void s r) = False" "InvalidReasons (Void s r) = InvalidReasons r @ [s]"
  "Note (Void s r) = Note r"
  by (simp_all add: Void_def)

lemma void_if_simps [simp]:
  "Valid (void_if b s r) = (Valid r \<and> \<not> b)"
  "InvalidReasons (void_if b s r) = InvalidReasons r @ (if b then [s] else [])"
  "Note (void_if b s r) = Note r"
  by (simp_all add: void_if_def)

text \<open>What a run must be for its numbers to count.\<close>

definition sound_run :: "result \<Rightarrow> bool" where
  "sound_run r =
     (GeneratorSaturated (Schedule r) \<le> 0 \<and> LagP99Micros (Schedule r) \<le> 1000 \<and>
      TrustedPercentile (Schedule r) \<noteq> TrustNone \<and>
      list_all (\<lambda>o'. Outcomes r o' \<le> 0) [''connect_error'', ''server_error'', ''unauthorized'', ''not_found''] \<and>
      Passed (Invariants r) \<and> \<not> GitDirty (Meta r))"

lemma applyValidity_Valid: "Valid (applyValidity fixed r) = (Valid r \<and> sound_run r)"
  by (auto simp: applyValidity_def sound_run_def Let_def)

lemma applyValidity_reasons:
  "Valid r = (InvalidReasons r = []) \<Longrightarrow>
     Valid (applyValidity fixed r) = (InvalidReasons (applyValidity fixed r) = [])"
  by (auto simp: applyValidity_def Let_def)

lemma New_simps [simp]: "Valid (New t)" "InvalidReasons (New t) = []" "Tier (New t) = t"
  by (simp_all add: New_def Let_def zero_result_def)

text \<open>Judging changes only the verdict, the reasons and the note.\<close>

lemma void_if_frame [simp]:
  "Schedule (void_if b s r) = Schedule r" "Outcomes (void_if b s r) = Outcomes r"
  "Invariants (void_if b s r) = Invariants r" "Meta (void_if b s r) = Meta r"
  "App (void_if b s r) = App r" "App (Void s r) = App r"
  "AbsoluteThroughputValid (void_if b s r) = AbsoluteThroughputValid r"
  "Schedule (Void s r) = Schedule r" "Outcomes (Void s r) = Outcomes r"
  "Invariants (Void s r) = Invariants r" "Meta (Void s r) = Meta r"
  "AbsoluteThroughputValid (Void s r) = AbsoluteThroughputValid r"
  by (simp_all add: void_if_def Void_def)

lemma applyValidity_frame [simp]:
  "Schedule (applyValidity fixed r) = Schedule r" "Outcomes (applyValidity fixed r) = Outcomes r"
  "Invariants (applyValidity fixed r) = Invariants r" "Meta (applyValidity fixed r) = Meta r"
  "App (applyValidity fixed r) = App r"
  "AbsoluteThroughputValid (applyValidity fixed r) = AbsoluteThroughputValid r"
  by (simp_all add: applyValidity_def Let_def)

lemma sound_run_judged [simp]: "sound_run (applyValidity fixed r) = sound_run r"
  by (simp add: sound_run_def)

lemma New_absolute: "AbsoluteThroughputValid (New t) = (t = TierDeployed)"
  by (simp add: New_def Let_def zero_result_def TierLoopback_def TierDeployed_def)

end
