(* ===== verification/BenchLoad.thy ===== *)
theory BenchLoad
  imports BenchReport Json
begin

text \<open>
  bench/internal/loadgen: what the load generator does with one request's fate (classify.go),
  with all of them (recorder.go), when it means to send them (schedule.go) and how many it
  dares to have in flight (memory.go). Times and durations are in nanoseconds.

  The HTTP client and the random numbers of the Poisson process are parameters.
\<close>

section \<open>Outcomes\<close>

datatype outcome =
    OutcomeReserved
  | OutcomeOutOfStock
  | OutcomeNotFound
  | OutcomeUnauthorized
  | OutcomeConflictOther
  | OutcomeServerError
  | OutcomeTimeout
  | OutcomeConnectError
  | OutcomeGeneratorSaturated

definition all_outcomes :: "outcome list" where
  "all_outcomes = [OutcomeReserved, OutcomeOutOfStock, OutcomeNotFound, OutcomeUnauthorized,
     OutcomeConflictOther, OutcomeServerError, OutcomeTimeout, OutcomeConnectError,
     OutcomeGeneratorSaturated]"

primrec outcome_String :: "outcome \<Rightarrow> string" where
  "outcome_String OutcomeReserved = ''reserved''"
| "outcome_String OutcomeOutOfStock = ''out_of_stock''"
| "outcome_String OutcomeNotFound = ''not_found''"
| "outcome_String OutcomeUnauthorized = ''unauthorized''"
| "outcome_String OutcomeConflictOther = ''conflict_other''"
| "outcome_String OutcomeServerError = ''server_error''"
| "outcome_String OutcomeTimeout = ''timeout''"
| "outcome_String OutcomeConnectError = ''connect_error''"
| "outcome_String OutcomeGeneratorSaturated = ''generator_saturated''"

definition OutcomeNames :: "string list" where
  "OutcomeNames = map outcome_String all_outcomes"

lemma all_outcomes: "o' \<in> set all_outcomes"
  by (cases o') (simp_all add: all_outcomes_def)

lemma outcome_String_inject [simp]: "outcome_String a = outcome_String b \<longleftrightarrow> a = b"
  by (cases a; cases b) simp_all

lemma distinct_outcomes: "distinct all_outcomes"
  by (simp add: all_outcomes_def)

text \<open>
  A transport failure, as errors.Is and errors.As see it: whether it wraps
  os.ErrDeadlineExceeded, and what the first error in its chain with a Timeout method
  answers, if there is one.
\<close>

record transport_error =
  te_deadline :: bool
  te_timeout :: "bool option"

definition isTimeout :: "transport_error \<Rightarrow> bool" where
  "isTimeout e = (te_timeout e = Some True)"

definition ClassifyError :: "transport_error \<Rightarrow> outcome" where
  "ClassifyError e = (if te_deadline e \<or> isTimeout e then OutcomeTimeout else OutcomeConnectError)"

text \<open>json.Unmarshal into ErrorBody: unknown members are ignored, a wrong type is an error.\<close>

definition detail_field :: "string \<times> string \<Rightarrow> string \<Rightarrow> json \<Rightarrow> (string \<times> string) option" where
  "detail_field d k v =
     (if same_field ''code'' k then map_option (\<lambda>s. (s, snd d)) (decode_string (fst d) v)
      else if same_field ''message'' k then map_option (\<lambda>s. (fst d, s)) (decode_string (snd d) v)
      else Some d)"

definition envelope_field :: "string \<times> string \<Rightarrow> string \<Rightarrow> json \<Rightarrow> (string \<times> string) option" where
  "envelope_field d k v =
     (if same_field ''error'' k then decode_struct detail_field d v else Some d)"

definition envelope_code :: "(string \<Rightarrow> json option) \<Rightarrow> string \<Rightarrow> string option" where
  "envelope_code unmarshal b =
     map_option fst (Option.bind (unmarshal b) (decode_struct envelope_field ([], [])))"

definition ClassifyResponse :: "(string \<Rightarrow> json option) \<Rightarrow> int \<Rightarrow> string \<Rightarrow> outcome" where
  "ClassifyResponse unmarshal status full =
     (let b = take (8 * 1024) full;
          rest = (if status = 409 then OutcomeConflictOther else OutcomeServerError) in
      if status = 201 then OutcomeReserved
      else if status \<ge> 500 then OutcomeServerError
      else if status = 401 \<or> status = 403 then OutcomeUnauthorized
      else if status = 404 then OutcomeNotFound
      else case envelope_code unmarshal b of
          None \<Rightarrow> rest
        | Some code \<Rightarrow>
            if code = CodeOutOfStock then OutcomeOutOfStock
            else if code = CodeNotFound then OutcomeNotFound
            else if code = CodeUnauthorized \<or> code = CodeForbidden then OutcomeUnauthorized
            else rest)"

lemma classified_not_saturated [simp]:
  "ClassifyError e \<noteq> OutcomeGeneratorSaturated"
  "ClassifyResponse u st b \<noteq> OutcomeGeneratorSaturated"
  by (auto simp: ClassifyError_def ClassifyResponse_def Let_def split: option.split)

section \<open>The recorder\<close>

record recorder =
  arrival :: "int list"
  service :: "int list"
  lag :: "int list"
  outcome :: "outcome list"
  sent :: "bool list"

text \<open>make([]Outcome, n) holds zeroes, and the zero Outcome is OutcomeReserved.\<close>

definition newRecorder :: "nat \<Rightarrow> recorder" where
  "newRecorder n =
     \<lparr>arrival = replicate n 0, service = replicate n 0, lag = replicate n 0,
      outcome = replicate n OutcomeReserved, sent = replicate n False\<rparr>"

definition micros_of :: "int \<Rightarrow> real" where
  "micros_of ns = fl (fl (of_int ns) / 1000)"

definition rank_index :: "real \<Rightarrow> nat \<Rightarrow> nat" where
  "rank_index q n = (let i = trunc_int (fl (q * fl (real n))) in if i \<ge> int n then n - 1 else nat i)"

definition percentilesOf :: "int list \<Rightarrow> percentiles" where
  "percentilesOf samples =
     (if samples = [] then zero_percentiles
      else
        let s = sort samples; at_q = (\<lambda>q. micros_of (s ! rank_index q (length s))) in
        \<lparr>P50 = at_q (fl 0.5), P95 = at_q (fl 0.95), P99 = at_q (fl 0.99), P999 = at_q (fl 0.999),
         PMax = micros_of (s ! (length s - 1)), PCount = int (length s)\<rparr>)"

definition window :: "int list \<Rightarrow> int \<Rightarrow> nat" where
  "window sched warmup = length (takeWhile (\<lambda>t. \<not> t \<ge> warmup) sched)"

text \<open>The indices from..n-1 of the loops.\<close>

definition totalReserved :: "recorder \<Rightarrow> int" where
  "totalReserved r =
     int (length (filter (\<lambda>i. sent r ! i \<and> outcome r ! i = OutcomeReserved) [0..<length (outcome r)]))"

definition totalUnknown :: "recorder \<Rightarrow> int" where
  "totalUnknown r =
     int (length (filter (\<lambda>i. outcome r ! i = OutcomeTimeout \<or> outcome r ! i = OutcomeConnectError)
       [0..<length (outcome r)]))"

definition count_outcome :: "recorder \<Rightarrow> nat \<Rightarrow> outcome \<Rightarrow> int" where
  "count_outcome r frm o' = int (length (filter (\<lambda>i. outcome r ! i = o') [frm..<length (outcome r)]))"

definition collect :: "recorder \<Rightarrow> nat \<Rightarrow> latencies \<times> (string \<Rightarrow> int)" where
  "collect r frm =
     (let idx = filter (\<lambda>i. sent r ! i) [frm..<length (outcome r)];
          pick = (\<lambda>p. map (\<lambda>i. arrival r ! i) (filter p idx));
          counts = (\<lambda>name. sum_list (map (\<lambda>o'. if outcome_String o' = name then count_outcome r frm o' else 0)
            all_outcomes))
      in (\<lparr>Overall = percentilesOf (pick (\<lambda>i. True)),
           Reserved = percentilesOf (pick (\<lambda>i. outcome r ! i = OutcomeReserved)),
           OutOfStock = percentilesOf (pick (\<lambda>i. outcome r ! i = OutcomeOutOfStock)),
           ServiceOverall = percentilesOf (map (\<lambda>i. service r ! i) idx)\<rparr>, counts))"

definition Millisecond :: int where "Millisecond = 1000000"

definition scheduleStats :: "recorder \<Rightarrow> nat \<Rightarrow> schedule" where
  "scheduleStats r frm =
     (let idx = [frm..<length (outcome r)];
          saturated = int (length (filter (\<lambda>i. outcome r ! i = OutcomeGeneratorSaturated) idx));
          sidx = filter (\<lambda>i. sent r ! i) idx;
          lags = map (\<lambda>i. lag r ! i) sidx;
          late = int (length (filter (\<lambda>i. lag r ! i > Millisecond) sidx));
          p = percentilesOf lags;
          total = int (length (outcome r)) - int frm;
          fraction = (if total > 0 then fl (fl (of_int late) / fl (of_int total)) else 0)
      in \<lparr>Requests = total, LagP50Micros = P50 p, LagP99Micros = P99 p, LagMaxMicros = PMax p,
          LateRequests = late, LateFraction = fraction,
          TrustedPercentile = TrustedPercentileFor fraction, GeneratorSaturated = saturated\<rparr>)"

section \<open>Percentiles are samples\<close>

lemma rank_index_less: "0 \<le> q \<Longrightarrow> 0 < n \<Longrightarrow> rank_index q n < n"
  by (auto simp: rank_index_def Let_def)

lemma rank_index_mono: "q \<le> q' \<Longrightarrow> rank_index q n \<le> rank_index q' n"
proof -
  assume "q \<le> q'"
  then have "q * fl (real n) \<le> q' * fl (real n)" by (simp add: fl_nonneg mult_right_mono)
  then have "trunc_int (fl (q * fl (real n))) \<le> trunc_int (fl (q' * fl (real n)))"
    by (intro trunc_int_mono fl_mono)
  then show ?thesis by (auto simp: rank_index_def Let_def)
qed

lemma micros_of_mono: "x \<le> y \<Longrightarrow> micros_of x \<le> micros_of y"
  unfolding micros_of_def by (intro fl_mono divide_right_mono) simp_all

lemma sort_rank_le:
  "q \<le> q' \<Longrightarrow> 0 \<le> q' \<Longrightarrow> samples \<noteq> [] \<Longrightarrow>
     micros_of (sort samples ! rank_index q (length samples)) \<le> micros_of (sort samples ! rank_index q' (length samples))"
  by (intro micros_of_mono sorted_nth_mono rank_index_mono) (simp_all add: rank_index_less)

lemma sort_rank_mem:
  "0 \<le> q \<Longrightarrow> samples \<noteq> [] \<Longrightarrow> micros_of (sort samples ! rank_index q (length samples)) \<in> micros_of ` set samples"
  by (metis imageI length_greater_0_conv length_sort nth_mem rank_index_less set_sort)

lemma sort_last_max: "samples \<noteq> [] \<Longrightarrow> sort samples ! (length samples - 1) = Max (set samples)"
proof -
  assume ne: "samples \<noteq> []"
  then have "sort samples ! (length samples - 1) \<in> set samples"
    by (metis diff_less length_greater_0_conv length_sort less_one nth_mem set_sort)
  moreover have "x \<le> sort samples ! (length samples - 1)" if "x \<in> set samples" for x
  proof -
    from that obtain j where "j < length samples" "sort samples ! j = x"
      by (metis in_set_conv_nth length_sort set_sort)
    then show ?thesis using sorted_nth_mono [OF sorted_sort, of j "length samples - 1" samples] by fastforce
  qed
  ultimately show ?thesis by (intro Max_eqI [symmetric]) auto
qed

lemma quantiles_le: "0 \<le> fl 0.5" "fl 0.5 \<le> fl 0.95" "fl 0.95 \<le> fl 0.99" "fl 0.99 \<le> fl 0.999" "fl 0.999 \<le> 1"
proof -
  have "fl 0.999 \<le> fl 1" by (rule fl_mono) simp
  also have "fl 1 = 1" using fl_exact [of 1] by simp
  finally show "fl 0.999 \<le> 1" .
qed (simp_all add: fl_nonneg fl_mono)

section \<open>Counting\<close>

text \<open>Every request of the window has one outcome, and the names tell the outcomes apart.\<close>

lemma sum_outcomes:
  "sum_list (map (\<lambda>o'. length (filter (\<lambda>x. f x = o') xs)) all_outcomes) = length xs"
proof (induction xs)
  case (Cons x xs)
  have "sum_list (map (\<lambda>o'. length (filter (\<lambda>x. f x = o') (x # xs))) all_outcomes) =
    sum_list (map (\<lambda>o'. (if f x = o' then 1 else 0) + length (filter (\<lambda>x. f x = o') xs)) all_outcomes)"
    by (intro arg_cong [where f = sum_list] map_cong) auto
  also have "\<dots> = sum_list (map (\<lambda>o'. if f x = o' then 1 else 0) all_outcomes) + length xs"
    by (simp only: sum_list_addf Cons.IH)
  also have "sum_list (map (\<lambda>o'. if f x = o' then 1 else 0) all_outcomes) = (1 :: nat)"
    by (cases "f x") (simp_all add: all_outcomes_def)
  finally show ?case by simp
qed (simp add: all_outcomes_def)

lemma collect_count: "snd (collect r frm) (outcome_String o') = count_outcome r frm o'"
  by (cases o') (simp_all add: collect_def all_outcomes_def Let_def)

lemma collect_total:
  "frm \<le> length (outcome r) \<Longrightarrow>
     sum_list (map (snd (collect r frm)) OutcomeNames) = int (length (outcome r) - frm)"
proof -
  have "sum_list (map (snd (collect r frm)) OutcomeNames) = sum_list (map (count_outcome r frm) all_outcomes)"
    by (simp add: OutcomeNames_def o_def collect_count)
  also have "\<dots> = int (sum_list (map (\<lambda>o'. length (filter (\<lambda>i. outcome r ! i = o') [frm..<length (outcome r)])) all_outcomes))"
    by (simp add: count_outcome_def all_outcomes_def)
  also have "\<dots> = int (length (outcome r) - frm)" by (simp only: sum_outcomes length_upt)
  finally show ?thesis .
qed

section \<open>The schedule\<close>

definition ArrivalsPoisson :: string where "ArrivalsPoisson = ''poisson''"
definition ArrivalsFixed :: string where "ArrivalsFixed = ''fixed''"

text \<open>The errors of BuildSchedule, with the values their texts show.\<close>

datatype schedule_error = RateNotPositive real | NoRequests real int | UnknownArrivals string

definition Second :: int where "Second = 1000000000"

text \<open>Duration.Seconds.\<close>

definition Seconds :: "int \<Rightarrow> real" where
  "Seconds d = fl (fl (of_int (d div Second)) + fl (fl (of_int (d mod Second)) / 1000000000))"

text \<open>
  The offsets of a Poisson run are the running sums of exponential draws (ExpFloat64, a
  parameter) scaled by the mean gap; of a fixed run, the multiples of it.
\<close>

primrec poisson_offsets :: "(nat \<Rightarrow> real) \<Rightarrow> real \<Rightarrow> nat \<Rightarrow> nat \<Rightarrow> real \<Rightarrow> int list" where
  "poisson_offsets draw mean k 0 off = []"
| "poisson_offsets draw mean k (Suc n) off =
     (let off' = fl (off + fl (draw k * mean)) in trunc_int off' # poisson_offsets draw mean (Suc k) n off')"

definition BuildSchedule :: "string \<Rightarrow> real \<Rightarrow> int \<Rightarrow> (nat \<Rightarrow> real) \<Rightarrow> schedule_error + int list" where
  "BuildSchedule arrivals rate d draw =
     (if rate \<le> 0 then Inl (RateNotPositive rate)
      else
        let n = trunc_int (fl (rate * Seconds d)); mean = fl (of_int Second / rate) in
        if n \<le> 0 then Inl (NoRequests rate d)
        else if arrivals = ArrivalsFixed
        then Inr (map (\<lambda>i. trunc_int (fl (fl (real i) * mean))) [0..<nat n])
        else if arrivals = ArrivalsPoisson then Inr (poisson_offsets draw mean 0 (nat n) 0)
        else Inl (UnknownArrivals arrivals))"

lemma length_poisson: "length (poisson_offsets draw mean k n off) = n"
  by (induction n arbitrary: k off) (simp_all add: Let_def)

lemma sorted_fixed:
  assumes "0 \<le> mean"
  shows "sorted (map (\<lambda>i. trunc_int (fl (fl (real i) * mean))) [0..<n])"
  using assms by (intro sorted_map [THEN iffD2] sorted_wrt_mono_rel [OF _ sorted_upt])
    (auto intro!: trunc_int_mono fl_mono mult_right_mono)

lemma BuildSchedule_length:
  "BuildSchedule arrivals rate d draw = Inr sched \<Longrightarrow>
     int (length sched) = trunc_int (fl (rate * Seconds d)) \<and> sched \<noteq> []"
  by (auto simp: BuildSchedule_def Let_def length_poisson split: if_splits
      dest: arg_cong [where f = length])

lemma sorted_schedule_fixed:
  "BuildSchedule ArrivalsFixed rate d draw = Inr sched \<Longrightarrow> sorted sched"
  by (auto simp: BuildSchedule_def Let_def Second_def intro!: sorted_fixed fl_nonneg split: if_splits)

text \<open>The window of a sorted schedule is exactly the part after the warm-up.\<close>

lemma window_splits:
  assumes "sorted sched" "i < length sched"
  shows "window sched warmup \<le> i \<longleftrightarrow> warmup \<le> sched ! i"
proof
  let ?P = "\<lambda>t. \<not> t \<ge> warmup"
  assume w: "window sched warmup \<le> i"
  with assms(2) have lt: "length (takeWhile ?P sched) < length sched"
    by (simp add: window_def)
  then have "\<not> ?P (sched ! length (takeWhile ?P sched))" by (rule nth_length_takeWhile)
  moreover have "sched ! length (takeWhile ?P sched) \<le> sched ! i"
    using w assms by (intro sorted_nth_mono) (simp_all add: window_def)
  ultimately show "warmup \<le> sched ! i" by simp
next
  let ?P = "\<lambda>t. \<not> t \<ge> warmup"
  assume "warmup \<le> sched ! i"
  show "window sched warmup \<le> i"
  proof (rule ccontr)
    assume "\<not> window sched warmup \<le> i"
    then have i: "i < length (takeWhile ?P sched)" by (simp add: window_def)
    then have "?P (takeWhile ?P sched ! i)" using set_takeWhileD nth_mem by metis
    with i \<open>warmup \<le> sched ! i\<close> show False by (simp add: takeWhile_nth)
  qed
qed

lemma window_le: "window sched warmup \<le> length sched"
  by (simp add: window_def length_takeWhile_le)

section \<open>The memory budget\<close>

definition BytesPerInFlight :: nat where "BytesPerInFlight = 64 * 1024"

definition memoryHeadroom :: real where "memoryHeadroom = fl 0.5"

text \<open>strings.Fields: the maximal runs of non-space characters.\<close>

definition blank :: "char \<Rightarrow> bool" where
  "blank c = (let n = (of_char c :: nat) in n = 32 \<or> (9 \<le> n \<and> n \<le> 13))"

fun fields_acc :: "string \<Rightarrow> string \<Rightarrow> string list" where
  "fields_acc w [] = (if w = [] then [] else [w])"
| "fields_acc w (c # cs) =
     (if blank c then (if w = [] then [] else [w]) @ fields_acc [] cs else fields_acc (w @ [c]) cs)"

definition fields :: "string \<Rightarrow> string list" where
  "fields s = fields_acc [] s"

text \<open>ParseUint(s, 10, 64).\<close>

definition parse_uint64 :: "string \<Rightarrow> nat option" where
  "parse_uint64 s =
     (if s = [] \<or> \<not> list_all is_digit s then None
      else let n = read_nat s in if n < 2 ^ 64 then Some n else None)"

text \<open>The lines of /proc/meminfo, where it can be opened; kb << 10 on a uint64.\<close>

fun available_in :: "string list \<Rightarrow> nat option" where
  "available_in [] = None"
| "available_in (line # ls) =
     (if \<not> has_prefix line ''MemAvailable:'' then available_in ls
      else case fields line of
          _ # kb # _ \<Rightarrow> map_option (\<lambda>n. (n * 1024) mod 2 ^ 64) (parse_uint64 kb)
        | _ \<Rightarrow> None)"

definition availableBytes :: "string list option \<Rightarrow> nat option" where
  "availableBytes meminfo = Option.bind meminfo available_in"

definition budget_of :: "nat \<Rightarrow> nat" where
  "budget_of available = nat (trunc_int (fl (fl (real available) * memoryHeadroom)))"

text \<open>The refusal, with the numbers of its text: requested, needed, available, suggested.\<close>

datatype memory_error = TooManyInFlight int nat nat nat

definition CheckMemoryBudget :: "string list option \<Rightarrow> int \<Rightarrow> memory_error option" where
  "CheckMemoryBudget meminfo maxInFlight =
     (case availableBytes meminfo of
        None \<Rightarrow> None
      | Some available \<Rightarrow>
          let need = nat ((maxInFlight mod 2 ^ 64) * int BytesPerInFlight mod 2 ^ 64);
              budget = budget_of available in
          if need > budget
          then Some (TooManyInFlight maxInFlight (need div 2 ^ 20) (available div 2 ^ 20) (budget div BytesPerInFlight))
          else None)"

section \<open>The reported figures\<close>

definition ordered :: "percentiles \<Rightarrow> bool" where
  "ordered p = (P50 p \<le> P95 p \<and> P95 p \<le> P99 p \<and> P99 p \<le> P999 p \<and> P999 p \<le> PMax p)"

lemma percentiles_ordered: "ordered (percentilesOf samples)"
proof (cases "samples = []")
  case False
  then have "micros_of (sort samples ! rank_index (fl 0.999) (length samples)) \<le> micros_of (sort samples ! (length samples - 1))"
    using rank_index_less [of "fl 0.999" "length samples"]
    by (intro micros_of_mono sorted_nth_mono) (auto simp: fl_nonneg)
  with False show ?thesis
    using quantiles_le by (simp add: ordered_def percentilesOf_def Let_def sort_rank_le fl_nonneg)
qed (simp add: ordered_def percentilesOf_def zero_percentiles_def)

lemma percentiles_count: "PCount (percentilesOf samples) = int (length samples)"
  by (simp add: percentilesOf_def zero_percentiles_def Let_def)

text \<open>Every percentile of a sample is one of its members, in microseconds; the last is the largest.\<close>

lemma percentiles_sampled:
  "samples \<noteq> [] \<Longrightarrow>
     {P50 (percentilesOf samples), P95 (percentilesOf samples), P99 (percentilesOf samples), P999 (percentilesOf samples)}
       \<subseteq> micros_of ` set samples \<and> PMax (percentilesOf samples) = micros_of (Max (set samples))"
  by (simp add: percentilesOf_def Let_def sort_rank_mem fl_nonneg sort_last_max [symmetric])

text \<open>A run in which at most one send in a hundred was late keeps its p99.\<close>

lemma trusted_when_rarely_late:
  assumes "0 \<le> late" "late * 100 \<le> n" "n \<le> 2 ^ 53" "0 < n"
  shows "TrustedPercentileFor (fl (fl (of_int late) / fl (of_int n))) \<noteq> TrustNone"
proof -
  have "late \<le> 2 ^ 53" using assms(1-3) by linarith
  then have "fl (of_int late) = of_int late" "fl (of_int n) = of_int n"
    using assms by (intro fl_exact; linarith)+
  moreover have "of_int late / of_int n \<le> (0.01 :: real)"
    using assms(2,4) by (simp add: divide_le_eq)
  ultimately have "fl (fl (of_int late) / fl (of_int n)) \<le> fl 0.01"
    by (simp only: fl_mono)
  then show ?thesis by (simp add: TrustedPercentileFor_def trust_defs)
qed

end
