(* ===== verification/BenchRun.thy ===== *)
theory BenchRun
  imports BenchLoad Reserve
begin

text \<open>
  One measured run of the benchmark: loadgen.Run (bench/internal/loadgen/run.go), the shapes
  of the workload (bench/internal/workload/shapes.go) and the guard in front of the database
  (bench/internal/workload/guard.go), the analytic model (bench/internal/run/model.go).
\<close>

section \<open>Sending\<close>

text \<open>
  What one turn of the dispatcher meets: when it wakes (ob_sentAt), and, if it sends, what
  came back, when (ob_done), and when the goroutine gives its permit back (ob_release). Each
  goroutine writes only the slots of its own request, and all have finished before the
  samples are read, so writing them at once is the same.
\<close>

record observation =
  ob_sentAt :: int
  ob_outcome :: outcome
  ob_done :: int
  ob_release :: int

text \<open>The permits out at a time: those taken and not yet given back.\<close>

definition in_flight :: "int \<Rightarrow> int list \<Rightarrow> int list" where
  "in_flight now holders = filter (\<lambda>t. now < t) holders"

definition send_one :: "int \<Rightarrow> int \<Rightarrow> nat \<Rightarrow> int \<Rightarrow> observation \<Rightarrow> recorder \<times> int list \<Rightarrow> recorder \<times> int list" where
  "send_one maxInFlight start i due ob st =
     (let (rec, holders) = st;
          rec = rec\<lparr>lag := (lag rec)[i := ob_sentAt ob - (start + due)]\<rparr>;
          held = in_flight (ob_sentAt ob) holders in
      if \<not> int (length held) < maxInFlight
      then (rec\<lparr>outcome := (outcome rec)[i := OutcomeGeneratorSaturated]\<rparr>, held)
      else (rec\<lparr>sent := (sent rec)[i := True], outcome := (outcome rec)[i := ob_outcome ob],
              service := (service rec)[i := ob_done ob - ob_sentAt ob],
              arrival := (arrival rec)[i := ob_done ob - (start + due)]\<rparr>, ob_release ob # held))"

fun send_all :: "int \<Rightarrow> int \<Rightarrow> nat \<Rightarrow> (int \<times> observation) list \<Rightarrow> recorder \<times> int list \<Rightarrow> recorder \<times> int list" where
  "send_all m start i [] st = st"
| "send_all m start i ((due, ob) # rest) st = send_all m start (Suc i) rest (send_one m start i due ob st)"

text \<open>The request body of a product, and the message around it (send).\<close>

definition request_body :: "int \<Rightarrow> string" where
  "request_body i = ''{'' @ quoted ''product_id'' @ '':'' @ show_int i @ ''}''"

record outgoing =
  og_Method :: string
  og_URL :: string
  og_Headers :: "(string \<times> string) list"
  og_Body :: string

definition outgoing_for :: "string \<Rightarrow> string \<Rightarrow> string \<Rightarrow> outgoing" where
  "outgoing_for baseURL token body =
     \<lparr>og_Method = ''POST'', og_URL = baseURL @ ''/orders'',
      og_Headers = [(''Content-Type'', ''application/json''), (''Authorization'', ''Bearer '' @ token)],
      og_Body = body\<rparr>"

text \<open>
  send: new_request is http.NewRequestWithContext, which fails on a URL it cannot parse;
  transport is the client's Do: a failure, or a status and a body.
\<close>

definition send ::
  "(outgoing \<Rightarrow> bool) \<Rightarrow> (outgoing \<Rightarrow> transport_error + (int \<times> string)) \<Rightarrow> (string \<Rightarrow> json option) \<Rightarrow>
     string \<Rightarrow> string \<Rightarrow> string \<Rightarrow> outcome" where
  "send new_request transport unmarshal baseURL token body =
     (let rq = outgoing_for baseURL token body in
      if \<not> new_request rq then OutcomeConnectError
      else case transport rq of
          Inl e \<Rightarrow> ClassifyError e
        | Inr (status, full) \<Rightarrow> ClassifyResponse unmarshal status full)"

record run_results =
  rs_Latency :: latencies
  rs_Outcomes :: "string \<Rightarrow> int"
  rs_Schedule :: schedule
  rs_Through :: throughput
  rs_Reserved :: int
  rs_ReservedTotal :: int
  rs_UnknownTotal :: int
  rs_Measured :: int

text \<open>Run: observations are what the dispatcher met, one per request of the schedule.\<close>

definition recorded :: "int \<Rightarrow> int \<Rightarrow> int list \<Rightarrow> observation list \<Rightarrow> recorder" where
  "recorded maxInFlight start sched obs =
     fst (send_all maxInFlight start 0 (zip sched obs) (newRecorder (length sched), []))"

definition Run :: "int \<Rightarrow> int \<Rightarrow> int \<Rightarrow> int list \<Rightarrow> observation list \<Rightarrow> int \<Rightarrow> (int \<times> int) + run_results" where
  "Run maxInFlight warmup start sched obs elapsed =
     (let rec = recorded maxInFlight start sched obs;
          frm = window sched warmup;
          (latency, counts) = collect rec frm;
          stats = scheduleStats rec frm;
          measured = elapsed - warmup in
      if measured \<le> 0 then Inl (warmup, elapsed)
      else
        let reserved = counts (outcome_String OutcomeReserved);
            accepted = reserved + counts (outcome_String OutcomeOutOfStock);
            secs = Seconds measured
        in Inr \<lparr>rs_Latency = latency, rs_Outcomes = counts, rs_Schedule = stats,
              rs_Through = \<lparr>GoodputPerSec = fl (fl (of_int reserved) / secs),
                AcceptedPerSec = fl (fl (of_int accepted) / secs), OfferedPerSec = 0\<rparr>,
              rs_Reserved = reserved, rs_ReservedTotal = totalReserved rec,
              rs_UnknownTotal = totalUnknown rec, rs_Measured = measured\<rparr>)"

section \<open>The invariant of the dispatcher\<close>

text \<open>
  Slots at and after the next index are untouched; below it a request was sent, with an
  outcome that is not saturation, or was recorded as saturated.
\<close>

definition recorder_ok :: "nat \<Rightarrow> nat \<Rightarrow> recorder \<Rightarrow> bool" where
  "recorder_ok n k r =
     (length (outcome r) = n \<and> length (sent r) = n \<and> length (lag r) = n \<and> length (service r) = n \<and>
      length (arrival r) = n \<and>
      (\<forall>i < k. sent r ! i \<longleftrightarrow> outcome r ! i \<noteq> OutcomeGeneratorSaturated) \<and> (\<forall>i. k \<le> i \<and> i < n \<longrightarrow> \<not> sent r ! i))"

lemma newRecorder_ok: "recorder_ok n 0 (newRecorder n)"
  by (simp add: recorder_ok_def newRecorder_def)

lemma send_one_ok:
  assumes "recorder_ok n i (fst st)" "i < n" "ob_outcome ob \<noteq> OutcomeGeneratorSaturated"
  shows "recorder_ok n (Suc i) (fst (send_one m start i due ob st))"
  using assms
  by (auto simp: recorder_ok_def send_one_def Let_def split_beta nth_list_update less_Suc_eq)

lemma send_all_ok:
  assumes "recorder_ok n i (fst st)" "i + length xs = n"
    and "\<forall>(due, ob) \<in> set xs. ob_outcome ob \<noteq> OutcomeGeneratorSaturated"
  shows "recorder_ok n n (fst (send_all m start i xs st))"
  using assms
proof (induction m start i xs st rule: send_all.induct)
  case (2 m start i due ob rest st)
  then show ?case using send_one_ok [of n i st ob m start due] by simp
qed simp

lemma recorded_ok:
  assumes "length obs = length sched" "\<forall>ob \<in> set obs. ob_outcome ob \<noteq> OutcomeGeneratorSaturated"
  shows "recorder_ok (length sched) (length sched) (recorded m start sched obs)"
  unfolding recorded_def using assms
  by (intro send_all_ok) (auto simp: newRecorder_ok dest: set_zip_rightD)

text \<open>Never more in flight than allowed.\<close>

lemma send_one_bounded:
  "0 \<le> m \<Longrightarrow> int (length (snd st)) \<le> m \<Longrightarrow> int (length (snd (send_one m start i due ob st))) \<le> m"
  using of_nat_mono [OF length_filter_le [of "(<) (ob_sentAt ob)" "snd st"], where 'a = int]
  by (simp add: send_one_def Let_def split_beta in_flight_def del: length_filter_le of_nat_le_iff)

lemma send_all_bounded:
  "0 \<le> m \<Longrightarrow> int (length (snd st)) \<le> m \<Longrightarrow> int (length (snd (send_all m start i xs st))) \<le> m"
  by (induction m start i xs st rule: send_all.induct) (simp_all add: send_one_bounded)

text \<open>In the window, sent and saturated requests are all there are.\<close>

lemma sent_or_saturated:
  assumes "recorder_ok n n r" "frm \<le> n"
  shows "length (filter (\<lambda>i. sent r ! i) [frm..<n]) + length (filter (\<lambda>i. outcome r ! i = OutcomeGeneratorSaturated) [frm..<n]) = n - frm"
proof -
  have "filter (\<lambda>i. sent r ! i) [frm..<n] = filter (\<lambda>i. \<not> outcome r ! i = OutcomeGeneratorSaturated) [frm..<n]"
    using assms(1) by (intro filter_cong) (auto simp: recorder_ok_def)
  then show ?thesis
    using sum_length_filter_compl [of "\<lambda>i. outcome r ! i = OutcomeGeneratorSaturated" "[frm..<n]"] by simp
qed

lemma totalReserved_counts:
  assumes "recorder_ok n n r"
  shows "totalReserved r = count_outcome r 0 OutcomeReserved"
proof -
  have "filter (\<lambda>i. sent r ! i \<and> outcome r ! i = OutcomeReserved) [0..<n] =
    filter (\<lambda>i. outcome r ! i = OutcomeReserved) [0..<n]"
    using assms by (intro filter_cong) (auto simp: recorder_ok_def)
  then show ?thesis using assms by (simp add: totalReserved_def count_outcome_def recorder_ok_def)
qed

section \<open>Shapes\<close>

definition ShapeHotDeep :: string where "ShapeHotDeep = ''hot-deep''"
definition ShapeDoorbuster :: string where "ShapeDoorbuster = ''doorbuster''"
definition ShapeUncontended :: string where "ShapeUncontended = ''uncontended''"
definition ShapeZipf :: string where "ShapeZipf = ''zipf''"

lemmas shape_defs = ShapeHotDeep_def ShapeDoorbuster_def ShapeUncontended_def ShapeZipf_def

definition ShapeNames :: "string list" where
  "ShapeNames = [ShapeHotDeep, ShapeDoorbuster, ShapeUncontended, ShapeZipf]"

text \<open>pick takes the request's index and what the Zipf generator draws for it.\<close>

record plan =
  pl_Name :: string
  pl_SKUs :: int
  pl_Quantity :: int
  pl_pick :: "int \<Rightarrow> int \<Rightarrow> int"

definition Pick :: "plan \<Rightarrow> int \<Rightarrow> int \<Rightarrow> int" where
  "Pick p i draw = pl_pick p i draw"

definition deep_quantity :: "int \<Rightarrow> int" where
  "deep_quantity requests = int32 (int32 (int32 requests * 10) + 1000)"

definition PlanFor :: "string \<Rightarrow> int \<Rightarrow> string + plan" where
  "PlanFor shape requests =
     (if shape = ShapeHotDeep
      then Inr \<lparr>pl_Name = ShapeHotDeep, pl_SKUs = 1, pl_Quantity = deep_quantity requests, pl_pick = (\<lambda>i draw. 0)\<rparr>
      else if shape = ShapeDoorbuster
      then let q = int32 (requests div 100) in
        Inr \<lparr>pl_Name = ShapeDoorbuster, pl_SKUs = 1, pl_Quantity = (if q < 1 then 1 else q), pl_pick = (\<lambda>i draw. 0)\<rparr>
      else if shape = ShapeUncontended
      then let skus = (if requests div 10 < 64 then 64 else requests div 10) in
        Inr \<lparr>pl_Name = ShapeUncontended, pl_SKUs = skus, pl_Quantity = deep_quantity requests,
             pl_pick = (\<lambda>i draw. i mod skus)\<rparr>
      else if shape = ShapeZipf
      then Inr \<lparr>pl_Name = ShapeZipf, pl_SKUs = 1000, pl_Quantity = deep_quantity requests, pl_pick = (\<lambda>i draw. draw)\<rparr>
      else Inl (''unknown workload shape '' @ quoted shape @ '', want one of '' @ bracketed ShapeNames))"

text \<open>Every pick is an index of the seeded products; rand.Zipf draws at most its imax, 999.\<close>

lemma pick_in_range:
  assumes "PlanFor shape requests = Inr p" "0 \<le> i" "0 \<le> draw" "draw < 1000"
  shows "0 \<le> Pick p i draw \<and> Pick p i draw < pl_SKUs p"
  using assms by (auto simp: PlanFor_def Pick_def Let_def split: if_splits)

lemma int32_small: "- (2 ^ 31) \<le> n \<Longrightarrow> n < 2 ^ 31 \<Longrightarrow> int32 n = n"
  by (rule int32_id) simp_all

text \<open>A deep product outlasts any run the arithmetic can count; far beyond it, the quantity wraps.\<close>

lemma deep_quantity_enough:
  "0 \<le> requests \<Longrightarrow> requests \<le> 214748264 \<Longrightarrow> deep_quantity requests = requests * 10 + 1000"
  by (simp add: deep_quantity_def int32_small)

lemma deep_quantity_wraps: "deep_quantity 214748265 = - 2147483646"
  by (simp add: deep_quantity_def int32_def)

section \<open>The guard of the database\<close>

text \<open>
  url_path is net/url's Parse and the Path of its result. The errors are ErrUnsafeTarget and
  the two of databaseName.
\<close>

datatype target_error = UnsafeTarget string | BadDSN | NoDatabase

definition safeMarker :: string where "safeMarker = ''bench''"

definition databaseName :: "(string \<Rightarrow> string option) \<Rightarrow> string \<Rightarrow> target_error + string" where
  "databaseName url_path dsn =
     (case url_path dsn of
        None \<Rightarrow> Inl BadDSN
      | Some path \<Rightarrow>
          let name = (if has_prefix path ''/'' then drop 1 path else path) in
          if name = [] then Inl NoDatabase else Inr name)"

text \<open>strings.Contains.\<close>

definition contains :: "string \<Rightarrow> string \<Rightarrow> bool" where
  "contains s sub = list_ex (\<lambda>i. has_prefix (drop i s) sub) [0..<Suc (length s)]"

definition CheckTarget :: "(string \<Rightarrow> string option) \<Rightarrow> string \<Rightarrow> bool \<Rightarrow> target_error option" where
  "CheckTarget url_path dsn override =
     (if override then None
      else case databaseName url_path dsn of
          Inl e \<Rightarrow> Some e
        | Inr name \<Rightarrow> if \<not> contains (map lower_char name) safeMarker then Some (UnsafeTarget name) else None)"

lemma contains_iff: "contains s sub \<longleftrightarrow> (\<exists>a b. s = a @ sub @ b)"
proof
  assume "contains s sub"
  then obtain i where i: "i \<le> length s" "has_prefix (drop i s) sub"
    by (auto simp: contains_def list_ex_iff less_Suc_eq_le simp del: upt_Suc)
  have "take i s @ drop i s = s" by simp
  moreover have "drop i s = sub @ drop (length sub) (drop i s)"
    using i(2) append_take_drop_id [of "length sub" "drop i s"] by (simp add: has_prefix_def)
  ultimately show "\<exists>a b. s = a @ sub @ b" by metis
next
  assume "\<exists>a b. s = a @ sub @ b"
  then obtain a b where "s = a @ sub @ b" by blast
  then show "contains s sub"
    unfolding contains_def list_ex_iff
    by (intro bexI [of _ "length a"]) (simp_all del: upt_Suc)
qed

section \<open>The analytic model\<close>

definition rttsInLock :: "string \<Rightarrow> int" where
  "rttsInLock arm =
     (if arm = StrategyBaseline then 2 else if arm = StrategyReserveLast then 1
      else if arm = StrategyCTE then 0 else - 1)"

text \<open>The median of the probes that answered: probes are durations, 0 where the probe failed.\<close>

definition medianMicros :: "int list \<Rightarrow> real" where
  "medianMicros probes =
     (let samples = map micros_of (filter (\<lambda>d. d > 0) probes) in
      if samples = [] then 0 else sort samples ! (length samples div 2))"

definition ProbeModel :: "int list \<Rightarrow> int list \<Rightarrow> string \<Rightarrow> real \<Rightarrow> model" where
  "ProbeModel rtt_probes commit_probes arm execMicros =
     (let rtt = medianMicros rtt_probes;
          c = fl (medianMicros commit_probes - rtt);
          commit_cost = (if c > 0 then c else 0);
          rtts = rttsInLock arm;
          lockMicros = fl (fl (fl (fl (of_int rtts) * rtt) + execMicros) + commit_cost)
      in \<lparr>RTTMicros = rtt, CommitCostMicros = commit_cost, ExecMicros = execMicros, ClientRTTsInLock = rtts,
          PredictedCeiling = (if lockMicros > 0 then fl (1000000 / lockMicros) else 0)\<rparr>)"

section \<open>What a run reports\<close>

lemma Run_reports:
  assumes "length obs = length sched" "\<forall>ob \<in> set obs. ob_outcome ob \<noteq> OutcomeGeneratorSaturated"
    and "Run m warmup start sched obs elapsed = Inr out"
  shows "sum_list (map (rs_Outcomes out) OutcomeNames) = Requests (rs_Schedule out)"
    and "rs_Outcomes out ''generator_saturated'' = GeneratorSaturated (rs_Schedule out)"
    and "PCount (Overall (rs_Latency out)) + GeneratorSaturated (rs_Schedule out) = Requests (rs_Schedule out)"
    and "ordered (Overall (rs_Latency out))" and "rs_Reserved out \<le> rs_ReservedTotal out"
proof -
  let ?r = "recorded m start sched obs" and ?f = "window sched warmup"
  have ok: "recorder_ok (length sched) (length sched) ?r" by (rule recorded_ok [OF assms(1,2)])
  then have len: "length (outcome ?r) = length sched" by (simp add: recorder_ok_def)
  have out: "rs_Outcomes out = snd (collect ?r ?f)" "rs_Latency out = fst (collect ?r ?f)"
    "rs_Schedule out = scheduleStats ?r ?f" "rs_Reserved out = snd (collect ?r ?f) (outcome_String OutcomeReserved)"
    "rs_ReservedTotal out = totalReserved ?r"
    using assms(3) by (auto simp: Run_def Let_def split_beta split: if_splits)
  have req: "Requests (rs_Schedule out) = int (length sched - ?f)"
    using window_le [of sched warmup] by (simp add: out scheduleStats_def Let_def len)
  have sat: "GeneratorSaturated (rs_Schedule out) = count_outcome ?r ?f OutcomeGeneratorSaturated"
    by (simp add: out scheduleStats_def Let_def count_outcome_def)
  show "sum_list (map (rs_Outcomes out) OutcomeNames) = Requests (rs_Schedule out)"
    using collect_total [of ?f ?r] window_le [of sched warmup] by (simp add: out(1) req len)
  show "rs_Outcomes out ''generator_saturated'' = GeneratorSaturated (rs_Schedule out)"
    using collect_count [of ?r ?f OutcomeGeneratorSaturated] by (simp add: out(1) sat)
  have lat: "Overall (rs_Latency out) = percentilesOf (map (\<lambda>i. arrival ?r ! i) (filter (\<lambda>i. sent ?r ! i) [?f..<length sched]))"
    by (simp add: out(2) collect_def Let_def len)
  show "ordered (Overall (rs_Latency out))" unfolding lat by (rule percentiles_ordered)
  show "PCount (Overall (rs_Latency out)) + GeneratorSaturated (rs_Schedule out) = Requests (rs_Schedule out)"
    using sent_or_saturated [OF ok window_le [of sched warmup]]
    by (simp add: lat percentiles_count sat count_outcome_def len req)
  have "length (filter P [?f..<length sched]) \<le> length (filter P [0..<length sched])" for P
    using window_le [of sched warmup] upt_add_eq_append [of 0 ?f "length sched - ?f"] by simp
  then show "rs_Reserved out \<le> rs_ReservedTotal out"
    unfolding out(4,5) collect_count totalReserved_counts [OF ok] by (simp add: count_outcome_def len)
qed

end
