(* ===== verification/BenchVerify.thy ===== *)
theory BenchVerify
  imports BenchRun Api History
begin

text \<open>
  The database around a benchmark run: emptying and seeding it
  (bench/internal/workload/seed.go, tokens.go) before the app is started, and the
  consistency check of what it holds after the load has stopped
  (bench/internal/verify/invariants.go). Both are programs over the same statements and
  sessions as the app itself, so what they find can be proved of the app's runs.
\<close>

section \<open>Before the run\<close>

text \<open>
  TRUNCATE ... RESTART IDENTITY CASCADE: the five named tables, order_idempotency through
  its reference to orders, and the sequences.
\<close>

definition Reset :: "db \<Rightarrow> db" where
  "Reset d = d\<lparr>orders := [], stocks := [], products := [], customers := [], events := [], idems := [],
     customer_seq := 1, product_seq := 1, stock_seq := 1, order_seq := 1\<rparr>"

lemma Reset_empty: "Reset d = empty_db"
  by (simp add: Reset_def empty_db_def)

definition seed_name :: "plan \<Rightarrow> nat \<Rightarrow> string" where
  "seed_name pl i = ''bench-'' @ pl_Name pl @ ''-'' @ show_nat i"

primrec seed_products :: "plan \<Rightarrow> int \<Rightarrow> nat list \<Rightarrow> int list prog" where
  "seed_products pl startAt [] = ret []"
| "seed_products pl startAt (i # is) =
     handle (exec (CreateProduct (seed_name pl i) 1999 startAt)) (\<lambda>r. case r of
        Inl e \<Rightarrow> throw (Wrapped (''create product '' @ show_nat i) e)
      | Inr product \<Rightarrow>
          handle (exec (CreateStock (p_ID product) (pl_Quantity pl))) (\<lambda>r. case r of
             Inl e \<Rightarrow> throw (Wrapped (''create stock '' @ show_nat i) e)
           | Inr _ \<Rightarrow> call (seed_products pl startAt is) (\<lambda>ids. ret (p_ID product # ids))))"

definition Hour :: int where "Hour = 3600000000"

definition SeedProducts :: "plan \<Rightarrow> int \<Rightarrow> int list prog" where
  "SeedProducts pl now = seed_products pl (now - Hour) [0..<nat (pl_SKUs pl)]"

record buyer =
  by_Subject :: string
  by_Email :: string
  by_Token :: string

primrec SeedCustomers :: "buyer list \<Rightarrow> unit prog" where
  "SeedCustomers [] = ret ()"
| "SeedCustomers (b # bs) =
     handle (exec (LinkCustomer (by_Email b) (Some (by_Subject b)))) (\<lambda>r. case r of
        Inl e \<Rightarrow> throw (Wrapped (''seed customer '' @ by_Subject b) e)
      | Inr _ \<Rightarrow> SeedCustomers bs)"

text \<open>MintBuyers: mint is the fake issuer's signature over a subject and an email.\<close>

fun mint_from :: "(string \<Rightarrow> string \<Rightarrow> error + string) \<Rightarrow> nat list \<Rightarrow> error + buyer list" where
  "mint_from mint [] = Inr []"
| "mint_from mint (i # is) =
     (let sub = ''sub-bench-'' @ show_nat i; mail = ''bench-'' @ show_nat i @ ''@example.test'' in
      case mint sub mail of
        Inl e \<Rightarrow> Inl (Wrapped (''mint token '' @ show_nat i) e)
      | Inr token \<Rightarrow>
          (case mint_from mint is of
             Inl e \<Rightarrow> Inl e
           | Inr bs \<Rightarrow> Inr (\<lparr>by_Subject = sub, by_Email = mail, by_Token = token\<rparr> # bs)))"

definition MintBuyers :: "(string \<Rightarrow> string \<Rightarrow> error + string) \<Rightarrow> nat \<Rightarrow> error + buyer list" where
  "MintBuyers mint n = mint_from mint [0..<n]"

text \<open>The two seedings, as Execute performs them.\<close>

definition seeding :: "plan \<Rightarrow> int \<Rightarrow> buyer list \<Rightarrow> int list prog" where
  "seeding pl now buyers = call (SeedProducts pl now) (\<lambda>ids. call (SeedCustomers buyers) (\<lambda>_. ret ids))"

section \<open>After the run\<close>

text \<open>The four queries of Check.\<close>

definition CountOrders :: "int stmt" where
  "CountOrders e = Reply (Inr (int (length (orders (view e))))) [] []"

definition SelectStock :: "int \<Rightarrow> (int \<times> int) stmt" where
  "SelectStock p e = one_row (map_option (\<lambda>s. (s_Quantity s, s_NumReserved s)) (find_stock p (view e)))"

definition CountStatus :: "string list \<Rightarrow> int \<Rightarrow> int stmt" where
  "CountStatus sts p e =
     Reply (Inr (int (length (filter (\<lambda>r. o_ProductID r = p \<and> o_Status r \<in> set sts) (orders (view e)))))) [] []"

definition CountLive :: "int \<Rightarrow> int stmt" where
  "CountLive = CountStatus [StatusPending, StatusAwaitingPayment]"

definition CountSold :: "int \<Rightarrow> int stmt" where
  "CountSold = CountStatus [StatusPending, StatusAwaitingPayment, StatusCompleted]"

text \<open>A check that holds carries no detail.\<close>

definition checked :: "string \<Rightarrow> bool \<Rightarrow> string \<Rightarrow> invariant_check" where
  "checked name ok detail = \<lparr>ic_Name = name, ic_OK = ok, ic_Detail = (if ok then [] else detail)\<rparr>"

definition count_check :: "(error \<Rightarrow> string) \<Rightarrow> int \<Rightarrow> int \<Rightarrow> error + int \<Rightarrow> invariant_check" where
  "count_check drv clientReserved clientUnknown r =
     (case r of
        Inl e \<Rightarrow> checked ''client_server_order_count'' False (''counting orders: '' @ error_text drv e)
      | Inr n \<Rightarrow>
          if clientUnknown = 0
          then checked ''client_server_order_count'' (n = clientReserved)
                 (''client saw '' @ show_int clientReserved @ '' successful reserves but the orders table holds '' @ show_int n)
          else checked ''client_server_order_count''
                 (n \<ge> clientReserved \<and> n \<le> clientReserved + clientUnknown)
                 (''orders table holds '' @ show_int n @ '', outside the range ['' @ show_int clientReserved @ '', '' @
                  show_int (clientReserved + clientUnknown) @ ''] implied by '' @ show_int clientReserved @
                  '' observed reserves and '' @ show_int clientUnknown @ '' requests whose outcome the client never learned''))"

definition check_product :: "(error \<Rightarrow> string) \<Rightarrow> int \<Rightarrow> int \<Rightarrow> invariant_check list prog" where
  "check_product drv initialQty p =
     handle (exec (SelectStock p)) (\<lambda>r. case r of
        Inl e \<Rightarrow> ret [checked (''stock_readable_'' @ show_int p) False (''reading stock: '' @ error_text drv e)]
      | Inr (quantity, reserved) \<Rightarrow>
          let cs = [checked ''num_reserved_non_negative'' (reserved \<ge> 0)
                      (''product '' @ show_int p @ '' has num_reserved = '' @ show_int reserved),
                    checked ''num_reserved_within_quantity'' (reserved \<le> quantity)
                      (''product '' @ show_int p @ '' reserved '' @ show_int reserved @ '' of '' @ show_int quantity)] in
          handle (exec (CountLive p)) (\<lambda>r. case r of
             Inl e \<Rightarrow> ret (cs @ [checked ''reserved_matches_live_orders'' False
                                  (''counting live orders: '' @ error_text drv e)])
           | Inr live \<Rightarrow>
               let cs = cs @ [checked ''reserved_matches_live_orders'' (reserved = live)
                     (''product '' @ show_int p @ '': num_reserved = '' @ show_int reserved @ '' but '' @
                      show_int live @ '' orders are live'')] in
               handle (exec (CountSold p)) (\<lambda>r. case r of
                  Inl e \<Rightarrow> ret (cs @ [checked ''orders_within_initial_quantity'' False
                                       (''counting orders: '' @ error_text drv e)])
                | Inr held \<Rightarrow> ret (cs @ [checked ''orders_within_initial_quantity'' (held \<le> initialQty)
                     (''product '' @ show_int p @ '': '' @ show_int held @ '' orders against an initial quantity of '' @
                      show_int initialQty)]))))"

primrec check_products :: "(error \<Rightarrow> string) \<Rightarrow> int \<Rightarrow> int list \<Rightarrow> invariant_check list prog" where
  "check_products drv initialQty [] = ret []"
| "check_products drv initialQty (p # ps) =
     call (check_product drv initialQty p) (\<lambda>cs. call (check_products drv initialQty ps) (\<lambda>cs'. ret (cs @ cs')))"

definition Check :: "(error \<Rightarrow> string) \<Rightarrow> int list \<Rightarrow> int \<Rightarrow> int \<Rightarrow> int \<Rightarrow> invariants prog" where
  "Check drv productIDs initialQty clientReserved clientUnknown =
     handle (exec CountOrders) (\<lambda>r.
       call (check_products drv initialQty productIDs) (\<lambda>cs.
         let checks = count_check drv clientReserved clientUnknown r # cs in
         ret \<lparr>Passed = list_all ic_OK checks, Checks = checks\<rparr>))"

section \<open>Running the check\<close>

lemma checked_OK [simp]: "ic_OK (checked name ok detail) = ok"
  by (simp add: checked_def)

text \<open>The five conditions on a product, in terms of the database's own counts.\<close>

definition product_sound :: "int \<Rightarrow> int \<Rightarrow> db \<Rightarrow> bool" where
  "product_sound initialQty p d =
     (find_stock p d \<noteq> None \<and> 0 \<le> reserved_of p d \<and> reserved_of p d \<le> quantity_of p d \<and>
      reserved_of p d = live_orders p d \<and> live_orders p d + sold_orders p d \<le> initialQty)"

lemma live_count: "int (length (filter (\<lambda>r. o_ProductID r = p \<and> o_Status r \<in> set [StatusPending, StatusAwaitingPayment]) os)) =
    int (length (filter (is_live p) os))"
  by (intro arg_cong [where f = int] arg_cong [where f = length] filter_cong) (auto simp: is_live_def live_status_def)

lemma sold_count:
  "int (length (filter (\<lambda>r. o_ProductID r = p \<and> o_Status r \<in> set [StatusPending, StatusAwaitingPayment, StatusCompleted]) os)) =
    int (length (filter (is_live p) os)) + int (length (filter (is_sold p) os))"
  by (induction os) (auto simp: is_live_def is_sold_def live_status_def)

lemma run_check_product:
  "\<exists>cs. run [] i (check_product drv q p) [] g = Some ([], Inr cs, [], g) \<and>
     (list_all ic_OK cs \<longleftrightarrow> product_sound q p (committed g))"
proof (cases "find_stock p (committed g)")
  case None
  then show ?thesis
    by (simp add: check_product_def prog_simps SelectStock_def reply_defs product_sound_def)
next
  case (Some s)
  then show ?thesis
    by (auto simp: check_product_def prog_simps SelectStock_def reply_defs product_sound_def Let_def
        CountLive_def CountSold_def CountStatus_def live_count sold_count stock_val_def count_orders_def
        simp del: list.set)
qed

lemma run_check_products:
  "\<exists>cs. run [] i (check_products drv q ps) [] g = Some ([], Inr cs, [], g) \<and>
     (list_all ic_OK cs \<longleftrightarrow> (\<forall>p \<in> set ps. product_sound q p (committed g)))"
proof (induction ps)
  case (Cons p ps)
  obtain cs cs' where
    "run [] i (check_product drv q p) [] g = Some ([], Inr cs, [], g)"
    "list_all ic_OK cs \<longleftrightarrow> product_sound q p (committed g)"
    "run [] i (check_products drv q ps) [] g = Some ([], Inr cs', [], g)"
    "list_all ic_OK cs' \<longleftrightarrow> (\<forall>p \<in> set ps. product_sound q p (committed g))"
    using Cons.IH run_check_product [of i drv q p g] by blast
  then show ?case by (simp add: prog_simps)
qed simp

lemma run_Check:
  "\<exists>inv. run [] i (Check drv ps q clientReserved clientUnknown) [] g = Some ([], Inr inv, [], g) \<and>
     (0 \<le> clientUnknown \<longrightarrow>
      (Passed inv \<longleftrightarrow>
        clientReserved \<le> int (length (orders (committed g))) \<and>
        int (length (orders (committed g))) \<le> clientReserved + clientUnknown \<and>
        (\<forall>p \<in> set ps. product_sound q p (committed g))))"
  using run_check_products [of i drv q ps g]
  by (auto simp: Check_def prog_simps CountOrders_def count_check_def Let_def)

section \<open>Seeding\<close>

lemma run_exec_frame:
  assumes "run [] j (exec s) [] g = Some (cs, r, st, g')" "locks g = []"
  shows "cs = []" "st = []" "locks g' = []"
  using assms by (auto simp: run_exec_auto split: reply.splits)

lemma pooled_seeds [good_intros]:
  "pooled (exec (CreateProduct nm price t))" "pooled (exec (CreateStock p q))"
  "pooled (exec (LinkCustomer m so))"
proof -
  have "balanced ws" if "CreateStock p q e = Reply r ws sq" "\<not> server_error r" for e r ws sq
  proof (cases r)
    case (Inr y)
    with that have "ws = [WStock None y]" "s_NumReserved y = 0" by (auto dest: product_effects(2))
    then show ?thesis by (auto simp: balanced_def inserts_stock_def)
  next
    case (Inl e')
    with that show ?thesis by (auto simp: CreateStock_def Let_def split: if_splits)
  qed
  then have "balanced_stmt (CreateStock p q)" unfolding balanced_stmt_def by blast
  moreover have "neutral_stmt (CreateProduct nm price t)"
    by (auto simp: neutral_stmt_def CreateProduct_def Let_def split: if_splits)
  moreover have "neutral_stmt (LinkCustomer m so)"
    by (auto simp: neutral_stmt_def LinkCustomer_def Let_def split: if_splits option.splits)
  ultimately show "pooled (exec (CreateProduct nm price t))" "pooled (exec (CreateStock p q))"
    "pooled (exec (LinkCustomer m so))"
    using sound_products sound_stock(4) sound_customers(2) neutral_balanced_stmt pooled_exec by blast+
qed

lemma pooled_seed_products: "pooled (seed_products pl t is)"
  by (induction "is") (auto intro!: good_intros split: sum.split)

lemma pooled_SeedCustomers: "pooled (SeedCustomers bs)"
  by (induction bs) (auto intro!: good_intros split: sum.split)

text \<open>A statement keeps the orders it does not write.\<close>

lemma no_orders_without_stock:
  "db_inv d \<Longrightarrow> find_stock p d = None \<Longrightarrow> live_orders p d = 0 \<and> sold_orders p d = 0"
  using db_invD(5) [of d] by (fastforce simp: count_orders_def filter_empty_conv is_live_def is_sold_def)

lemma run_CreateStock_capacity:
  assumes "run [] j (exec (CreateStock p q)) [] g = Some (cs, Inr s, st, g')" "locks g = []" "db_inv (committed g)"
  shows "find_stock p (committed g') \<noteq> None \<and> capacity p (committed g') = q"
proof -
  have new: "find_stock p (committed g) = None"
    and g': "committed g' = burn StockSeq (put_stock \<lparr>s_ID = stock_seq (committed g), s_ProductID = p, s_Quantity = q, s_NumReserved = 0\<rparr> (committed g))"
    using assms(1,2) by (auto simp: run_exec_auto CreateStock_def Let_def split: if_splits)
  then show ?thesis
    using no_orders_without_stock [OF assms(3) new]
    by (simp add: capacity_def stock_val_def row_simps count_orders_def find_stock_def put_stock_def)
qed

lemma seed_products_spec:
  assumes "run [] j (seed_products pl t is) [] g = Some (cs, Inr ids, st, g')" "locks g = []" "db_inv (committed g)"
  shows "cs = [] \<and> locks g' = [] \<and>
    (\<forall>p \<in> set ids. find_stock p (committed g') \<noteq> None \<and> capacity p (committed g') = pl_Quantity pl)"
  using assms
proof (induction "is" arbitrary: g ids)
  case (Cons i "is")
  from Cons.prems(1) obtain x g1 s g2 ids' cs1 st1 cs2 st2 where
    p: "run [] j (exec (CreateProduct (seed_name pl i) 1999 t)) [] g = Some (cs1, Inr x, st1, g1)" and
    s: "run cs1 j (exec (CreateStock (p_ID x) (pl_Quantity pl))) st1 g1 = Some (cs2, Inr s, st2, g2)" and
    r: "run cs2 j (seed_products pl t is) st2 g2 = Some (cs, Inr ids', st, g')" and ids: "ids = p_ID x # ids'"
    by (simp add: run_handle run_call split: option.splits prod.splits sum.splits)
  note f1 = run_exec_frame [OF p Cons.prems(2)]
  note s' = s [unfolded f1(1,2)]
  note f2 = run_exec_frame [OF s' f1(3)]
  note i1 = pooled_run(2) [OF pooled_seeds(1) p Cons.prems(2,3)]
  note i2 = pooled_run(2) [OF pooled_seeds(2) s' f1(3) i1]
  note r' = r [unfolded f2(1,2)]
  have "capacity_history (committed g2) (committed g')"
    using capacity_log.steps [OF pooled_run(3) [OF pooled_seed_products r' f2(3) i2] i2] by blast
  with run_CreateStock_capacity [OF s' f1(3) i1] Cons.IH [OF r' f2(3) i2] ids show ?case
    by (auto simp: capacity_history_def)
qed simp

text \<open>A seeded database keeps its products' quantities as their capacities.\<close>

lemma seeding_spec:
  assumes "run [] j (seeding pl now buyers) [] g = Some (cs, Inr ids, st, g')" "locks g = []" "db_inv (committed g)"
  shows "db_inv (committed g') \<and>
    (\<forall>p \<in> set ids. find_stock p (committed g') \<noteq> None \<and> capacity p (committed g') = pl_Quantity pl)"
proof -
  from assms(1) obtain g1 cs1 st1 where
    p: "run [] j (SeedProducts pl now) [] g = Some (cs1, Inr ids, st1, g1)" and
    c: "run cs1 j (SeedCustomers buyers) st1 g1 = Some (cs, Inr (), st, g')"
    by (auto simp: seeding_def run_call split: option.splits prod.splits sum.splits)
  note spec = seed_products_spec [OF p [unfolded SeedProducts_def] assms(2,3)]
  note run1 = pooled_run [OF pooled_seed_products p [unfolded SeedProducts_def] assms(2,3)]
  have "cs1 = []" "locks g1 = []" using spec by blast+
  note c' = c [unfolded \<open>cs1 = []\<close> run1(1)]
  note run2 = pooled_run [OF pooled_SeedCustomers c' \<open>locks g1 = []\<close> run1(2)]
  have "capacity_history (committed g1) (committed g')"
    using capacity_log.steps [OF run2(3) run1(2)] by blast
  with spec run2(2) show ?thesis by (auto simp: capacity_history_def)
qed

lemma empty_inv: "db_inv empty_db"
  by (simp add: db_inv_def empty_db_def stock_val_def count_orders_def find_stock_def)

end
