(* ===== verification/BenchExec.thy ===== *)
theory BenchExec
  imports BenchVerify
begin

text \<open>
  bench/internal/run/run.go and the commands of bench/main.go: one measured run from the
  flags to the judged result, and the sweep over the arms with its saturation verdict.

  Execute is a sequence of calls, most of them outside the program. What each of them answers
  is a field of bench_env; that it was made is an entry of the trace the model returns beside
  the result, so that the order of the calls, the early returns and the deferred clean-ups
  are values to reason about.
\<close>

section \<open>Options\<close>

record options =
  op_DSN :: string
  op_AllowUnsafeTarget :: bool
  op_MigrationsDir :: string
  op_AppBinary :: string
  op_Addr :: string
  op_Arm :: string
  op_CustomerCache :: bool
  op_LogRequests :: bool
  op_DBMaxConns :: int
  op_Shape :: string
  op_Arrivals :: string
  op_Rate :: real
  op_Duration :: int
  op_Warmup :: int
  op_Buyers :: int
  op_MaxInFlight :: int
  op_Timeout :: int
  op_SpinSlack :: int
  op_GitSHA :: string
  op_Tier :: int
  op_SessionID :: string
  op_AppGOMAXPROCS :: int
  op_AllowDirty :: bool
  op_Seed :: int

text \<open>finish: the defaults that depend on other flags; stamp is the current time, formatted.\<close>

definition finish :: "int \<Rightarrow> string \<Rightarrow> options \<Rightarrow> options" where
  "finish tier stamp o1 =
     (let o2 = o1\<lparr>op_Tier := tier\<rparr>;
          m = trunc_int (op_Rate o2);
          o3 = (if op_MaxInFlight o2 \<le> 0 then o2\<lparr>op_MaxInFlight := (if m < 64 then 64 else m)\<rparr> else o2)
      in if op_SessionID o3 = [] then o3\<lparr>op_SessionID := stamp\<rparr> else o3)"

section \<open>Calls with a trace\<close>

datatype action =
    RaiseFileLimit | OpenPool | ClosePool | Migrate | ResetDatabase | EnsureProbeTable | ReadDBInfo
  | SeedTheProducts | StartIssuer | CloseIssuer | SeedTheCustomers | StartApp "(string \<times> string) list" | StopApp
  | WaitReady string | FindCustomer | ProbeArm int int | Probe | Load | CheckInvariants

datatype exec_error =
    NoGitSHA | DirtyTree | FileLimitTooLow int int | Target target_error | Memory memory_error
  | BadSchedule schedule_error | BadShape string | WarmupTooLong int int | Failed string error

type_synonym 'a ex = "action list \<times> (exec_error + 'a)"

definition pure_ex :: "'a \<Rightarrow> 'a ex" where
  "pure_ex x = ([], Inr x)"

definition fail :: "exec_error \<Rightarrow> 'a ex" where
  "fail e = ([], Inl e)"

definition perform :: "action \<Rightarrow> exec_error + 'a \<Rightarrow> 'a ex" where
  "perform a r = ([a], r)"

definition andthen :: "'a ex \<Rightarrow> ('a \<Rightarrow> 'b ex) \<Rightarrow> 'b ex" where
  "andthen m k =
     (case m of (t, r) \<Rightarrow> (case r of Inl e \<Rightarrow> (t, Inl e) | Inr x \<Rightarrow> (case k x of (t', r') \<Rightarrow> (t @ t', r'))))"

definition deferred :: "action \<Rightarrow> 'a ex \<Rightarrow> 'a ex" where
  "deferred a m = (case m of (t, r) \<Rightarrow> (t @ [a], r))"

text \<open>app.stop: a second call does nothing.\<close>

definition deferred_once :: "action \<Rightarrow> 'a ex \<Rightarrow> 'a ex" where
  "deferred_once a m = (case m of (t, r) \<Rightarrow> (if a \<in> set t then t else t @ [a], r))"

definition wrap :: "string \<Rightarrow> error + 'a \<Rightarrow> exec_error + 'a" where
  "wrap msg r = (case r of Inl e \<Rightarrow> Inl (Failed msg e) | Inr x \<Rightarrow> Inr x)"

section \<open>The app under test\<close>

definition show_bool :: "bool \<Rightarrow> string" where
  "show_bool b = (if b then ''true'' else ''false'')"

definition Audience :: string where "Audience = ''bench-client-id''"

text \<open>startApp: what it adds to the environment of the process.\<close>

definition app_environment :: "options \<Rightarrow> string \<Rightarrow> (string \<times> string) list" where
  "app_environment o1 issuerURL =
     [(''ADDR'', op_Addr o1), (''GOOSE_DBSTRING'', op_DSN o1), (''COGNITO_ISSUER_URL'', issuerURL),
      (''COGNITO_CLIENT_ID'', Audience), (''RESERVE_STRATEGY'', op_Arm o1),
      (''CUSTOMER_CACHE'', show_bool (op_CustomerCache o1)), (''LOG_REQUESTS'', show_bool (op_LogRequests o1)),
      (''DB_MAX_CONNS'', show_int (op_DBMaxConns o1)), (''GOMAXPROCS'', show_int (op_AppGOMAXPROCS o1)),
      (''RESERVATION_TTL'', ''24h''), (''RESERVATION_SWEEP_INTERVAL'', ''24h''),
      (''STRIPE_EVENT_POLL_INTERVAL'', ''0s''), (''STRIPE_SECRET_KEY'', ''sk_test_bench_placeholder''),
      (''STRIPE_WEBHOOK_SECRET'', ''whsec_bench_placeholder''), (''WEB_DIST_DIR'', ''/nonexistent-bench'')]"

text \<open>waitReady: the probes of the readiness route until the deadline, 200 being the answer.\<close>

definition waitReady :: "int option list \<Rightarrow> bool" where
  "waitReady answers = list_ex (\<lambda>a. a = Some 200) answers"

section \<open>Execute\<close>

record bench_env =
  be_collect :: meta
  be_file_limit :: "(int \<times> int) option"
  be_url_path :: "string \<Rightarrow> string option"
  be_meminfo :: "string list option"
  be_open_pool :: "error + unit"
  be_migrate :: "error + unit"
  be_reset :: "error + unit"
  be_probe_table :: "error + unit"
  be_db_info :: db_info
  be_draw :: "nat \<Rightarrow> real"
  be_seed_products :: "plan \<Rightarrow> error + int list"
  be_issuer :: "error + string"
  be_mint :: "string \<Rightarrow> string \<Rightarrow> error + string"
  be_seed_customers :: "buyer list \<Rightarrow> error + unit"
  be_start_app :: "error + unit"
  be_ready :: "int option list"
  be_customer :: "error + int"
  be_exec :: "error + real"
  be_rtt_probes :: "int list"
  be_commit_probes :: "int list"
  be_observe :: "int list \<Rightarrow> observation list"
  be_started :: int
  be_elapsed :: int
  be_check :: "int list \<Rightarrow> int \<Rightarrow> int \<Rightarrow> int \<Rightarrow> invariants"
  be_fixed :: "nat \<Rightarrow> real \<Rightarrow> string"

definition durability_note :: string where
  "durability_note = '' Durability control run: synchronous_commit=on, so commit cost dominates and arms are expected to converge.''"

text \<open>The facts about the build a result is attributed to; with no SHA, or a dirty tree, no run.\<close>

definition attribution :: "options \<Rightarrow> meta \<Rightarrow> exec_error + meta" where
  "attribution o1 m =
     (let m1 = (if op_GitSHA o1 \<noteq> [] then m\<lparr>GitSHA := op_GitSHA o1, GitDirty := False\<rparr> else m) in
      if GitSHA m1 = [] \<and> \<not> op_AllowDirty o1 then Inl NoGitSHA
      else if GitDirty m1 \<and> \<not> op_AllowDirty o1 then Inl DirtyTree
      else Inr m1)"

text \<open>uint64(opts.MaxInFlight * 2) against the hard limit.\<close>

definition file_limit :: "options \<Rightarrow> (int \<times> int) option \<Rightarrow> meta \<Rightarrow> exec_error + meta" where
  "file_limit o1 limits m =
     (case limits of
        None \<Rightarrow> Inr m
      | Some (soft, hard) \<Rightarrow>
          let need = int64 (op_MaxInFlight o1 * 2) mod 2 ^ 64 in
          if hard < need then Inl (FileLimitTooLow hard need) else Inr (m\<lparr>RLimitNofile := soft\<rparr>))"

text \<open>From the running app to the judged result; the app is stopped before the check reads.\<close>

definition measure_run :: "bench_env \<Rightarrow> options \<Rightarrow> result \<Rightarrow> int list \<Rightarrow> plan \<Rightarrow> int list \<Rightarrow> result ex" where
  "measure_run w o1 res sched pl ids =
     andthen (perform (WaitReady (''http://127.0.0.1'' @ op_Addr o1))
         (if waitReady (be_ready w) then Inr () else Inl (Failed ''app did not become ready'' (Infra ''timeout'')))) (\<lambda>_.
     andthen (perform FindCustomer (wrap ''find a seeded customer for the exec probe'' (be_customer w))) (\<lambda>customer.
     andthen (perform (ProbeArm (hd ids) customer) (wrap ''probe exec time'' (be_exec w))) (\<lambda>execMicros.
     andthen (perform Probe (Inr ())) (\<lambda>_.
     andthen (perform Load
         (case Run (op_MaxInFlight o1) (op_Warmup o1) (be_started w) sched (be_observe w sched) (be_elapsed w) of
            Inl (warm, el) \<Rightarrow> Inl (WarmupTooLong warm el) | Inr out \<Rightarrow> Inr out)) (\<lambda>out.
     andthen (perform StopApp (Inr ())) (\<lambda>_.
     andthen (perform CheckInvariants (Inr (be_check w ids (pl_Quantity pl) (rs_ReservedTotal out) (rs_UnknownTotal out)))) (\<lambda>inv.
       pure_ex (applyValidity (be_fixed w) (res\<lparr>
         Model := ProbeModel (be_rtt_probes w) (be_commit_probes w) (op_Arm o1) execMicros,
         App := \<lparr>ai_Arm = op_Arm o1, ai_CustomerCache = op_CustomerCache o1, ai_CustomerCacheEntries = 0,
           ai_LogRequests = op_LogRequests o1, ai_DBMaxConns = op_DBMaxConns o1, ai_ReservationTTL = ''24h'',
           ai_SweepInterval = ''24h'', ai_StripeEventPollInterval = ''0s''\<rparr>,
         Workload := \<lparr>wl_Shape = pl_Name pl, wl_Arrivals = op_Arrivals o1, wl_TargetRate = op_Rate o1,
           wl_SKUs = pl_SKUs pl, wl_InitialQuantity = pl_Quantity pl, wl_Buyers = op_Buyers o1,
           wl_DurationSeconds = Seconds (op_Duration o1), wl_WarmupSeconds = Seconds (op_Warmup o1)\<rparr>,
         Schedule := rs_Schedule out, Latency := rs_Latency out, Outcomes := rs_Outcomes out,
         Through := (rs_Through out)\<lparr>OfferedPerSec := op_Rate o1\<rparr>,
         Invariants := inv\<rparr>)))))))))"

text \<open>From the emptied database to the started app.\<close>

definition prepare_run :: "bench_env \<Rightarrow> options \<Rightarrow> result \<Rightarrow> result ex" where
  "prepare_run w o1 res =
     andthen (perform Migrate (wrap ''goose up'' (be_migrate w))) (\<lambda>_.
     andthen (perform ResetDatabase (wrap ''truncate'' (be_reset w))) (\<lambda>_.
     andthen (perform EnsureProbeTable (wrap ''create probe table'' (be_probe_table w))) (\<lambda>_.
     andthen (perform ReadDBInfo (Inr (be_db_info w))) (\<lambda>info.
     let res1 = res\<lparr>DB := info, Note := (if SynchronousCommit info = ''on'' then Note res @ durability_note else Note res)\<rparr> in
     andthen (case BuildSchedule (op_Arrivals o1) (op_Rate o1) (op_Duration o1) (be_draw w) of
         Inl e \<Rightarrow> fail (BadSchedule e) | Inr sched \<Rightarrow> pure_ex sched) (\<lambda>sched.
     andthen (case PlanFor (op_Shape o1) (int (length sched)) of
         Inl e \<Rightarrow> fail (BadShape e) | Inr pl \<Rightarrow> pure_ex pl) (\<lambda>pl.
     andthen (perform SeedTheProducts (wrap ''seed products'' (be_seed_products w pl))) (\<lambda>ids.
     andthen (perform StartIssuer (wrap ''start issuer'' (be_issuer w))) (\<lambda>url.
     deferred CloseIssuer (
       andthen (case MintBuyers (be_mint w) (nat (op_Buyers o1)) of
           Inl e \<Rightarrow> fail (Failed ''mint'' e) | Inr buyers \<Rightarrow> pure_ex buyers) (\<lambda>buyers.
       andthen (perform SeedTheCustomers (wrap ''seed customers'' (be_seed_customers w buyers))) (\<lambda>_.
       andthen (perform (StartApp (app_environment o1 url)) (wrap ''start app'' (be_start_app w))) (\<lambda>_.
         deferred_once StopApp (measure_run w o1 res1 sched pl ids)))))))))))))"

definition Execute :: "bench_env \<Rightarrow> options \<Rightarrow> result ex" where
  "Execute w o1 =
     (case attribution o1 (be_collect w) of
        Inl e \<Rightarrow> fail e
      | Inr m \<Rightarrow>
          andthen (perform RaiseFileLimit (file_limit o1 (be_file_limit w) m)) (\<lambda>m1.
            case CheckTarget (be_url_path w) (op_DSN o1) (op_AllowUnsafeTarget o1) of
              Some e \<Rightarrow> fail (Target e)
            | None \<Rightarrow>
                (case CheckMemoryBudget (be_meminfo w) (op_MaxInFlight o1) of
                   Some e \<Rightarrow> fail (Memory e)
                 | None \<Rightarrow>
                     andthen (perform OpenPool (wrap ''connect to bench database'' (be_open_pool w))) (\<lambda>_.
                       deferred ClosePool (prepare_run w o1 ((New (op_Tier o1))\<lparr>Meta := m1\<rparr>))))))"

section \<open>The commands\<close>

text \<open>emit: writing a result to a path can fail (creating or writing the file).\<close>

definition cmdRun :: "(result \<Rightarrow> bool) \<Rightarrow> result ex \<Rightarrow> int" where
  "cmdRun emit ex =
     (case snd ex of
        Inl e \<Rightarrow> 1
      | Inr res \<Rightarrow> if \<not> emit (fst (WriteJSON id res)) then 1 else if \<not> Valid res then 1 else 0)"

definition verdict :: "real \<Rightarrow> result \<Rightarrow> string" where
  "verdict rate res =
     (if GeneratorSaturated (Schedule res) > 0 \<or> LagP99Micros (Schedule res) > 1000 then VerdictGeneratorLimited
      else if AcceptedPerSec (Through res) > fl (rate * fl 1.8) then VerdictNotYetSaturated
      else VerdictServerSaturated)"

text \<open>The arms in turn: stop at the first that cannot be run or written, remember a void one.\<close>

fun sweep_arms :: "(options \<Rightarrow> result ex) \<Rightarrow> (string \<Rightarrow> result \<Rightarrow> bool) \<Rightarrow> string \<Rightarrow> options \<Rightarrow> bool \<Rightarrow> string list \<Rightarrow> bool option" where
  "sweep_arms execute emit dir o1 failed [] = Some failed"
| "sweep_arms execute emit dir o1 failed (arm # arms) =
     (case snd (execute (o1\<lparr>op_Arm := arm\<rparr>)) of
        Inl e \<Rightarrow> None
      | Inr res \<Rightarrow>
          if \<not> emit (dir @ ''/'' @ op_SessionID o1 @ ''-'' @ op_Shape o1 @ ''-'' @ arm @ ''.json'') res then None
          else sweep_arms execute emit dir o1 (failed \<or> \<not> Valid res) arms)"

definition cmdSweep :: "(string \<Rightarrow> bool) \<Rightarrow> (options \<Rightarrow> result ex) \<Rightarrow> (string \<Rightarrow> result \<Rightarrow> bool) \<Rightarrow> string \<Rightarrow> options \<Rightarrow> int" where
  "cmdSweep mkdir execute emit dir o1 =
     (if \<not> mkdir dir then 1
      else case sweep_arms execute emit dir o1 False StrategyNames of
        None \<Rightarrow> 1
      | Some failed \<Rightarrow>
          (case snd (execute (o1\<lparr>op_Arm := StrategyCTE, op_Rate := fl (op_Rate o1 * 2)\<rparr>)) of
             Inl e \<Rightarrow> 1
           | Inr res \<Rightarrow>
               let v = verdict (op_Rate o1) res;
                   res' = res\<lparr>Saturation_check := Some \<lparr>Verdict = v, RefRun = op_SessionID o1\<rparr>\<rparr>;
                   failed' = (failed \<or> v \<noteq> VerdictServerSaturated) in
               if \<not> emit (dir @ ''/'' @ op_SessionID o1 @ ''-saturation.json'') res' then 1
               else if failed' then 1 else 0))"

section \<open>Reading a trace\<close>

lemma fst_andthen: "fst (andthen m k) = fst m @ (case snd m of Inl e \<Rightarrow> [] | Inr x \<Rightarrow> fst (k x))"
  by (auto simp: andthen_def split: prod.split sum.split)

lemma snd_andthen: "snd (andthen m k) = (case snd m of Inl e \<Rightarrow> Inl e | Inr x \<Rightarrow> snd (k x))"
  by (auto simp: andthen_def split: prod.split sum.split)

lemma ex_simps [simp]:
  "fst (perform a r) = [a]" "snd (perform a r) = r" "fst (pure_ex x) = []" "snd (pure_ex x) = Inr x"
  "fst (fail e) = []" "snd (fail e) = Inl e"
  "fst (deferred a m) = fst m @ [a]" "snd (deferred a m) = snd m"
  "snd (deferred_once a m) = snd m"
  "fst (deferred_once a m) = (if a \<in> set (fst m) then fst m else fst m @ [a])"
  by (simp_all add: perform_def pure_ex_def fail_def deferred_def deferred_once_def split_beta)

lemmas trace_simps = fst_andthen snd_andthen

text \<open>The measured part: nothing touches the database's contents, the app stops before the check.\<close>

lemma measure_trace:
  "\<exists>a. StopApp \<notin> set a \<and> CheckInvariants \<notin> set a \<and> ResetDatabase \<notin> set a \<and> Migrate \<notin> set a \<and>
     (\<forall>env. StartApp env \<notin> set a) \<and>
     (fst (measure_run w o1 res sched pl ids) = a \<and> (\<exists>e. snd (measure_run w o1 res sched pl ids) = Inl e) \<or>
      fst (measure_run w o1 res sched pl ids) = a @ [StopApp, CheckInvariants])"
  by (rule exI [of _ "takeWhile (\<lambda>x. x \<noteq> StopApp) (fst (measure_run w o1 res sched pl ids))"])
    (auto simp: measure_run_def trace_simps split: sum.splits dest!: set_takeWhileD)

text \<open>So the trace around it has one StopApp, and no check before it.\<close>

definition stopped_once :: "action list \<Rightarrow> bool" where
  "stopped_once t =
     (\<exists>a b. t = a @ StopApp # b \<and> StopApp \<notin> set a \<and> StopApp \<notin> set b \<and> CheckInvariants \<notin> set a)"

lemma stopped_once_around:
  "stopped_once t \<Longrightarrow> StopApp \<notin> set a \<Longrightarrow> CheckInvariants \<notin> set a \<Longrightarrow> StopApp \<notin> set b \<Longrightarrow> stopped_once (a @ t @ b)"
proof -
  assume "stopped_once t" and ab: "StopApp \<notin> set a" "CheckInvariants \<notin> set a" "StopApp \<notin> set b"
  then obtain x y where "t = x @ StopApp # y" "StopApp \<notin> set x" "StopApp \<notin> set y" "CheckInvariants \<notin> set x"
    by (auto simp: stopped_once_def)
  with ab show ?thesis
    unfolding stopped_once_def by (intro exI [of _ "a @ x"] exI [of _ "y @ b"]) simp
qed

lemma measure_stopped: "stopped_once (fst (deferred_once StopApp (measure_run w o1 res sched pl ids)))"
proof -
  obtain a where a: "StopApp \<notin> set a" "CheckInvariants \<notin> set a"
    "fst (measure_run w o1 res sched pl ids) = a \<or> fst (measure_run w o1 res sched pl ids) = a @ [StopApp, CheckInvariants]"
    using measure_trace [of w o1 res sched pl ids] by blast
  have "stopped_once (a @ [StopApp])"
    unfolding stopped_once_def using a(1,2) by (intro exI [of _ a] exI [of _ "[]"]) simp
  moreover have "stopped_once (a @ [StopApp, CheckInvariants])"
    unfolding stopped_once_def using a(1,2) by (intro exI [of _ a] exI [of _ "[CheckInvariants]"]) simp
  ultimately show ?thesis using a by auto
qed

text \<open>
  A trace is settled when the app was never up and never stopped or checked, or was stopped
  exactly once; started is whether the process came up.
\<close>

definition settled :: "bool \<Rightarrow> action list \<Rightarrow> bool" where
  "settled started t =
     (StopApp \<notin> set t \<and> CheckInvariants \<notin> set t \<and> (started \<longrightarrow> (\<forall>env. StartApp env \<notin> set t)) \<or>
      stopped_once t)"

definition benign :: "action \<Rightarrow> bool" where
  "benign a = (a \<noteq> StopApp \<and> a \<noteq> CheckInvariants \<and> (\<forall>env. a \<noteq> StartApp env))"

lemma settled_around: "settled b t \<Longrightarrow> \<forall>a \<in> set (xs @ ys). benign a \<Longrightarrow> settled b (xs @ t @ ys)"
  using stopped_once_around [of t xs ys] by (auto simp: settled_def benign_def)

lemma settled_perform:
  "benign a \<Longrightarrow> (\<And>x. r = Inr x \<Longrightarrow> settled b (fst (k x))) \<Longrightarrow> settled b (fst (andthen (perform a r) k))"
  using settled_around [of b "[]" "[a]" "[]"] settled_around [of b _ "[a]" "[]"]
  by (auto simp: trace_simps settled_def [of b "[]"] split: sum.split)

lemma settled_pure:
  "(\<And>x. settled b (fst (k x))) \<Longrightarrow>
     settled b (fst (andthen (case r of Inl e \<Rightarrow> fail (f e) | Inr x \<Rightarrow> pure_ex x) k))"
  by (auto simp: trace_simps settled_def [of b "[]"] split: sum.split)

lemma settled_deferred: "benign a \<Longrightarrow> settled b (fst m) \<Longrightarrow> settled b (fst (deferred a m))"
  using settled_around [of b "fst m" "[]" "[a]"] by simp

lemma settled_start:
  assumes "\<And>x. stopped_once (fst (k x))"
  shows "settled (r = Inr ()) (fst (andthen (perform (StartApp env) r) k))"
  using stopped_once_around [OF assms, of "[StartApp env]" "[]"]
  by (auto simp: trace_simps settled_def split: sum.split)

lemma wrap_Inr [simp]: "wrap msg r = Inr x \<longleftrightarrow> r = Inr x"
  by (auto simp: wrap_def split: sum.split)

lemma prepare_settled: "settled (be_start_app w = Inr ()) (fst (prepare_run w o1 res))"
proof -
  have start: "settled (be_start_app w = Inr ())
      (fst (andthen (perform (StartApp env) (wrap msg (be_start_app w))) (\<lambda>_. deferred_once StopApp (measure_run w o1 res1 sched pl ids))))"
    for env msg res1 sched pl ids
    using settled_start [of "\<lambda>_. deferred_once StopApp (measure_run w o1 res1 sched pl ids)" "wrap msg (be_start_app w)" env]
      measure_stopped by simp
  show ?thesis
    unfolding prepare_run_def Let_def
    by (intro settled_perform settled_pure settled_deferred start; simp add: benign_def)
qed

lemma Execute_settled: "settled (be_start_app w = Inr ()) (fst (Execute w o1))"
  unfolding Execute_def
  by (auto split: sum.split option.split simp: benign_def settled_def [of _ "[]"]
      intro!: settled_perform settled_deferred prepare_settled)

section \<open>The guard, and what a returned result went through\<close>

lemma Execute_guarded:
  assumes "a \<in> set (fst (Execute w o1))" "a \<noteq> RaiseFileLimit"
  shows "CheckTarget (be_url_path w) (op_DSN o1) (op_AllowUnsafeTarget o1) = None \<and>
    CheckMemoryBudget (be_meminfo w) (op_MaxInFlight o1) = None"
  using assms by (auto simp: Execute_def trace_simps split: sum.splits option.splits)

lemma Execute_attributed:
  "snd (Execute w o1) = Inr res \<Longrightarrow> \<exists>m. attribution o1 (be_collect w) = Inr m"
  by (auto simp: Execute_def trace_simps split: sum.splits option.splits)

text \<open>A returned result was judged, and started without a reason against it.\<close>

lemma measure_judged:
  "snd (measure_run w o1 res sched pl ids) = Inr r \<Longrightarrow>
     \<exists>r0. r = applyValidity (be_fixed w) r0 \<and> Valid r0 = Valid res \<and> InvalidReasons r0 = InvalidReasons res \<and>
       AbsoluteThroughputValid r0 = AbsoluteThroughputValid res \<and> Meta r0 = Meta res"
  by (auto simp: measure_run_def trace_simps split: sum.splits)

lemma prepare_judged:
  "snd (prepare_run w o1 res) = Inr r \<Longrightarrow>
     \<exists>r0. r = applyValidity (be_fixed w) r0 \<and> Valid r0 = Valid res \<and> InvalidReasons r0 = InvalidReasons res \<and>
       AbsoluteThroughputValid r0 = AbsoluteThroughputValid res \<and> Meta r0 = Meta res"
  by (auto simp: prepare_run_def Let_def trace_simps split: sum.splits dest!: measure_judged)

lemma Execute_judged:
  assumes "snd (Execute w o1) = Inr r"
  shows "\<exists>r0. r = applyValidity (be_fixed w) r0 \<and> Valid r0 \<and> InvalidReasons r0 = [] \<and>
    AbsoluteThroughputValid r0 = (op_Tier o1 = TierDeployed)"
proof -
  obtain m where "snd (prepare_run w o1 ((New (op_Tier o1))\<lparr>Meta := m\<rparr>)) = Inr r"
    using assms by (auto simp: Execute_def trace_simps split: sum.splits option.splits)
  from prepare_judged [OF this] show ?thesis by (auto simp: New_absolute)
qed

end
