(* ===== verification/Config.thy ===== *)
theory Config
  imports Ops Float64 Reserve
begin

text \<open>
  Where the process gets its settings: durations in the environment (GetDuration of
  internal/env/env.go, on time.ParseDuration), the configuration of cmd/api.go as cmd/main.go
  reads it, and the connection pool of internal/adapters/postgresql/pool.go. Durations are
  int64 nanoseconds.
\<close>

section \<open>time.ParseDuration\<close>

text \<open>The leading digits of a string; None where they exceed 2^63.\<close>

fun leading_int :: "nat \<Rightarrow> string \<Rightarrow> (nat \<times> string) option" where
  "leading_int x [] = Some (x, [])"
| "leading_int x (c # cs) =
     (if \<not> is_digit c then Some (x, c # cs)
      else if x > 2 ^ 63 div 10 then None
      else let y = x * 10 + digit_value c in if y > 2 ^ 63 then None else leading_int y cs)"

text \<open>The digits after a point: a value, its scale and the rest; digits that overflow are dropped.\<close>

fun leading_fraction :: "nat \<Rightarrow> real \<Rightarrow> bool \<Rightarrow> string \<Rightarrow> nat \<times> real \<times> string" where
  "leading_fraction x scale ovf [] = (x, scale, [])"
| "leading_fraction x scale ovf (c # cs) =
     (if \<not> is_digit c then (x, scale, c # cs)
      else if ovf \<or> x > (2 ^ 63 - 1) div 10 then leading_fraction x scale True cs
      else let y = x * 10 + digit_value c in
        if y > 2 ^ 63 then leading_fraction x scale True cs
        else leading_fraction y (fl (scale * 10)) False cs)"

text \<open>The units; the two spellings of micro are the bytes of their UTF-8.\<close>

definition unit_ns :: "string \<Rightarrow> nat option" where
  "unit_ns u =
     map_of [(''ns'', 1), (''us'', 1000),
       ([char_of (194 :: nat), char_of (181 :: nat)] @ ''s'', 1000),
       ([char_of (206 :: nat), char_of (188 :: nat)] @ ''s'', 1000),
       (''ms'', 1000000), (''s'', 1000000000), (''m'', 60000000000), (''h'', 3600000000000)] u"

definition unit_char :: "char \<Rightarrow> bool" where
  "unit_char c = (c \<noteq> CHR ''.'' \<and> \<not> is_digit c)"

text \<open>One number with its unit: its nanoseconds and the rest.\<close>

definition duration_term :: "string \<Rightarrow> (nat \<times> string) option" where
  "duration_term s =
     (if s = [] \<or> \<not> (hd s = CHR ''.'' \<or> is_digit (hd s)) then None
      else case leading_int 0 s of
          None \<Rightarrow> None
        | Some (v, s1) \<Rightarrow>
            let pre = (length s1 \<noteq> length s);
                point = (s1 \<noteq> [] \<and> hd s1 = CHR ''.'');
                (f, scale, s2) = (if point then leading_fraction 0 1 False (tl s1) else (0, 1, s1));
                post = (point \<and> length s2 \<noteq> length (tl s1));
                u = takeWhile unit_char s2; s3 = dropWhile unit_char s2 in
            if \<not> pre \<and> \<not> post then None
            else if u = [] then None
            else case unit_ns u of
                None \<Rightarrow> None
              | Some unit \<Rightarrow>
                  if v > 2 ^ 63 div unit then None
                  else
                    let v1 = v * unit;
                        v2 = (if f > 0 then v1 + nat (trunc_int (fl (fl (real f) * fl (real unit / scale)))) else v1) in
                    if f > 0 \<and> v2 > 2 ^ 63 then None else Some (v2, s3))"

lemma leading_int_suffix: "leading_int x s = Some (v, s') \<Longrightarrow> length s' \<le> length s"
  by (induction x s rule: leading_int.induct) (auto simp: Let_def split: if_splits)

lemma leading_fraction_suffix: "leading_fraction x sc ovf s = (f, sc', s') \<Longrightarrow> length s' \<le> length s"
  by (induction x sc ovf s rule: leading_fraction.induct) (auto simp: Let_def split: if_splits)

lemma duration_term_shorter: "duration_term s = Some (v, s') \<Longrightarrow> length s' < length s"
proof -
  assume t: "duration_term s = Some (v, s')"
  then obtain v1 s1 where i: "leading_int 0 s = Some (v1, s1)"
    by (auto simp: duration_term_def split: if_splits option.splits)
  define s2 where "s2 = (if s1 \<noteq> [] \<and> hd s1 = CHR ''.'' then snd (snd (leading_fraction 0 1 False (tl s1))) else s1)"
  have "length s2 \<le> length s1"
    using leading_fraction_suffix [of 0 1 False "tl s1"]
    by (cases "leading_fraction 0 1 False (tl s1)") (auto simp: s2_def)
  moreover have "s' = dropWhile unit_char s2" "takeWhile unit_char s2 \<noteq> []"
    using t i by (auto simp: duration_term_def s2_def Let_def split_beta split: if_splits option.splits)
  moreover have "length (takeWhile unit_char s2) + length (dropWhile unit_char s2) = length s2"
    by (metis length_append takeWhile_dropWhile_id)
  ultimately show ?thesis using leading_int_suffix [OF i] by (metis add_less_cancel_right add.commute
      dual_order.trans le_add1 length_greater_0_conv less_add_same_cancel2 less_le_trans)
qed

function duration_sum :: "nat \<Rightarrow> string \<Rightarrow> nat option" where
  "duration_sum d s =
     (if s = [] then Some d
      else case duration_term s of
          None \<Rightarrow> None
        | Some (v, s') \<Rightarrow>
            let d' = (d + v) mod 2 ^ 64 in if d' > 2 ^ 63 then None else duration_sum d' s')"
  by pat_completeness auto
termination
  by (relation "measure (\<lambda>(d, s). length s)") (auto dest: duration_term_shorter)

declare duration_sum.simps [simp del]

definition ParseDuration :: "string \<Rightarrow> int option" where
  "ParseDuration s =
     (let neg = (s \<noteq> [] \<and> hd s = CHR ''-'');
          s1 = (if s \<noteq> [] \<and> (hd s = CHR ''-'' \<or> hd s = CHR ''+'') then tl s else s) in
      if s1 = ''0'' then Some 0
      else if s1 = [] then None
      else case duration_sum 0 s1 of
          None \<Rightarrow> None
        | Some d \<Rightarrow>
            if neg then Some (- int d)
            else if d > 2 ^ 63 - 1 then None
            else Some (int d))"

lemma duration_sum_bound: "duration_sum d s = Some v \<Longrightarrow> d \<le> 2 ^ 63 \<Longrightarrow> v \<le> 2 ^ 63"
proof (induction d s rule: duration_sum.induct)
  case (1 d s)
  from 1(2) [unfolded duration_sum.simps [of d s]] 1(1,3) show ?case
    by (auto simp: Let_def split: if_splits option.splits)
qed

text \<open>A parsed duration is an int64.\<close>

lemma ParseDuration_range: "ParseDuration s = Some d \<Longrightarrow> - (2 ^ 63) \<le> d \<and> d < 2 ^ 63"
proof -
  assume p: "ParseDuration s = Some d"
  have le: "int v \<le> 2 ^ 63" if "duration_sum 0 x = Some v" for x v
    using of_nat_mono [OF duration_sum_bound [OF that], where 'a = int] by simp
  have lt: "int v < 2 ^ 63" if "v \<le> 9223372036854775807" for v :: nat
    using that by simp
  from p consider "d = 0" | x v where "duration_sum 0 x = Some v" "d = - int v"
    | v where "v \<le> 9223372036854775807" "d = int v"
    by (auto simp: ParseDuration_def Let_def not_less split: if_splits option.splits)
  then show ?thesis
  proof cases
    case 2
    have "- N \<le> d \<and> d < N" if "0 < N" "int v \<le> N" for N using that 2(2) by linarith
    from this [OF _ le [OF 2(1)]] show ?thesis by simp
  next
    case 3
    have "- (2 ^ 63 :: int) \<le> 0" "0 \<le> int v" by simp_all
    with lt [OF 3(1)] 3(2) show ?thesis by (metis order_trans)
  qed simp
qed

section \<open>The knobs\<close>

definition GetDuration :: "environ \<Rightarrow> string \<Rightarrow> int \<Rightarrow> int" where
  "GetDuration ev key fallback =
     (if ev key = [] then fallback
      else case ParseDuration (ev key) of None \<Rightarrow> fallback | Some d \<Rightarrow> d)"

text \<open>int32(n) of a knob read as an int.\<close>

definition GetInt32 :: "environ \<Rightarrow> string \<Rightarrow> int \<Rightarrow> int" where
  "GetInt32 ev key fallback = int32 (GetInt ev key fallback)"

definition Minute :: int where "Minute = 60 * 1000000000"

section \<open>The configuration\<close>

record db_config =
  db_DSN :: string
  db_MaxConns :: int
  db_MinConns :: int
  db_MinIdleConns :: int
  db_MaxConnLifetime :: int
  db_MaxConnIdleTime :: int

record rate_limit_config =
  rc_perIP :: real
  rc_perSubject :: real
  rc_burst :: int
  rc_idle :: int

record cognito_config =
  cc_issuerURL :: string
  cc_clientID :: string
  cc_vendorGroup :: string

record stripe_config =
  sc_secretKey :: string
  sc_webhookSecret :: string
  sc_currency :: string

record orders_config =
  oc_reservationTTL :: int
  oc_sweepInterval :: int
  oc_sweepBatchSize :: int
  oc_reserveStrategy :: string
  oc_customerCache :: bool
  oc_idempotency :: bool

record payments_config =
  pc_pollInterval :: int
  pc_maxAttempts :: int
  pc_eventPollInterval :: int
  pc_eventPollOverlap :: int
  pc_eventInitialLookback :: int

record config =
  cf_addr :: string
  cf_shutdownTimeout :: int
  cf_db :: db_config
  cf_cognito :: cognito_config
  cf_stripe :: stripe_config
  cf_orders :: orders_config
  cf_payments :: payments_config
  cf_rateLimit :: rate_limit_config
  cf_corsAllowedOrigins :: "string list"
  cf_webDistDir :: string
  cf_logRequests :: bool
  cf_pprofAddr :: string

definition orders_from :: "environ \<Rightarrow> orders_config" where
  "orders_from ev =
     \<lparr>oc_reservationTTL = GetDuration ev ''RESERVATION_TTL'' (15 * Minute),
      oc_sweepInterval = GetDuration ev ''RESERVATION_SWEEP_INTERVAL'' Minute,
      oc_sweepBatchSize = GetInt32 ev ''RESERVATION_SWEEP_BATCH'' 100,
      oc_reserveStrategy = GetString ev ''RESERVE_STRATEGY'' StrategyBaseline,
      oc_customerCache = GetBool ev ''CUSTOMER_CACHE'' False,
      oc_idempotency = GetBool ev ''ORDER_IDEMPOTENCY'' True\<rparr>"

definition payments_from :: "environ \<Rightarrow> payments_config" where
  "payments_from ev =
     \<lparr>pc_pollInterval = GetDuration ev ''STRIPE_POLL_INTERVAL'' 5000000000,
      pc_maxAttempts = GetInt32 ev ''STRIPE_MAX_ATTEMPTS'' 5,
      pc_eventPollInterval = GetDuration ev ''STRIPE_EVENT_POLL_INTERVAL'' 10000000000,
      pc_eventPollOverlap = GetDuration ev ''STRIPE_EVENT_POLL_OVERLAP'' (2 * Minute),
      pc_eventInitialLookback = GetDuration ev ''STRIPE_EVENT_INITIAL_LOOKBACK'' (60 * Minute)\<rparr>"

definition rate_limit_from :: "environ \<Rightarrow> rate_limit_config" where
  "rate_limit_from ev =
     \<lparr>rc_perIP = fl (of_int (GetInt ev ''RATE_LIMIT_PER_IP_RPS'' 0)),
      rc_perSubject = fl (of_int (GetInt ev ''RATE_LIMIT_PER_SUBJECT_RPS'' 0)),
      rc_burst = GetInt ev ''RATE_LIMIT_BURST'' 20,
      rc_idle = GetDuration ev ''RATE_LIMIT_IDLE'' (10 * Minute)\<rparr>"

definition bind_err :: "error + 'a \<Rightarrow> ('a \<Rightarrow> error + 'b) \<Rightarrow> error + 'b" where
  "bind_err r k = (case r of Inl e \<Rightarrow> Inl e | Inr x \<Rightarrow> k x)"

text \<open>The literal of main, in the order its fields are evaluated; a panic is Inl.\<close>

definition load_config :: "environ \<Rightarrow> error + config" where
  "load_config ev =
     bind_err (MustGetString ev ''GOOSE_DBSTRING'') (\<lambda>dsn.
     bind_err (MustGetString ev ''COGNITO_ISSUER_URL'') (\<lambda>issuer.
     bind_err (MustGetString ev ''COGNITO_CLIENT_ID'') (\<lambda>client.
     bind_err (MustGetString ev ''STRIPE_SECRET_KEY'') (\<lambda>secret.
     bind_err (MustGetString ev ''STRIPE_WEBHOOK_SECRET'') (\<lambda>webhook.
       Inr \<lparr>cf_addr = GetString ev ''ADDR'' '':8080'',
         cf_shutdownTimeout = GetDuration ev ''SHUTDOWN_TIMEOUT'' 15000000000,
         cf_db = \<lparr>db_DSN = dsn, db_MaxConns = GetInt32 ev ''DB_MAX_CONNS'' 25,
           db_MinConns = GetInt32 ev ''DB_MIN_CONNS'' 5, db_MinIdleConns = GetInt32 ev ''DB_MIN_IDLE_CONNS'' 5,
           db_MaxConnLifetime = GetDuration ev ''DB_MAX_CONN_LIFETIME'' (60 * Minute),
           db_MaxConnIdleTime = GetDuration ev ''DB_MAX_CONN_IDLE_TIME'' (30 * Minute)\<rparr>,
         cf_cognito = \<lparr>cc_issuerURL = issuer, cc_clientID = client,
           cc_vendorGroup = GetString ev ''COGNITO_VENDOR_GROUP'' ''vendors''\<rparr>,
         cf_stripe = \<lparr>sc_secretKey = secret, sc_webhookSecret = webhook,
           sc_currency = GetString ev ''STRIPE_CURRENCY'' ''usd''\<rparr>,
         cf_orders = orders_from ev, cf_payments = payments_from ev, cf_rateLimit = rate_limit_from ev,
         cf_corsAllowedOrigins = GetStringSlice ev ''CORS_ALLOWED_ORIGINS'',
         cf_webDistDir = GetString ev ''WEB_DIST_DIR'' ''./web/dist'',
         cf_logRequests = GetBool ev ''LOG_REQUESTS'' True,
         cf_pprofAddr = GetString ev ''PPROF_ADDR'' []\<rparr>)))))"

definition required_settings :: "string list" where
  "required_settings = [''GOOSE_DBSTRING'', ''COGNITO_ISSUER_URL'', ''COGNITO_CLIENT_ID'', ''STRIPE_SECRET_KEY'',
     ''STRIPE_WEBHOOK_SECRET'']"

lemma load_config_ok: "(\<exists>c. load_config ev = Inr c) \<longleftrightarrow> list_all (\<lambda>k. ev k \<noteq> []) required_settings"
  by (auto simp: load_config_def bind_err_def MustGetString_def required_settings_def)

lemma load_config_parts:
  "load_config ev = Inr c \<Longrightarrow>
     cf_orders c = orders_from ev \<and> cf_payments c = payments_from ev \<and> cf_rateLimit c = rate_limit_from ev"
  by (auto simp: load_config_def bind_err_def MustGetString_def split: if_splits)

text \<open>A knob that is not set, or does not parse, has its fallback.\<close>

lemma knob_defaults:
  "ev key = [] \<Longrightarrow> GetDuration ev key d = d" "ev key = [] \<Longrightarrow> GetInt ev key n = n"
  "ParseDuration (ev key) = None \<Longrightarrow> GetDuration ev key d = d"
  "parse_int64 (ev key) = None \<Longrightarrow> GetInt ev key n = n"
  by (simp_all add: GetDuration_def GetInt_def)

lemma GetInt32_range: "- (2 ^ 31) \<le> GetInt32 ev key n \<and> GetInt32 ev key n < 2 ^ 31"
  unfolding GetInt32_def by (rule int32_range)

section \<open>The connection pool\<close>

text \<open>What pgxpool.ParseConfig makes of a DSN; NewPool writes over it what is configured.\<close>

record pool_settings =
  px_MaxConns :: int
  px_MinConns :: int
  px_MinIdleConns :: int
  px_MaxConnLifetime :: int
  px_MaxConnIdleTime :: int

definition NewPool ::
  "(string \<Rightarrow> error + pool_settings) \<Rightarrow> (pool_settings \<Rightarrow> error + 'p) \<Rightarrow> ('p \<Rightarrow> error option) \<Rightarrow> db_config \<Rightarrow> error + 'p" where
  "NewPool parse connect ping c =
     bind_err (parse (db_DSN c)) (\<lambda>p0.
       let p1 = (if db_MaxConns c > 0 then p0\<lparr>px_MaxConns := db_MaxConns c\<rparr> else p0);
           p2 = (if db_MinConns c > 0 then p1\<lparr>px_MinConns := db_MinConns c\<rparr> else p1);
           p3 = (if db_MinIdleConns c > 0 then p2\<lparr>px_MinIdleConns := db_MinIdleConns c\<rparr> else p2);
           p4 = (if db_MaxConnLifetime c > 0 then p3\<lparr>px_MaxConnLifetime := db_MaxConnLifetime c\<rparr> else p3);
           p5 = (if db_MaxConnIdleTime c > 0 then p4\<lparr>px_MaxConnIdleTime := db_MaxConnIdleTime c\<rparr> else p4)
       in bind_err (connect p5) (\<lambda>pool. case ping pool of None \<Rightarrow> Inr pool | Some e \<Rightarrow> Inl e))"

lemma NewPool_settings:
  assumes "parse (db_DSN c) = Inr p0" "NewPool parse connect ping c = Inr pool"
  shows "\<exists>p. connect p = Inr pool \<and> ping pool = None \<and>
    px_MaxConns p = (if db_MaxConns c > 0 then db_MaxConns c else px_MaxConns p0) \<and>
    px_MinConns p = (if db_MinConns c > 0 then db_MinConns c else px_MinConns p0)"
  using assms by (auto simp: NewPool_def bind_err_def Let_def split: sum.splits option.splits if_splits)

end
