(* ===== verification/Boot.thy ===== *)
theory Boot
  imports Api Config
begin

text \<open>
  From the environment to the running process: what mount makes of the configuration that
  main has read (cmd/main.go, cmd/api.go), and the life of the process (run in cmd/api.go,
  runPprof in cmd/pprof.go), an errgroup of goroutines that a signal or a failure brings down.
\<close>

section \<open>From the configuration to the app\<close>

text \<open>
  The settings mount hands to each part; everything else in an app_config stands for an SDK or
  a library and is taken from sdk. po is the poller mount would build.
\<close>

definition configure :: "config \<Rightarrow> poller \<Rightarrow> app_config \<Rightarrow> app_config" where
  "configure c po sdk =
     sdk\<lparr>ac_reserveStrategy := oc_reserveStrategy (cf_orders c),
       ac_customerCache := oc_customerCache (cf_orders c),
       ac_idempotency := oc_idempotency (cf_orders c),
       ac_reservationTTL := oc_reservationTTL (cf_orders c),
       ac_sweepBatchSize := oc_sweepBatchSize (cf_orders c),
       ac_maxAttempts := pc_maxAttempts (cf_payments c),
       ac_vendorGroup := cc_vendorGroup (cf_cognito c),
       ac_poller :=
         (if pc_eventPollInterval (cf_payments c) > 0
          then Some (po\<lparr>po_overlap := pc_eventPollOverlap (cf_payments c) div 1000,
                  po_initialLookback := pc_eventInitialLookback (cf_payments c) div 1000\<rparr>)
          else None)\<rparr>"

definition limits_of :: "(real \<Rightarrow> int \<Rightarrow> 'b) \<Rightarrow> ('b \<Rightarrow> int \<Rightarrow> bool \<times> 'b) \<Rightarrow> config \<Rightarrow> 'b limits" where
  "limits_of bucket_for allow c =
     (let r = cf_rateLimit c in
      \<lparr>by_address = new_limiter bucket_for allow (rc_perIP r) (rc_burst r) (rc_idle r),
       by_subject = new_limiter bucket_for allow (rc_perSubject r) (rc_burst r) (rc_idle r)\<rparr>)"

text \<open>main up to the listening server: the settings, the pool, the token verifier, the routes.\<close>

definition boot ::
  "environ \<Rightarrow> (db_config \<Rightarrow> error + unit) \<Rightarrow> (cognito_config \<Rightarrow> error + unit) \<Rightarrow> poller \<Rightarrow> app_config \<Rightarrow>
     error + (config \<times> app_config \<times> orders_svc)" where
  "boot ev open_pool new_verifier po sdk =
     bind_err (load_config ev) (\<lambda>c.
     bind_err (open_pool (cf_db c)) (\<lambda>_.
     bind_err (new_verifier (cf_cognito c)) (\<lambda>_.
     bind_err (service_of (configure c po sdk)) (\<lambda>s. Inr (c, configure c po sdk, s)))))"

text \<open>The process boots on five settings and a known strategy, given its two servers.\<close>

lemma strategy_known: "(\<exists>a. StrategyByName n = Inr a) \<longleftrightarrow> n = [] \<or> n \<in> set StrategyNames"
  by (auto simp: StrategyByName_def StrategyNames_def)

lemma service_of_iff:
  "(\<exists>s. service_of a = Inr s) \<longleftrightarrow> ac_reserveStrategy a = [] \<or> ac_reserveStrategy a \<in> set StrategyNames"
  using strategy_known [of "ac_reserveStrategy a"]
  by (auto simp: service_of_def mount_reserve_def Let_def split: sum.splits)

lemma boots_iff:
  "(\<exists>x. boot ev open_pool new_verifier po sdk = Inr x) \<longleftrightarrow>
     (\<exists>c. load_config ev = Inr c \<and> open_pool (cf_db c) = Inr () \<and> new_verifier (cf_cognito c) = Inr () \<and>
        (ev ''RESERVE_STRATEGY'' = [] \<or> ev ''RESERVE_STRATEGY'' \<in> set StrategyNames))"
proof (cases "load_config ev")
  case (Inr c)
  have "oc_reserveStrategy (cf_orders c) = (if ev ''RESERVE_STRATEGY'' = [] then StrategyBaseline else ev ''RESERVE_STRATEGY'')"
    using load_config_parts [OF Inr] by (simp add: orders_from_def GetString_def)
  then have known: "(\<exists>s. service_of (configure c po sdk) = Inr s) \<longleftrightarrow>
      ev ''RESERVE_STRATEGY'' = [] \<or> ev ''RESERVE_STRATEGY'' \<in> set StrategyNames"
    unfolding service_of_iff by (simp add: configure_def StrategyNames_def StrategyBaseline_def)
  have "(\<exists>x. boot ev open_pool new_verifier po sdk = Inr x) \<longleftrightarrow>
      open_pool (cf_db c) = Inr () \<and> new_verifier (cf_cognito c) = Inr () \<and> (\<exists>s. service_of (configure c po sdk) = Inr s)"
    by (cases "open_pool (cf_db c)"; cases "new_verifier (cf_cognito c)"; cases "service_of (configure c po sdk)")
      (simp_all add: boot_def bind_err_def Inr)
  with known Inr show ?thesis by simp
qed (simp add: boot_def bind_err_def)

section \<open>The life of the process\<close>

text \<open>
  The goroutines of the group: the profiler if there is one, the background jobs, the HTTP
  server and the one that shuts it down. A goroutine that returns an error cancels the
  group's context, and the first error is the group's; so does a signal, without an error.
\<close>

datatype role = PprofServer | Job string | HttpServer | Stopper

datatype gstatus = Running | Returned "error option"

record process =
  ps_group :: "(role \<times> gstatus) list"
  ps_signalled :: bool
  ps_cancelled :: bool
  ps_shutdown :: bool
  ps_err :: "error option"

definition start_process :: "string \<Rightarrow> string list \<Rightarrow> process" where
  "start_process pprofAddr jobs =
     \<lparr>ps_group = (case newPprofServer pprofAddr of None \<Rightarrow> [] | Some a \<Rightarrow> [(PprofServer, Running)]) @
        map (\<lambda>j. (Job j, Running)) jobs @ [(HttpServer, Running), (Stopper, Running)],
      ps_signalled = False, ps_cancelled = False, ps_shutdown = False, ps_err = None\<rparr>"

definition returns :: "nat \<Rightarrow> error option \<Rightarrow> process \<Rightarrow> process" where
  "returns i r s =
     (let s1 = s\<lparr>ps_group := (ps_group s)[i := (fst (ps_group s ! i), Returned r)]\<rparr> in
      if r \<noteq> None \<and> ps_err s = None then s1\<lparr>ps_err := r, ps_cancelled := True\<rparr> else s1)"

text \<open>
  One event of the process's life. A job returns (without an error) only once the context is
  cancelled; runPprof swallows its errors; ListenAndServe returns ErrServerClosed, which is no
  failure, once Shutdown has been called, and may fail before; Shutdown is called when the
  context is cancelled and returns when the requests have drained or its deadline has passed.
\<close>

inductive life :: "process \<Rightarrow> process \<Rightarrow> bool" where
  signal: "life s (s\<lparr>ps_signalled := True, ps_cancelled := True\<rparr>)"
| pprof: "i < length (ps_group s) \<Longrightarrow> ps_group s ! i = (PprofServer, Running) \<Longrightarrow> life s (returns i None s)"
| job: "i < length (ps_group s) \<Longrightarrow> ps_group s ! i = (Job n, Running) \<Longrightarrow> ps_cancelled s \<Longrightarrow> life s (returns i None s)"
| server_fails: "i < length (ps_group s) \<Longrightarrow> ps_group s ! i = (HttpServer, Running) \<Longrightarrow> life s (returns i (Some e) s)"
| server_closed: "i < length (ps_group s) \<Longrightarrow> ps_group s ! i = (HttpServer, Running) \<Longrightarrow> ps_shutdown s \<Longrightarrow>
    life s (returns i None s)"
| shutdown: "ps_cancelled s \<Longrightarrow> (Stopper, Running) \<in> set (ps_group s) \<Longrightarrow> life s (s\<lparr>ps_shutdown := True\<rparr>)"
| drained: "i < length (ps_group s) \<Longrightarrow> ps_group s ! i = (Stopper, Running) \<Longrightarrow> ps_shutdown s \<Longrightarrow> life s (returns i r s)"

inductive_cases lifeE: "life s s'"

text \<open>g.Wait: the group's error, once every goroutine has returned.\<close>

definition exited :: "process \<Rightarrow> error option option" where
  "exited s = (if list_all (\<lambda>(k, st). st \<noteq> Running) (ps_group s) then Some (ps_err s) else None)"

text \<open>The invariant, for a group of the given roles.\<close>

definition allowed :: "process \<Rightarrow> role \<times> gstatus \<Rightarrow> bool" where
  "allowed s g =
     (snd g \<noteq> Running \<longrightarrow> (case fst g of Stopper \<Rightarrow> ps_shutdown s | Job n \<Rightarrow> ps_cancelled s | _ \<Rightarrow> True))"

definition process_ok :: "role list \<Rightarrow> process \<Rightarrow> bool" where
  "process_ok roles s =
     (map fst (ps_group s) = roles \<and>
      (ps_cancelled s \<longleftrightarrow> ps_signalled s \<or> ps_err s \<noteq> None) \<and>
      (ps_shutdown s \<longrightarrow> ps_cancelled s) \<and>
      list_all (allowed s) (ps_group s))"

definition roles_of :: "string \<Rightarrow> string list \<Rightarrow> role list" where
  "roles_of addr jobs = map fst (ps_group (start_process addr jobs))"

lemma start_ok: "process_ok (roles_of addr jobs) (start_process addr jobs)"
  by (auto simp: process_ok_def roles_of_def start_process_def allowed_def list_all_iff split: option.split)

lemma map_update_same: "(map f xs)[i := f (xs ! i)] = map f xs"
  by (metis list_update_id map_update)

lemma returns_simps [simp]:
  "map fst (ps_group (returns i r s)) = map fst (ps_group s)"
  "ps_shutdown (returns i r s) = ps_shutdown s" "ps_signalled (returns i r s) = ps_signalled s"
  "ps_cancelled (returns i r s) = (ps_cancelled s \<or> r \<noteq> None \<and> ps_err s = None)"
  "ps_err (returns i r s) = (if ps_err s = None then r else ps_err s)"
  "length (ps_group (returns i r s)) = length (ps_group s)"
  by (auto simp: returns_def Let_def map_update map_update_same)

lemma returns_ok:
  assumes "process_ok roles s" "i < length (ps_group s)"
    and "case fst (ps_group s ! i) of Stopper \<Rightarrow> ps_shutdown s | Job n \<Rightarrow> ps_cancelled s | _ \<Rightarrow> True"
  shows "process_ok roles (returns i r s)"
proof -
  have mono: "allowed s g \<Longrightarrow> allowed (returns i r s) g" for g
    by (auto simp: allowed_def split: role.splits)
  have "list_all (allowed (returns i r s)) (ps_group s)"
    using assms(1) mono by (auto simp: process_ok_def list_all_iff)
  moreover have "allowed (returns i r s) (fst (ps_group s ! i), Returned r)"
    using assms(3) by (auto simp: allowed_def split: role.splits)
  moreover have "ps_group (returns i r s) = (ps_group s)[i := (fst (ps_group s ! i), Returned r)]"
    by (simp add: returns_def Let_def)
  ultimately have "list_all (allowed (returns i r s)) (ps_group (returns i r s))"
    by (auto simp: list_all_iff dest!: set_update_subset_insert [THEN subsetD])
  with assms(1) show ?thesis by (auto simp: process_ok_def)
qed

lemma life_ok: "life s s' \<Longrightarrow> process_ok roles s \<Longrightarrow> process_ok roles s'"
proof (induction rule: life.induct)
  case (signal s)
  then show ?case by (auto simp: process_ok_def list_all_iff allowed_def split: role.splits)
next
  case (shutdown s)
  then show ?case by (auto simp: process_ok_def list_all_iff allowed_def split: role.splits)
qed (auto intro: returns_ok)

lemma lives_ok: "life\<^sup>*\<^sup>* s s' \<Longrightarrow> process_ok roles s \<Longrightarrow> process_ok roles s'"
  by (induction rule: rtranclp_induct) (auto intro: life_ok)

text \<open>A process that has exited shut its server down, and was told to, or failed.\<close>

lemma exited_after:
  assumes "process_ok roles s" "Stopper \<in> set roles" "exited s = Some r"
  shows "ps_shutdown s \<and> (r = None \<longrightarrow> ps_signalled s) \<and> r = ps_err s"
proof -
  from assms(1,2) have "Stopper \<in> set (map fst (ps_group s))" by (simp add: process_ok_def)
  then obtain st where st: "(Stopper, st) \<in> set (ps_group s)" by auto
  with assms(3) have "st \<noteq> Running" by (auto simp: exited_def list_all_iff split: if_splits)
  with st assms(1) have "ps_shutdown s" by (auto simp: process_ok_def list_all_iff allowed_def)
  moreover from assms(3) have "r = ps_err s" by (auto simp: exited_def split: if_splits)
  ultimately show ?thesis using assms(1) by (auto simp: process_ok_def)
qed

text \<open>And it can always exit once its context is cancelled: one goroutine after another returns.\<close>

definition running :: "process \<Rightarrow> nat" where
  "running s = length (filter (\<lambda>g. snd g = Running) (ps_group s))"

lemma running_returns:
  assumes "i < length (ps_group s)" "snd (ps_group s ! i) = Running"
  shows "running (returns i None s) < running s"
proof -
  have "\<exists>a x b. ps_group s = a @ x # b \<and> length a = i"
    by (intro exI conjI, rule id_take_nth_drop [OF assms(1)]) (use assms(1) in simp)
  then obtain a x b where "ps_group s = a @ x # b" "length a = i" by blast
  with assms(2) show ?thesis by (auto simp: running_def returns_def Let_def)
qed

lemma drains:
  assumes "ps_cancelled s" "ps_shutdown s"
  shows "\<exists>s'. life\<^sup>*\<^sup>* s s' \<and> exited s' \<noteq> None"
  using assms
proof (induction "running s" arbitrary: s rule: less_induct)
  case less
  show ?case
  proof (cases "exited s = None")
    case True
    then obtain k where "(k, Running) \<in> set (ps_group s)"
      by (auto simp: exited_def list_all_iff split: if_splits)
    then obtain i where i: "i < length (ps_group s)" "ps_group s ! i = (k, Running)"
      by (auto simp: in_set_conv_nth)
    then have step: "life s (returns i None s)"
      using less.prems by (cases k) (auto intro: life.intros)
    have "running (returns i None s) < running s" using i by (intro running_returns) simp_all
    then obtain s' where "life\<^sup>*\<^sup>* (returns i None s) s'" "exited s' \<noteq> None"
      using less.hyps [of "returns i None s"] less.prems by auto
    with step show ?thesis by (meson converse_rtranclp_into_rtranclp)
  qed auto
qed

lemma can_exit:
  assumes "process_ok roles s" "Stopper \<in> set roles" "ps_cancelled s"
  shows "\<exists>s'. life\<^sup>*\<^sup>* s s' \<and> exited s' \<noteq> None"
proof (cases "ps_shutdown s")
  case True
  with drains assms(3) show ?thesis by blast
next
  case False
  from assms(1,2) have "Stopper \<in> set (map fst (ps_group s))" by (simp add: process_ok_def)
  then obtain st where st: "(Stopper, st) \<in> set (ps_group s)" by auto
  with False assms(1) have "(Stopper, Running) \<in> set (ps_group s)"
    by (auto simp: process_ok_def list_all_iff allowed_def)
  then have "life s (s\<lparr>ps_shutdown := True\<rparr>)" using assms(3) by (intro life.shutdown)
  moreover obtain s' where "life\<^sup>*\<^sup>* (s\<lparr>ps_shutdown := True\<rparr>) s'" "exited s' \<noteq> None"
    using drains [of "s\<lparr>ps_shutdown := True\<rparr>"] assms(3) by auto
  ultimately show ?thesis by (meson converse_rtranclp_into_rtranclp)
qed

lemma stopper_role: "Stopper \<in> set (roles_of addr jobs)"
  by (simp add: roles_of_def start_process_def split: option.split)

end
