(* ===== verification/BenchHost.thy ===== *)
theory BenchHost
  imports BenchExec Boot
begin

text \<open>
  What a result says of the machine and of the app it measured: bench/internal/report/meta.go and
  os.go, RaiseFileLimit of bench/internal/loadgen/client.go, and the environment startApp hands
  to the app, read by the app's own configuration (cmd/main.go). The outputs of git, the system
  calls and the settings the server shows are parameters.
\<close>

section \<open>The machine\<close>

definition report_envOr :: "environ \<Rightarrow> string \<Rightarrow> string \<Rightarrow> string" where
  "report_envOr ev key fallback = (let v = ev key in if v \<noteq> [] then v else fallback)"

text \<open>rev_parse and status: what the two git commands print, or that they fail.\<close>

definition gitState :: "error + string \<Rightarrow> error + string \<Rightarrow> string \<times> bool" where
  "gitState rev_parse status =
     (case rev_parse of
        Inl e \<Rightarrow> ([], True)
      | Inr out \<Rightarrow>
          (let sha = trim_space out in
           case status of Inl e \<Rightarrow> (sha, True) | Inr s \<Rightarrow> (sha, trim_space s \<noteq> [])))"

record host =
  ho_version :: string
  ho_GOOS :: string
  ho_GOARCH :: string
  ho_NumCPU :: int
  ho_GOMAXPROCS :: int
  ho_environ :: environ
  ho_Hostname :: "error + string"
  ho_rev_parse :: "error + string"
  ho_status :: "error + string"
  ho_Getrlimit :: "error + int \<times> int"
  ho_Now :: int

definition Collect :: "host \<Rightarrow> string \<Rightarrow> int \<Rightarrow> meta" where
  "Collect h sessionID appGOMAXPROCS =
     (let (sha, dirty) = gitState (ho_rev_parse h) (ho_status h) in
      \<lparr>GitSHA = sha, GitDirty = dirty, SessionID = sessionID,
       Hostname = (case ho_Hostname h of Inl e \<Rightarrow> [] | Inr n \<Rightarrow> n),
       GoVersion = ho_version h, OSArch = ho_GOOS h @ ''/'' @ ho_GOARCH h, NumCPU = ho_NumCPU h,
       AppGOMAXPROCS = appGOMAXPROCS, BenchGOMAXPROCS = ho_GOMAXPROCS h,
       GOGC = report_envOr (ho_environ h) ''GOGC'' ''100'', GOMEMLIMIT = report_envOr (ho_environ h) ''GOMEMLIMIT'' ''off'',
       RLimitNofile = (case ho_Getrlimit h of Inl e \<Rightarrow> 0 | Inr (soft, hard) \<Rightarrow> soft),
       StartedAt = ho_Now h\<rparr>)"

text \<open>A setting that cannot be shown stays empty.\<close>

definition ReadDBInfo_of :: "(string \<Rightarrow> error + string) \<Rightarrow> db_info" where
  "ReadDBInfo_of row =
     (let scan = (\<lambda>setting. case row (''SHOW '' @ setting) of Inl e \<Rightarrow> [] | Inr v \<Rightarrow> v) in
      \<lparr>ServerVersion = scan ''server_version'', SynchronousCommit = scan ''synchronous_commit'',
       Fsync = scan ''fsync'', MaxConnections = scan ''max_connections'', SharedBuffers = scan ''shared_buffers''\<rparr>)"

text \<open>
  RaiseFileLimit: the limits found, the answer to setting the soft one to the hard one, the
  limits found afterwards; the result is the soft limit, the hard limit and an error.
\<close>

definition RaiseFileLimit_result :: "error + int \<times> int \<Rightarrow> (int \<times> int \<Rightarrow> error option) \<Rightarrow> error + int \<times> int \<Rightarrow>
    int \<times> int \<times> error option" where
  "RaiseFileLimit_result first setrlimit again =
     (case first of
        Inl e \<Rightarrow> (0, 0, Some e)
      | Inr (soft, hard) \<Rightarrow>
          (case setrlimit (hard, hard) of
             Some e \<Rightarrow> (case again of Inl e' \<Rightarrow> 0 | Inr (cur, mx) \<Rightarrow> cur, hard, None)
           | None \<Rightarrow> (case again of Inl e' \<Rightarrow> (0, hard, Some e') | Inr (cur, mx) \<Rightarrow> (cur, hard, None))))"

definition limits_found :: "int \<times> int \<times> error option \<Rightarrow> (int \<times> int) option" where
  "limits_found r = (case r of (soft, hard, err) \<Rightarrow> (case err of None \<Rightarrow> Some (soft, hard) | Some e \<Rightarrow> None))"

text \<open>A refused raise is no error, and the hard limit is reported either way.\<close>

lemma RaiseFileLimit_hard:
  "limits_found (RaiseFileLimit_result (Inr (soft, hard)) setrlimit again) = Some (s, h) \<Longrightarrow> h = hard"
  by (auto simp: RaiseFileLimit_result_def limits_found_def split: option.splits sum.splits)

section \<open>The app it starts\<close>

text \<open>
  cmd.Env: what the benchmark has inherited, and after it startApp's settings; of several values
  for a key the last one counts.
\<close>

definition child_environ :: "environ \<Rightarrow> (string \<times> string) list \<Rightarrow> environ" where
  "child_environ ev settings key = (case map_of (rev settings) key of None \<Rightarrow> ev key | Some v \<Rightarrow> v)"

text \<open>What a result reports of the app, against the configuration of the app.\<close>

definition describes :: "app_info \<Rightarrow> config \<Rightarrow> bool" where
  "describes ai c =
     (ai_Arm ai = oc_reserveStrategy (cf_orders c) \<and> ai_CustomerCache ai = oc_customerCache (cf_orders c) \<and>
      ai_LogRequests ai = cf_logRequests c \<and> ai_DBMaxConns ai = db_MaxConns (cf_db c) \<and>
      ParseDuration (ai_ReservationTTL ai) = Some (oc_reservationTTL (cf_orders c)) \<and>
      ParseDuration (ai_SweepInterval ai) = Some (oc_sweepInterval (cf_orders c)) \<and>
      ParseDuration (ai_StripeEventPollInterval ai) = Some (pc_eventPollInterval (cf_payments c)))"

lemma durations: "ParseDuration ''24h'' = Some (24 * 60 * Minute)" "ParseDuration ''0s'' = Some 0"
proof -
  have "duration_sum 0 [] = Some 0" "duration_sum v [] = Some v" for v
    by (subst duration_sum.simps, simp)+
  note base = this
  show "ParseDuration ''24h'' = Some (24 * 60 * Minute)"
    by (simp add: ParseDuration_def, subst duration_sum.simps)
      (simp add: duration_term_def is_digit_def digit_value_def unit_ns_def unit_char_def Minute_def base)
  show "ParseDuration ''0s'' = Some 0"
    by (simp add: ParseDuration_def, subst duration_sum.simps)
      (simp add: duration_term_def is_digit_def digit_value_def unit_ns_def unit_char_def base)
qed

lemma GetBool_show: "ev key = show_bool b \<Longrightarrow> GetBool ev key d = b"
  by (auto simp: GetBool_def show_bool_def parse_bool_def)

lemma GetInt32_show:
  assumes "ev key = show_int n" "- (2 ^ 31) \<le> n" "n < 2 ^ 31"
  shows "GetInt32 ev key d = n"
proof -
  have "show_int n \<noteq> []" by (simp add: show_int_def)
  moreover have "parse_int64 (show_int n) = Some n" using assms by (intro parse_show_int) auto
  ultimately show ?thesis using assms by (simp add: GetInt32_def GetInt_def int32_id)
qed

lemma app_boots_as_set:
  assumes "op_DSN o1 \<noteq> []" "url \<noteq> []" "op_Arm o1 \<noteq> []" "- (2 ^ 31) \<le> op_DBMaxConns o1" "op_DBMaxConns o1 < 2 ^ 31"
  shows "\<exists>c. load_config (child_environ ev (app_environment o1 url)) = Inr c \<and>
    oc_reserveStrategy (cf_orders c) = op_Arm o1 \<and> oc_customerCache (cf_orders c) = op_CustomerCache o1 \<and>
    cf_logRequests c = op_LogRequests o1 \<and> db_MaxConns (cf_db c) = op_DBMaxConns o1 \<and>
    oc_reservationTTL (cf_orders c) = 24 * 60 * Minute \<and> oc_sweepInterval (cf_orders c) = 24 * 60 * Minute \<and>
    pc_eventPollInterval (cf_payments c) = 0 \<and> db_DSN (cf_db c) = op_DSN o1 \<and> cc_issuerURL (cf_cognito c) = url"
proof -
  let ?ev = "child_environ ev (app_environment o1 url)"
  have set: "?ev ''GOOSE_DBSTRING'' = op_DSN o1" "?ev ''COGNITO_ISSUER_URL'' = url" "?ev ''COGNITO_CLIENT_ID'' = Audience"
    "?ev ''RESERVE_STRATEGY'' = op_Arm o1" "?ev ''CUSTOMER_CACHE'' = show_bool (op_CustomerCache o1)"
    "?ev ''LOG_REQUESTS'' = show_bool (op_LogRequests o1)" "?ev ''DB_MAX_CONNS'' = show_int (op_DBMaxConns o1)"
    "?ev ''RESERVATION_TTL'' = ''24h''" "?ev ''RESERVATION_SWEEP_INTERVAL'' = ''24h''"
    "?ev ''STRIPE_EVENT_POLL_INTERVAL'' = ''0s''" "?ev ''STRIPE_SECRET_KEY'' = ''sk_test_bench_placeholder''"
    "?ev ''STRIPE_WEBHOOK_SECRET'' = ''whsec_bench_placeholder''"
    by (simp_all add: child_environ_def app_environment_def)
  have bools: "GetBool ?ev ''CUSTOMER_CACHE'' d = op_CustomerCache o1" "GetBool ?ev ''LOG_REQUESTS'' d = op_LogRequests o1" for d
    using GetBool_show [of ?ev "''CUSTOMER_CACHE''", OF set(5)] GetBool_show [of ?ev "''LOG_REQUESTS''", OF set(6)] by simp_all
  have conns: "GetInt32 ?ev ''DB_MAX_CONNS'' d = op_DBMaxConns o1" for d
    using set(7) assms by (intro GetInt32_show)
  show ?thesis
    using assms
    by (simp add: load_config_def bind_err_def MustGetString_def set orders_from_def payments_from_def GetString_def
        bools conns GetDuration_def durations Audience_def)
qed

text \<open>What startApp does not set, the app inherits, and no field of the result shows it.\<close>

lemma inherited_limit:
  "rc_perIP (rate_limit_from (child_environ ev (app_environment o1 url))) = rc_perIP (rate_limit_from ev)"
  "oc_sweepBatchSize (orders_from (child_environ ev (app_environment o1 url))) = oc_sweepBatchSize (orders_from ev)"
  "oc_idempotency (orders_from (child_environ ev (app_environment o1 url))) = oc_idempotency (orders_from ev)"
  by (simp_all add: rate_limit_from_def orders_from_def GetInt_def GetInt32_def GetBool_def child_environ_def app_environment_def)

section \<open>A result and its run\<close>

definition reported_app :: "options \<Rightarrow> app_info" where
  "reported_app o1 = \<lparr>ai_Arm = op_Arm o1, ai_CustomerCache = op_CustomerCache o1,
    ai_CustomerCacheEntries = 0, ai_LogRequests = op_LogRequests o1, ai_DBMaxConns = op_DBMaxConns o1,
    ai_ReservationTTL = ''24h'', ai_SweepInterval = ''24h'', ai_StripeEventPollInterval = ''0s''\<rparr>"

lemma andthen_Inr: "snd (andthen m k) = Inr r \<longleftrightarrow> (\<exists>x. snd m = Inr x \<and> snd (k x) = Inr r)"
  by (simp add: snd_andthen split: sum.split)

lemma andthen_sum:
  "andthen (case r of Inl e \<Rightarrow> fail (f e) | Inr x \<Rightarrow> pure_ex x) k = (case r of Inl e \<Rightarrow> fail (f e) | Inr x \<Rightarrow> k x)"
  by (simp add: andthen_def fail_def pure_ex_def split: sum.split)

lemma case_fail_Inr:
  "snd (case r of Inl e \<Rightarrow> fail (f e) | Inr x \<Rightarrow> k x) = Inr y \<longleftrightarrow> (\<exists>x. r = Inr x \<and> snd (k x) = Inr y)"
  by (simp split: sum.split)

lemma measured_app:
  assumes "snd (measure_run w o1 res sched pl ids) = Inr r"
  shows "Meta r = Meta res \<and> App r = reported_app o1"
  using assms unfolding measure_run_def andthen_Inr by (clarsimp simp: reported_app_def)

lemma prepared_app:
  assumes "snd (prepare_run w o1 res) = Inr r"
  shows "\<exists>url. be_issuer w = Inr url \<and> StartApp (app_environment o1 url) \<in> set (fst (prepare_run w o1 res)) \<and>
    Meta r = Meta res \<and> App r = reported_app o1"
proof -
  from assms obtain sched pl ids url buyers res1 where
    calls: "be_migrate w = Inr ()" "be_reset w = Inr ()" "be_probe_table w = Inr ()"
      "BuildSchedule (op_Arrivals o1) (op_Rate o1) (op_Duration o1) (be_draw w) = Inr sched"
      "PlanFor (op_Shape o1) (int (length sched)) = Inr pl" "be_seed_products w pl = Inr ids"
      "be_issuer w = Inr url" "MintBuyers (be_mint w) (nat (op_Buyers o1)) = Inr buyers"
      "be_seed_customers w buyers = Inr ()" "be_start_app w = Inr ()"
    and run: "snd (measure_run w o1 res1 sched pl ids) = Inr r" "Meta res1 = Meta res"
    by (simp add: prepare_run_def Let_def andthen_Inr andthen_sum case_fail_Inr) force
  have "StartApp (app_environment o1 url) \<in> set (fst (prepare_run w o1 res))"
    by (simp add: prepare_run_def Let_def fst_andthen andthen_sum calls wrap_def)
  with calls measured_app [OF run(1)] run(2) show ?thesis by simp
qed

lemma executed_app:
  assumes "snd (Execute w o1) = Inr r"
  shows "\<exists>url m m1. be_issuer w = Inr url \<and> StartApp (app_environment o1 url) \<in> set (fst (Execute w o1)) \<and>
    attribution o1 (be_collect w) = Inr m \<and> file_limit o1 (be_file_limit w) m = Inr m1 \<and> Meta r = m1 \<and>
    App r = reported_app o1"
  using assms
  by (auto simp: Execute_def trace_simps wrap_def split: sum.splits option.splits dest!: prepared_app)

lemma attributed_commit:
  assumes "attribution o1 (Collect h s n) = Inr m" "file_limit o1 limits m = Inr m1"
  shows "SessionID m1 = s \<and> AppGOMAXPROCS m1 = n \<and> (\<not> op_AllowDirty o1 \<longrightarrow> GitSHA m1 \<noteq> [] \<and> \<not> GitDirty m1 \<and>
    (if op_GitSHA o1 \<noteq> [] then GitSHA m1 = op_GitSHA o1
     else \<exists>out st. ho_rev_parse h = Inr out \<and> GitSHA m1 = trim_space out \<and> ho_status h = Inr st \<and> trim_space st = []))"
proof -
  have same: "SessionID m1 = SessionID m" "AppGOMAXPROCS m1 = AppGOMAXPROCS m" "GitSHA m1 = GitSHA m" "GitDirty m1 = GitDirty m"
    using assms(2) by (auto simp: file_limit_def Let_def split: option.splits if_splits)
  have flags: "SessionID m = s" "AppGOMAXPROCS m = n" "\<not> op_AllowDirty o1 \<Longrightarrow> GitSHA m \<noteq> [] \<and> \<not> GitDirty m"
    "op_GitSHA o1 \<noteq> [] \<Longrightarrow> GitSHA m = op_GitSHA o1"
    using assms(1) by (auto simp: attribution_def Collect_def Let_def split_beta split: if_splits)
  have git: "GitSHA m = fst (gitState (ho_rev_parse h) (ho_status h)) \<and> GitDirty m = snd (gitState (ho_rev_parse h) (ho_status h))" if "op_GitSHA o1 = []"
    using assms(1) that by (auto simp: attribution_def Collect_def Let_def split_beta split: if_splits)
  show ?thesis
    using flags git by (cases "ho_rev_parse h"; cases "ho_status h") (auto simp: same gitState_def Let_def)
qed

lemma described_app:
  assumes "op_DSN o1 \<noteq> []" "url \<noteq> []" "op_Arm o1 \<noteq> []" "- (2 ^ 31) \<le> op_DBMaxConns o1" "op_DBMaxConns o1 < 2 ^ 31"
  shows "\<exists>c. load_config (child_environ ev (app_environment o1 url)) = Inr c \<and> describes (reported_app o1) c"
  using app_boots_as_set [OF assms, of ev] by (auto simp: describes_def reported_app_def durations)

lemma set_GOMAXPROCS: "child_environ ev (app_environment o1 url) ''GOMAXPROCS'' = show_int (op_AppGOMAXPROCS o1)"
  by (simp add: child_environ_def app_environment_def)

end
