(* ===== verification/JsonText.thy ===== *)
theory JsonText
  imports Json
begin

text \<open>
  The text half of encoding/json, as far as the program uses it: Encoder and Marshal for values
  the model has (json_render), Decoder and Unmarshal from text to a value (json_decode,
  json_unmarshal). A string is a list of bytes. Strings are escaped as the encoder does by
  default (HTML-safe); bytes that are not UTF-8 become the replacement character, both ways. The
  parser's recursion is bounded by fuel that is always enough (json_fuel; fuel_enough in
  JsonRound) and, as in the library, by 10000 levels of nesting.
\<close>

section \<open>Bytes and runes\<close>

abbreviation byte :: "char \<Rightarrow> nat" where
  "byte c \<equiv> of_char c"

text \<open>utf8.DecodeRune: what a leading byte asks of the bytes after it.\<close>

definition rune_tail :: "nat \<Rightarrow> (nat \<times> nat \<times> nat) option" where
  "rune_tail b =
     (if b < 128 then Some (0, 0, 0)
      else if 194 \<le> b \<and> b \<le> 223 then Some (128, 191, 1)
      else if b = 224 then Some (160, 191, 2)
      else if b = 237 then Some (128, 159, 2)
      else if 225 \<le> b \<and> b \<le> 239 then Some (128, 191, 2)
      else if b = 240 then Some (144, 191, 3)
      else if 241 \<le> b \<and> b \<le> 243 then Some (128, 191, 3)
      else if b = 244 then Some (128, 143, 3)
      else None)"

definition continues :: "nat \<Rightarrow> nat \<Rightarrow> nat \<Rightarrow> string \<Rightarrow> bool" where
  "continues lo hi k cs =
     (k \<le> length cs \<and> list_all (\<lambda>x. 128 \<le> byte x \<and> byte x \<le> 191) (take k cs) \<and>
      (k = 0 \<or> (lo \<le> byte (hd cs) \<and> byte (hd cs) \<le> hi)))"

text \<open>The number of bytes after the first, if a rune begins here.\<close>

definition rune_more :: "char \<Rightarrow> string \<Rightarrow> nat option" where
  "rune_more c cs =
     (case rune_tail (byte c) of
        None \<Rightarrow> None
      | Some (lo, hi, k) \<Rightarrow> if continues lo hi k cs then Some k else None)"

definition utf8 :: "nat \<Rightarrow> string" where
  "utf8 n =
     (if n < 128 then [char_of n]
      else if n < 2048 then [char_of (192 + n div 64), char_of (128 + n mod 64)]
      else if n < 65536 then [char_of (224 + n div 4096), char_of (128 + n div 64 mod 64), char_of (128 + n mod 64)]
      else [char_of (240 + n div 262144), char_of (128 + n div 4096 mod 64), char_of (128 + n div 64 mod 64),
            char_of (128 + n mod 64)])"

definition replacement :: string where "replacement = utf8 65533"

text \<open>A string as the library reads it.\<close>

fun clean :: "string \<Rightarrow> string" where
  "clean [] = []"
| "clean (c # cs) =
     (case rune_more c cs of
        None \<Rightarrow> replacement @ clean cs
      | Some k \<Rightarrow> c # take k cs @ clean (drop k cs))"

section \<open>Writing\<close>

abbreviation dquote :: char where "dquote \<equiv> CHR 0x22"
abbreviation backslash :: char where "backslash \<equiv> CHR 0x5C"

definition hex_digit :: "nat \<Rightarrow> char" where
  "hex_digit n = (if n < 10 then char_of (48 + n) else char_of (87 + n))"

text \<open>The escape of a single byte below 128.\<close>

definition escape :: "char \<Rightarrow> string" where
  "escape c =
     (if c = dquote \<or> c = backslash then [backslash, c]
      else if byte c = 8 then [backslash, CHR ''b'']
      else if byte c = 12 then [backslash, CHR ''f'']
      else if byte c = 10 then [backslash, CHR ''n'']
      else if byte c = 13 then [backslash, CHR ''r'']
      else if byte c = 9 then [backslash, CHR ''t'']
      else if byte c < 32 \<or> c = CHR ''<'' \<or> c = CHR ''>'' \<or> c = CHR ''&''
      then [backslash, CHR ''u'', CHR ''0'', CHR ''0'', hex_digit (byte c div 16), hex_digit (byte c mod 16)]
      else [c])"

definition escape_rune :: "string \<Rightarrow> string" where
  "escape_rune r =
     (if r = utf8 8232 then backslash # ''u2028''
      else if r = utf8 8233 then backslash # ''u2029'' else r)"

fun quote_body :: "string \<Rightarrow> string" where
  "quote_body [] = []"
| "quote_body (c # cs) =
     (case rune_more c cs of
        None \<Rightarrow> (backslash # ''ufffd'') @ quote_body cs
      | Some k \<Rightarrow> (if k = 0 then escape c else escape_rune (c # take k cs)) @ quote_body (drop k cs))"

definition quote :: "string \<Rightarrow> string" where
  "quote s = dquote # quote_body s @ [dquote]"

fun commas :: "string list \<Rightarrow> string" where
  "commas [] = []"
| "commas [x] = x"
| "commas (x # y # xs) = x @ CHR '','' # commas (y # xs)"

fun json_render :: "json \<Rightarrow> string" where
  "json_render JNull = ''null''"
| "json_render (JBool b) = (if b then ''true'' else ''false'')"
| "json_render (JInt i) = show_int i"
| "json_render (JFrac s) = s"
| "json_render (JStr s) = quote s"
| "json_render (JArr vs) = CHR ''['' # commas (map json_render vs) @ '']''"
| "json_render (JObj ms) = CHR ''{'' # commas (map (\<lambda>(k, v). quote k @ CHR '':'' # json_render v) ms) @ ''}''"

section \<open>Reading\<close>

definition hex_value :: "char \<Rightarrow> nat option" where
  "hex_value c =
     (let b = byte c in
      if 48 \<le> b \<and> b \<le> 57 then Some (b - 48)
      else if 97 \<le> b \<and> b \<le> 102 then Some (b - 87)
      else if 65 \<le> b \<and> b \<le> 70 then Some (b - 55) else None)"

fun hex4 :: "string \<Rightarrow> nat option" where
  "hex4 (a # b # c # d # s) =
     (case (hex_value a, hex_value b, hex_value c, hex_value d) of
        (Some w, Some x, Some y, Some z) \<Rightarrow> Some (((w * 16 + x) * 16 + y) * 16 + z)
      | _ \<Rightarrow> None)"
| "hex4 s = None"

text \<open>The low surrogate that may follow a high one.\<close>

definition low_half :: "string \<Rightarrow> nat option" where
  "low_half s =
     (case s of
        b # u # t \<Rightarrow>
          if b = backslash \<and> u = CHR ''u''
          then Option.bind (hex4 t) (\<lambda>l. if 56320 \<le> l \<and> l < 57344 then Some l else None) else None
      | _ \<Rightarrow> None)"

text \<open>A \u escape: the rune it stands for and the number of bytes after the u it takes.\<close>

definition unicode_escape :: "string \<Rightarrow> (string \<times> nat) option" where
  "unicode_escape s =
     (case hex4 s of
        None \<Rightarrow> None
      | Some h \<Rightarrow>
          if 55296 \<le> h \<and> h < 57344
          then (case (if h < 56320 then low_half (drop 4 s) else None) of
              Some l \<Rightarrow> Some (utf8 (65536 + (h - 55296) * 1024 + (l - 56320)), 10)
            | None \<Rightarrow> Some (replacement, 4))
          else Some (utf8 h, 4))"

definition unescape :: "char \<Rightarrow> char option" where
  "unescape e =
     (if e = dquote \<or> e = backslash \<or> e = CHR ''/'' then Some e
      else if e = CHR ''b'' then Some (char_of (8 :: nat))
      else if e = CHR ''f'' then Some (char_of (12 :: nat))
      else if e = CHR ''n'' then Some (char_of (10 :: nat))
      else if e = CHR ''r'' then Some (char_of (13 :: nat))
      else if e = CHR ''t'' then Some (char_of (9 :: nat)) else None)"

text \<open>The rest of a string after its opening quote: what it says, and what comes after it.\<close>

definition put_front :: "string \<Rightarrow> (string \<times> string) option \<Rightarrow> (string \<times> string) option" where
  "put_front x = map_option (map_prod (\<lambda>s. x @ s) id)"

fun unquote :: "string \<Rightarrow> (string \<times> string) option" where
  "unquote [] = None"
| "unquote (c # cs) =
     (if c = dquote then Some ([], cs)
      else if c = backslash then
        (case cs of
           [] \<Rightarrow> None
         | e # es \<Rightarrow>
             if e = CHR ''u''
             then (case unicode_escape es of
                 None \<Rightarrow> None
               | Some (r, n) \<Rightarrow> put_front r (unquote (drop n es)))
             else (case unescape e of None \<Rightarrow> None | Some x \<Rightarrow> put_front [x] (unquote es)))
      else if byte c < 32 then None
      else (case rune_more c cs of
          None \<Rightarrow> put_front replacement (unquote cs)
        | Some k \<Rightarrow> put_front (c # take k cs) (unquote (drop k cs))))"

definition is_space :: "char \<Rightarrow> bool" where
  "is_space c = (byte c \<in> {32, 9, 10, 13})"

definition skip_space :: "string \<Rightarrow> string" where
  "skip_space = dropWhile is_space"

text \<open>A number: its fraction and its exponent, if it has them, and what follows.\<close>

definition after_digits :: "string \<Rightarrow> string option" where
  "after_digits s = (if takeWhile is_digit s = [] then None else Some (dropWhile is_digit s))"

definition number_frac :: "string \<Rightarrow> string option" where
  "number_frac s = (case s of c # r \<Rightarrow> if c = CHR ''.'' then after_digits r else Some s | [] \<Rightarrow> Some [])"

definition number_exp :: "string \<Rightarrow> string option" where
  "number_exp s =
     (case s of
        c # r \<Rightarrow>
          if c = CHR ''e'' \<or> c = CHR ''E''
          then after_digits (case r of x # t \<Rightarrow> if x = CHR ''+'' \<or> x = CHR ''-'' then t else r | [] \<Rightarrow> [])
          else Some s
      | [] \<Rightarrow> Some [])"

definition number_of :: "bool \<Rightarrow> string \<Rightarrow> string \<Rightarrow> (json \<times> string) option" where
  "number_of neg t s =
     (let ds = takeWhile is_digit t; r = dropWhile is_digit t in
      if ds = [] \<or> (hd ds = CHR ''0'' \<and> tl ds \<noteq> []) then None
      else Option.bind (number_frac r) (\<lambda>r1. Option.bind (number_exp r1) (\<lambda>r2.
        Some (if length r2 = length r then JInt (if neg then - int (read_nat ds) else int (read_nat ds))
              else JFrac (take (length s - length r2) s), r2))))"

definition number :: "string \<Rightarrow> (json \<times> string) option" where
  "number s = (case s of [] \<Rightarrow> None | c # r \<Rightarrow> if c = CHR ''-'' then number_of True r s else number_of False s s)"

definition literal :: "string \<Rightarrow> json \<Rightarrow> string \<Rightarrow> (json \<times> string) option" where
  "literal w v s = (if take (length w) s = w then Some (v, drop (length w) s) else None)"

text \<open>
  Values, the elements of an array up to its bracket and the members of an object up to its
  brace. The first argument is the fuel, the second the nesting that is left.
\<close>

fun json_value :: "nat \<Rightarrow> nat \<Rightarrow> string \<Rightarrow> (json \<times> string) option"
and json_elems :: "nat \<Rightarrow> nat \<Rightarrow> string \<Rightarrow> (json list \<times> string) option"
and json_members :: "nat \<Rightarrow> nat \<Rightarrow> string \<Rightarrow> ((string \<times> json) list \<times> string) option" where
  "json_value 0 d s = None"
| "json_value (Suc n) d s =
     (case s of
        [] \<Rightarrow> None
      | c # cs \<Rightarrow>
          if c = dquote then map_option (map_prod JStr id) (unquote cs)
          else if c = CHR ''['' then
            (if d = 0 then None
             else case skip_space cs of
                 [] \<Rightarrow> None
               | x # t \<Rightarrow> if x = CHR '']'' then Some (JArr [], t)
                   else map_option (map_prod JArr id) (json_elems n (d - 1) (x # t)))
          else if c = CHR ''{'' then
            (if d = 0 then None
             else case skip_space cs of
                 [] \<Rightarrow> None
               | x # t \<Rightarrow> if x = CHR ''}'' then Some (JObj [], t)
                   else map_option (map_prod JObj id) (json_members n (d - 1) (x # t)))
          else if c = CHR ''n'' then literal ''null'' JNull s
          else if c = CHR ''t'' then literal ''true'' (JBool True) s
          else if c = CHR ''f'' then literal ''false'' (JBool False) s
          else number s)"
| "json_elems 0 d s = None"
| "json_elems (Suc n) d s =
     Option.bind (json_value n d s) (\<lambda>(v, r).
       case skip_space r of
         [] \<Rightarrow> None
       | x # t \<Rightarrow>
           if x = CHR '']'' then Some ([v], t)
           else if x = CHR '','' then map_option (map_prod (\<lambda>vs. v # vs) id) (json_elems n d (skip_space t))
           else None)"
| "json_members 0 d s = None"
| "json_members (Suc n) d s =
     (case s of
        [] \<Rightarrow> None
      | c # cs \<Rightarrow>
          if c \<noteq> dquote then None
          else Option.bind (unquote cs) (\<lambda>(k, r).
            case skip_space r of
              [] \<Rightarrow> None
            | x # t \<Rightarrow>
                if x \<noteq> CHR '':'' then None
                else Option.bind (json_value n d (skip_space t)) (\<lambda>(v, r').
                  case skip_space r' of
                    [] \<Rightarrow> None
                  | y # t' \<Rightarrow>
                      if y = CHR ''}'' then Some ([(k, v)], t')
                      else if y = CHR '','' then map_option (map_prod (\<lambda>ms. (k, v) # ms) id) (json_members n d (skip_space t'))
                      else None)))"

definition max_nesting :: nat where "max_nesting = 10000"

definition json_fuel :: "string \<Rightarrow> nat" where "json_fuel s = 2 * length s + 1"

text \<open>
  Decoder.Decode takes the first value and leaves the rest; Unmarshal wants nothing but space
  after it. Encode ends with a newline.
\<close>

definition json_decode :: "string \<Rightarrow> json option" where
  "json_decode s = (let t = skip_space s in map_option fst (json_value (json_fuel t) max_nesting t))"

definition json_unmarshal :: "string \<Rightarrow> json option" where
  "json_unmarshal s =
     (let t = skip_space s in
      case json_value (json_fuel t) max_nesting t of
        None \<Rightarrow> None
      | Some (v, r) \<Rightarrow> if skip_space r = [] then Some v else None)"

definition json_encode :: "json \<Rightarrow> string" where
  "json_encode v = json_render v @ [CHR 0x0A]"

end
