(* ===== verification/BenchProbe.thy ===== *)
theory BenchProbe
  imports BenchRun Ledger
begin

text \<open>
  bench/internal/run/exec.go: timing the statement an arm holds the stock row's lock for. The
  probe really executes the statement, under EXPLAIN ANALYZE and inside a transaction that is
  rolled back; shown here is that it leaves nothing behind but advanced sequences. The plan
  PostgreSQL prints (the lines of each of the probes) is a parameter.
\<close>

section \<open>Reading the time out of a plan\<close>

text \<open>The regular expression Execution Time: ([0-9.]+) ms, leftmost match, its group.\<close>

definition time_char :: "char \<Rightarrow> bool" where
  "time_char c = (is_digit c \<or> c = CHR ''.'')"

definition exec_time_at :: "string \<Rightarrow> string option" where
  "exec_time_at s =
     (let t = drop 16 s; num = takeWhile time_char t in
      if has_prefix s ''Execution Time: '' \<and> num \<noteq> [] \<and> has_prefix (drop (length num) t) '' ms''
      then Some num else None)"

fun execTimeRE :: "string \<Rightarrow> string option" where
  "execTimeRE [] = None"
| "execTimeRE (c # cs) = (case exec_time_at (c # cs) of Some m \<Rightarrow> Some m | None \<Rightarrow> execTimeRE cs)"

text \<open>strconv.ParseFloat of digits with at most one point.\<close>

definition ParseFloat :: "string \<Rightarrow> real option" where
  "ParseFloat s =
     (let w = takeWhile is_digit s in
      case drop (length w) s of
        [] \<Rightarrow> if w = [] then None else Some (fl (of_nat (read_nat w)))
      | c # f \<Rightarrow>
          if c = CHR ''.'' \<and> list_all is_digit f \<and> (w \<noteq> [] \<or> f \<noteq> [])
          then Some (fl (of_nat (read_nat (w @ f)) / 10 ^ length f)) else None)"

lemma plan_time: "execTimeRE ''Planning Time: 0.1 ms Execution Time: 0.25 ms'' = Some ''0.25''"
  by (simp add: exec_time_at_def time_char_def is_digit_def has_prefix_def Let_def)

section \<open>The probe\<close>

text \<open>EXPLAIN (ANALYZE) of a statement: it is executed, and the answer is the plan.\<close>

definition explained :: "(env \<Rightarrow> string list) \<Rightarrow> 'r stmt \<Rightarrow> string list stmt" where
  "explained lines s e =
     (case s e of Reply r ws sq \<Rightarrow> Reply (if server_error r then Inl (case r of Inl x \<Rightarrow> x) else Inr (lines e)) ws sq)"

definition criticalStatement :: "(env \<Rightarrow> string list) \<Rightarrow> string \<Rightarrow> int \<Rightarrow> int \<Rightarrow> int \<Rightarrow> string list stmt" where
  "criticalStatement lines arm productID customerID expires =
     (if arm = StrategyCTE then explained lines (ReserveAndCreateOrder productID customerID expires)
      else explained lines (ReserveStock productID))"

definition explainOnce :: "string list stmt \<Rightarrow> real prog" where
  "explainOnce s =
     in_tx (call (exec s) (\<lambda>lines.
       let plan = concat (map (\<lambda>l. l @ [CHR 0x0A]) lines) in
       case execTimeRE plan of
         None \<Rightarrow> throw (Infra (''no execution time in plan:'' @ [CHR 0x0A] @ plan))
       | Some m \<Rightarrow> (case ParseFloat m of None \<Rightarrow> throw (Infra ''invalid syntax'') | Some ms \<Rightarrow> ret ms)))"

primrec probe_samples :: "(nat \<Rightarrow> string list stmt) \<Rightarrow> nat list \<Rightarrow> real list prog" where
  "probe_samples s [] = ret []"
| "probe_samples s (k # ks) =
     call (explainOnce (s k)) (\<lambda>ms. call (probe_samples s ks) (\<lambda>xs. ret (fl (ms * 1000) # xs)))"

text \<open>plans k e is what PostgreSQL prints for the k-th probe.\<close>

definition ProbeExec :: "(nat \<Rightarrow> env \<Rightarrow> string list) \<Rightarrow> string \<Rightarrow> int \<Rightarrow> int \<Rightarrow> int \<Rightarrow> real prog" where
  "ProbeExec plans arm productID customerID now =
     (let expires = now + 3600 * 1000000 in
      call (probe_samples (\<lambda>k. criticalStatement (plans k) arm productID customerID expires) [0..<32])
        (\<lambda>xs. ret (sort xs ! (length xs div 2))))"

section \<open>A transaction that is never committed\<close>

primrec uncommitted :: "'a prog \<Rightarrow> bool" where
  "uncommitted (Return r) = True"
| "uncommitted (Stmt f h) = ((\<forall>x. uncommitted (h x)) \<and> (\<forall>e. case map_prod id uncommitted (f e) of (w, u) \<Rightarrow> u))"
| "uncommitted (Begin b) = False"
| "uncommitted (Commit b) = False"
| "uncommitted (Rollback p) = False"
| "uncommitted (Mem f) = False"

lemma map_prod_uncommitted [simp]: "map_prod id uncommitted x = (fst x, uncommitted (snd x))"
  by (simp add: map_prod_def split_beta)

lemma uncommitted_basic [simp]: "uncommitted (ret x)" "uncommitted (throw e)" "uncommitted (exec s)"
  by (auto simp: ret_def throw_def exec_def split: reply.split)

lemma uncommitted_call: "uncommitted m \<Longrightarrow> (\<And>x. uncommitted (k x)) \<Longrightarrow> uncommitted (call m k)"
  unfolding call_def
  by (induction m rule: prog_induct) (auto simp: split_beta throw_def split: sum.split)

text \<open>Its statements advance sequences and take locks of their own transaction, nothing else.\<close>

definition only_mine :: "owner \<Rightarrow> gstate \<Rightarrow> bool" where
  "only_mine me g = (\<forall>x \<in> set (locks g). snd x = me)"

lemma only_mine_simps [simp]:
  "only_mine me (acquire me ws g) = only_mine me g" "only_mine me (install ws sq g) = only_mine me g"
  by (auto simp: only_mine_def acquire_def)

lemma step_uncommitted:
  assumes "step_prog c i p (t # ts) g = Some (p', st', g')" "uncommitted p" "only_mine (i, Suc (length ts)) g"
  shows "uncommitted p' \<and> (\<exists>t'. st' = t' # ts) \<and> only_mine (i, Suc (length ts)) g' \<and>
    clock g' = clock g \<and> cache g' = cache g \<and> (\<exists>sq. committed g' = burns sq (committed g))"
proof (cases p)
  case (Stmt f h)
  have b: "\<exists>sq. d = burns sq d" for d by (rule exI [of _ "[]"]) (simp add: burns_def)
  obtain ws sq ab q where f: "f (tx_env i t (Suc (length ts)) g) = ((ws, sq, ab), q)"
    by (metis prod.exhaust)
  have q: "uncommitted q" using assms(2) Stmt f by (auto dest!: spec [of _ "tx_env i t (Suc (length ts)) g"])
  have "clock (acquire me ws g) = clock g \<and> cache (acquire me ws g) = cache g \<and> committed (acquire me ws g) = committed g"
    for me g by (simp add: acquire_def)
  then show ?thesis
    using assms(1,2,3) Stmt f q b
    by (cases "tx_state t"; cases c) (auto simp: Let_def split: if_splits)
qed (use assms in auto)

lemma run_uncommitted:
  assumes "run cs i p (t # ts) g = Some (cs', r, st', g')" "uncommitted p" "only_mine (i, Suc (length ts)) g"
  shows "(\<exists>t'. st' = t' # ts) \<and> only_mine (i, Suc (length ts)) g' \<and>
    clock g' = clock g \<and> cache g' = cache g \<and> (\<exists>sq. committed g' = burns sq (committed g))"
  using assms
proof (induction cs i p "t # ts" g arbitrary: t rule: run.induct)
  case (1 cs i p g)
  show ?case
  proof (cases "step_prog (next_choice cs) i p (t # ts) g")
    case None
    have "\<exists>sq. d = burns sq d" for d by (rule exI [of _ "[]"]) (simp add: burns_def)
    with None 1(2,4) show ?thesis by (auto simp: run.simps [of cs] split: prog.splits)
  next
    case (Some a)
    then obtain p1 st1 g1 where step: "step_prog (next_choice cs) i p (t # ts) g = Some (p1, st1, g1)"
      by (cases a) auto
    from step_uncommitted [OF step 1(3,4)] obtain t1 sq where one: "uncommitted p1" "st1 = t1 # ts"
      "only_mine (i, Suc (length ts)) g1" "clock g1 = clock g" "cache g1 = cache g" "committed g1 = burns sq (committed g)"
      by blast
    have "run (tl cs) i p1 (t1 # ts) g1 = Some (cs', r, st', g')"
      using 1(2) step one(2) by (simp add: run.simps [of cs])
    from 1(1) [OF step [unfolded one(2)] refl refl this one(1,3)]
    obtain sq' where "committed g' = burns sq' (committed g1)" and rest: "\<exists>t'. st' = t' # ts"
      "only_mine (i, Suc (length ts)) g'" "clock g' = clock g1" "cache g' = cache g1" by blast
    then have "committed g' = burns (sq @ sq') (committed g)"
      using one(6) by (simp add: burns_def)
    with rest one show ?thesis by auto
  qed
qed

lemma release_mine: "only_mine me g \<Longrightarrow> release me g = g\<lparr>locks := []\<rparr>"
  by (cases g) (force simp: release_def only_mine_def filter_empty_conv)

lemma run_healthy: "run cs i p st g = Some (cs', r, st', g') \<Longrightarrow> cs = [] \<Longrightarrow> cs' = []"
proof (induction cs i p st g rule: run.induct)
  case (1 cs i p st g)
  show ?case
  proof (cases "step_prog (next_choice cs) i p st g")
    case None
    with 1(2,3) show ?thesis by (cases p) (simp_all add: run.simps [of "[]"])
  next
    case (Some a)
    then obtain p1 st1 g1 where step: "step_prog (next_choice cs) i p st g = Some (p1, st1, g1)"
      by (cases a) auto
    with 1(2) have "run (tl cs) i p1 st1 g1 = Some (cs', r, st', g')" by (simp add: run.simps [of cs])
    from 1(1) [OF step refl refl this] 1(3) show ?thesis by simp
  qed
qed

lemma run_rolled_back:
  assumes "run [] i (in_tx body) st g = Some (cs', r, st', g')" "uncommitted body" "locks g = []"
  shows "cs' = [] \<and> st' = st \<and> (\<exists>sq. g' = install [] sq g)"
proof -
  let ?t = "\<lparr>tx_state = TxLive, tx_writes = [], tx_now = clock g\<rparr>"
  obtain cs1 r1 st1 g1 where b: "run [] i body (?t # st) g = Some (cs1, r1, st1, g1)"
    and e: "run cs1 i (Rollback (Return r1)) st1 g1 = Some (cs', r, st', g')"
    using assms(1) by (auto simp: run_in_tx split: option.splits prod.splits)
  from run_uncommitted [OF b assms(2)] assms(3) obtain t' sq where "st1 = t' # st"
    "only_mine (i, Suc (length st)) g1" "clock g1 = clock g" "cache g1 = cache g" "committed g1 = burns sq (committed g)"
    by (auto simp: only_mine_def)
  with e assms(3) have "st' = st" "g' = install [] sq g"
    by (auto simp: run.simps [of cs1] release_mine install_def intro!: gstate.equality)
  with run_healthy [OF assms(1) refl] show ?thesis by blast
qed

text \<open>The probe leaves the tables, the locks and the cache as they were.\<close>

lemma run_explainOnce:
  "run [] i (explainOnce s) [] g = Some (cs', r, st', g') \<Longrightarrow> locks g = [] \<Longrightarrow>
     cs' = [] \<and> st' = [] \<and> (\<exists>sq. g' = install [] sq g)"
  unfolding explainOnce_def
  by (rule run_rolled_back) (auto simp: Let_def intro!: uncommitted_call split: option.split)

lemma install_twice: "install [] sq' (install [] sq g) = install [] (sq @ sq') g"
  by (simp add: install_def burns_def)

lemma run_probe_samples:
  "run [] i (probe_samples s ks) [] g = Some (cs', r, st', g') \<Longrightarrow> locks g = [] \<Longrightarrow>
     cs' = [] \<and> st' = [] \<and> (\<exists>sq. g' = install [] sq g)"
proof (induction ks arbitrary: r g cs' st' g')
  case Nil
  have "g = install [] [] g" by (simp add: install_def burns_def)
  then have "\<exists>sq. g = install [] sq g" ..
  with Nil(1) show ?case by (simp add: run_ret)
next
  case (Cons k ks)
  from Cons.prems(1) obtain cs1 r1 st1 g1 where one: "run [] i (explainOnce (s k)) [] g = Some (cs1, r1, st1, g1)"
    by (auto simp: run_call split: option.splits)
  from run_explainOnce [OF one Cons.prems(2)] obtain sq where g1: "cs1 = []" "st1 = []" "g1 = install [] sq g" by blast
  show ?case
  proof (cases r1)
    case (Inl e)
    with Cons.prems(1) one g1 show ?thesis by (auto simp: run_call)
  next
    case (Inr ms)
    with Cons.prems(1) one g1 obtain cs2 r2 st2 g2 where two: "run [] i (probe_samples s ks) [] g1 = Some (cs2, r2, st2, g2)"
      by (auto simp: run_call split: option.splits)
    have "locks g1 = []" using g1(3) Cons.prems(2) by (simp add: install_def)
    from Cons.IH [OF two this] obtain sq' where "cs2 = []" "st2 = []" "g2 = install [] (sq @ sq') g"
      using g1(3) install_twice by metis
    with Cons.prems(1) one g1 Inr two show ?thesis by (auto simp: run_call split: sum.splits)
  qed
qed

lemma run_ProbeExec:
  "run [] i (ProbeExec plans arm p c now) [] g = Some (cs', r, st', g') \<Longrightarrow> locks g = [] \<Longrightarrow>
     cs' = [] \<and> st' = [] \<and> (\<exists>sq. g' = install [] sq g)"
  unfolding ProbeExec_def Let_def
  by (auto simp: run_call split: option.splits sum.splits dest!: run_probe_samples)

section \<open>Beside the running process\<close>

text \<open>
  The probe's connection is one more session of the database while the app is up. In any
  interleaving it is a session like the app's own, and no order of it is ever committed.
\<close>

lemma books_uncommitted:
  "uncommitted p \<Longrightarrow> books F p (x # xs) ids (\<lambda>r st m. m = ids \<and> st \<noteq> [] \<and> tl st = xs)"
proof (induction p arbitrary: x ids rule: prog_induct)
  case (Stmt f h)
  then show ?case by (auto split: txstate.splits prod.splits)
qed auto

lemma books_explainOnce: "books F (explainOnce s) [] [] (\<lambda>r st m. st = [] \<and> m = [])"
  unfolding explainOnce_def
proof (rule books_in_tx)
  show "books F (call (exec s) (\<lambda>lines.
      let plan = concat (map (\<lambda>l. l @ [CHR 0x0A]) lines) in
      case execTimeRE plan of
        None \<Rightarrow> throw (Infra (''no execution time in plan:'' @ [CHR 0x0A] @ plan))
      | Some m \<Rightarrow> (case ParseFloat m of None \<Rightarrow> throw (Infra ''invalid syntax'') | Some ms \<Rightarrow> ret ms)))
      ((TxLive, []) # []) [] (\<lambda>r st' m. (\<exists>t. st' = t # []) \<and> [] = [] \<and> m = [])"
    by (rule tracks_mono [OF books_uncommitted])
      (auto simp: Let_def neq_Nil_conv intro!: uncommitted_call split: option.split)
qed simp

lemma books_probe_samples: "books F (probe_samples s ks) [] [] (\<lambda>r st m. st = [] \<and> m = [])"
proof (induction ks)
  case (Cons k ks)
  have "books F (call (probe_samples s ks) (\<lambda>xs. ret (fl (ms * 1000) # xs))) [] [] (\<lambda>r st m. st = [] \<and> m = [])" for ms
    by (rule tracks_callI [OF Cons.IH]) simp_all
  then show ?case by (auto intro: tracks_callI [OF books_explainOnce])
qed simp

lemma books_ProbeExec: "books F (ProbeExec plans arm p c now) [] [] (\<lambda>r st m. st = [] \<and> m = [])"
  unfolding ProbeExec_def Let_def by (rule tracks_callI [OF books_probe_samples]) simp_all

lemma sound_explained: "sound_stmt s \<Longrightarrow> sound_stmt (explained lines s)"
  by (auto simp: sound_stmt_def explained_def split: reply.splits)

lemma closed_explainOnce: "sound_stmt s \<Longrightarrow> closed (explainOnce s)"
  unfolding explainOnce_def
  by (rule in_tx_closed, rule triple_call [OF triple_exec, where K = "\<lambda>_ _. True"])
    (auto simp: Let_def intro!: triple_throw triple_ret split: option.split)

lemma sound_criticalStatement: "sound_stmt (criticalStatement lines arm p c expires)"
  by (auto simp: criticalStatement_def intro!: sound_explained good_intros)

lemma pooled_probe_samples: "(\<And>k. sound_stmt (s k)) \<Longrightarrow> pooled (probe_samples s ks)"
  by (induction ks) (simp_all add: pooled_call pooled_ret closed_pooled closed_explainOnce)

lemma pooled_ProbeExec: "pooled (ProbeExec plans arm p c now)"
  unfolding ProbeExec_def Let_def
  by (intro pooled_call pooled_ret pooled_probe_samples sound_criticalStatement)

end
