(* ===== verification/BenchTraffic.thy ===== *)
theory BenchTraffic
  imports BenchVerify BenchProbe Purchase
begin

text \<open>
  The benchmark and the app on one database: the load generator's requests as they arrive at
  the app (bench/internal/loadgen/run.go, send), the sessions that run beside them, what the
  client makes of each request's fate (classify.go, recorder.go), and the comparison of its
  counts with the orders table (bench/internal/verify/invariants.go) once the load is over.
\<close>

section \<open>The load\<close>

text \<open>A request as the app receives it: the path is that of the URL, addr the peer.\<close>

definition arriving :: "string \<Rightarrow> outgoing \<Rightarrow> request" where
  "arriving addr rq =
     \<lparr>q_Method = og_Method rq, q_Path = ''/orders'', q_Query = [], q_Headers = og_Headers rq,
      q_Body = og_Body rq, q_RemoteAddr = addr, q_Claims = None\<rparr>"

text \<open>The load generator sends no idempotency key, so each of its requests is one purchase.\<close>

lemma load_is_purchase:
  assumes "service_of a = Inr s"
  shows "purchase a (answered (serve a s now ping pv PostOrders idp (arriving addr (outgoing_for base token body))))"
  using assms by (intro purchase.asked) (simp_all add: arriving_def outgoing_for_def get_first_def)

text \<open>What else uses the database meanwhile: the app's other work, and the probe.\<close>

inductive beside :: "app_config \<Rightarrow> api_body response option prog \<Rightarrow> bool" for a where
  app: "alongside a p \<Longrightarrow> beside a p"
| probe: "beside a (unseen (discard (ProbeExec plans arm p c now)))"

lemma beside_bystander: "beside a p \<Longrightarrow> bystander p"
proof (induction rule: beside.induct)
  case (probe plans arm p c now)
  show ?case
    unfolding bystander_def unseen_def discard_def
    by (intro conjI pooled_safe pooled_call pooled_handle pooled_ret pooled_ProbeExec
        tracks_callI [OF tracks_handleI [OF books_ProbeExec]]) (auto simp: owes_nothing_def)
qed (rule alongside_books)

section \<open>What the client learns\<close>

text \<open>The fate of a request: a transport error, or the status and the body that came back.\<close>

type_synonym fate = "transport_error + (int \<times> string)"

definition fate_outcome :: "(string \<Rightarrow> json option) \<Rightarrow> fate \<Rightarrow> outcome" where
  "fate_outcome unmarshal f =
     (case f of Inl e \<Rightarrow> ClassifyError e | Inr (status, full) \<Rightarrow> ClassifyResponse unmarshal status full)"

lemma send_outcome:
  "send new_request transport unmarshal base token body =
     (if new_request (outgoing_for base token body)
      then fate_outcome unmarshal (transport (outgoing_for base token body)) else OutcomeConnectError)"
  by (simp add: send_def fate_outcome_def Let_def)

text \<open>
  The first k threads of s serve the first k of the client's requests; those after them never
  arrived. What the client was told is what the thread answered.
\<close>

definition told :: "(api_body body \<Rightarrow> string) \<Rightarrow> api_body response option sys \<Rightarrow> nat \<Rightarrow> fate list \<Rightarrow> bool" where
  "told render s k fates =
     (k \<le> length fates \<and>
      list_all (\<lambda>i. case fates ! i of
          Inl e \<Rightarrow> True
        | Inr (status, full) \<Rightarrow>
            i < k \<and> (case answer_to s i of None \<Rightarrow> False
              | Some resp \<Rightarrow> status = r_Status resp \<and> full = render (r_Body resp))) [0..<length fates])"

definition told_reserved :: "outcome list \<Rightarrow> int" where
  "told_reserved os = int (length (filter (\<lambda>x. x = OutcomeReserved) os))"

definition told_nothing :: "outcome list \<Rightarrow> int" where
  "told_nothing os = int (length (filter (\<lambda>x. x = OutcomeTimeout \<or> x = OutcomeConnectError) os))"

lemma classified:
  "ClassifyError e \<in> {OutcomeTimeout, OutcomeConnectError}"
  "ClassifyResponse u st b \<notin> {OutcomeTimeout, OutcomeConnectError}"
  "ClassifyResponse u st b = OutcomeReserved \<longleftrightarrow> st = 201"
  "500 \<le> st \<Longrightarrow> ClassifyResponse u st b = OutcomeServerError"
  by (auto simp: ClassifyError_def ClassifyResponse_def Let_def split: option.split)

text \<open>The totals of the recorder are those of the requests it sent.\<close>

definition sent_outcomes :: "recorder \<Rightarrow> outcome list" where
  "sent_outcomes r = filter (\<lambda>x. x \<noteq> OutcomeGeneratorSaturated) (outcome r)"

lemma filter_upt: "length (filter (\<lambda>i. P (xs ! i)) [0..<length xs]) = length (filter P xs)"
proof -
  have "filter P (map ((!) xs) [0..<length xs]) = map ((!) xs) (filter (P \<circ> (!) xs) [0..<length xs])"
    by (rule filter_map)
  then show ?thesis by (simp add: map_nth comp_def)
qed

lemma recorder_totals:
  assumes "recorder_ok n n r"
  shows "totalReserved r = told_reserved (sent_outcomes r)" "totalUnknown r = told_nothing (sent_outcomes r)"
proof -
  have "filter (\<lambda>x. x = OutcomeReserved) (sent_outcomes r) = filter (\<lambda>x. x = OutcomeReserved) (outcome r)"
    "filter (\<lambda>x. x = OutcomeTimeout \<or> x = OutcomeConnectError) (sent_outcomes r) =
       filter (\<lambda>x. x = OutcomeTimeout \<or> x = OutcomeConnectError) (outcome r)"
    unfolding sent_outcomes_def filter_filter by (auto intro: filter_cong)
  then show "totalReserved r = told_reserved (sent_outcomes r)" "totalUnknown r = told_nothing (sent_outcomes r)"
    by (simp_all add: totalReserved_counts [OF assms] count_outcome_def totalUnknown_def told_reserved_def
        told_nothing_def filter_upt [of "\<lambda>x. x = OutcomeReserved"]
        filter_upt [of "\<lambda>x. x = OutcomeTimeout \<or> x = OutcomeConnectError"])
qed

text \<open>
  The client's counts against the app's account: each request counted as a reserve was answered
  with an order, and each order or undecided request of the app is one the client counted as a
  reserve or knows nothing of, unless it was told of a server error.
\<close>

definition weight :: "bool \<Rightarrow> nat" where
  "weight b = (if b then 1 else 0)"

lemma length_filter_sum: "length (filter P xs) = sum_list (map (\<lambda>x. weight (P x)) xs)"
  by (induction xs) (simp_all add: weight_def)

lemma told_counts:
  assumes "told render s k fates" "answers_shown k s" "os = map (fate_outcome unmarshal) fates"
    and "OutcomeServerError \<notin> set os"
  shows "told_reserved os \<le> int (length (won k s))"
    and "int (length (won k s)) + int (length (undecided k s)) \<le> told_reserved os + told_nothing os"
proof -
  let ?n = "length fates"
  let ?o = "\<lambda>i. fate_outcome unmarshal (fates ! i)"
  let ?r = "\<lambda>i. weight (?o i = OutcomeReserved)"
  let ?u = "\<lambda>i. weight (?o i = OutcomeTimeout \<or> ?o i = OutcomeConnectError)"
  let ?w = "\<lambda>i. length (case answer_to s i of None \<Rightarrow> [] | Some resp \<Rightarrow> sold_ids resp)"
  let ?v = "\<lambda>i. weight (case answer_to s i of None \<Rightarrow> True | Some resp \<Rightarrow> r_Status resp = 500)"
  have k: "k \<le> ?n" using assms(1) by (simp add: told_def)
  have nth: "os ! i = ?o i" if "i < ?n" for i
    using that assms(3) by simp
  have split: "[0..<?n] = [0..<k] @ [k..<?n]"
    using k by (metis le0 le_add_diff_inverse upt_add_eq_append)
  have fate: "case fates ! i of Inl e \<Rightarrow> True | Inr (status, full) \<Rightarrow>
      i < k \<and> (case answer_to s i of None \<Rightarrow> False
        | Some resp \<Rightarrow> status = r_Status resp \<and> full = render (r_Body resp))" if "i < ?n" for i
    using assms(1) that by (simp add: told_def list_all_iff)
  have "?o i \<noteq> OutcomeServerError" if "i < ?n" for i
    using assms(3,4) that by (metis in_set_conv_nth length_map nth_map)
  then have ok: "?o i \<noteq> OutcomeServerError" if "i < k" for i using that k by simp
  have heard: "?r i \<le> ?w i \<and> ?w i + ?v i \<le> ?r i + ?u i" if i: "i < k" for i
  proof (cases "fates ! i")
    case (Inl e)
    then have "?r i = 0" "?u i = 1"
      using classified(1) [of e] by (auto simp: fate_outcome_def weight_def)
    then show ?thesis
      using sold_ids_length by (auto simp: weight_def sold_ids_def split: option.split)
  next
    case (Inr x)
    obtain status full where x: "x = (status, full)" by (cases x)
    with Inr i k fate [of i] obtain resp where resp: "answer_to s i = Some resp" "status = r_Status resp"
      by (auto split: option.splits)
    have o': "?o i = ClassifyResponse unmarshal status full"
      using Inr x by (simp add: fate_outcome_def)
    have u: "?u i = 0" using classified(2) [of unmarshal status full] unfolding o' by (simp add: weight_def)
    have v: "?v i = 0"
      using ok [OF i] classified(4) [of status] unfolding o' resp(2) by (auto simp: resp(1) weight_def)
    have "r_Status resp = 201 \<longrightarrow> shown_order resp \<noteq> None"
      using assms(2) i resp(1) by (auto simp: answers_shown_def list_all_iff split: option.splits)
    then have "?w i = ?r i"
      unfolding o' classified(3) resp(2) by (auto simp: resp(1) weight_def sold_ids_def)
    with u v show ?thesis by simp
  qed
  have late: "?r i = 0" if "k \<le> i" "i < ?n" for i
    using that fate [of i] by (auto simp: fate_outcome_def weight_def ClassifyError_def split: sum.splits prod.splits)
  have sums: "length (won k s) = sum_list (map ?w [0..<k])" "length (undecided k s) = sum_list (map ?v [0..<k])"
    by (simp_all only: won_def length_concat map_map comp_def undecided_def length_filter_sum)
  have os: "os = map ?o ([0..<k] @ [k..<?n])"
    unfolding split [symmetric] assms(3) by (intro nth_equalityI) simp_all
  have "sum_list (map ?r [k..<?n]) = 0"
    using late by simp
  then have res: "length (filter (\<lambda>x. x = OutcomeReserved) os) = sum_list (map ?r [0..<k])"
    unfolding os by (simp add: length_filter_sum comp_def del: sum_list_eq_0_iff)
  have unk: "sum_list (map ?u [0..<k]) \<le> length (filter (\<lambda>x. x = OutcomeTimeout \<or> x = OutcomeConnectError) os)"
    unfolding os by (simp add: length_filter_sum comp_def)
  have "sum_list (map ?r [0..<k]) \<le> sum_list (map ?w [0..<k])"
    by (rule sum_list_mono) (use heard in simp)
  then show "told_reserved os \<le> int (length (won k s))"
    by (simp add: told_reserved_def res sums)
  have "sum_list (map (\<lambda>i. ?w i + ?v i) [0..<k]) \<le> sum_list (map (\<lambda>i. ?r i + ?u i) [0..<k])"
    by (rule sum_list_mono) (use heard in simp)
  then show "int (length (won k s)) + int (length (undecided k s)) \<le> told_reserved os + told_nothing os"
    using unk by (simp add: told_reserved_def told_nothing_def res sums sum_list_addf)
qed

section \<open>The comparison\<close>

text \<open>Seeding makes no orders.\<close>

lemma calm_seeding: "calm True (seeding pl now bs)"
proof -
  have "calm True (seed_products pl t is)" for t "is"
    by (induction "is") (auto intro!: calm_intros split: sum.split)
  moreover have "calm True (SeedCustomers bs)"
    by (induction bs) (auto intro!: calm_intros split: sum.split)
  ultimately show ?thesis by (auto simp: seeding_def SeedProducts_def intro!: calm_intros)
qed

lemma pooled_seeding: "pooled (seeding pl now bs)"
  by (auto simp: seeding_def SeedProducts_def intro!: good_intros pooled_seed_products pooled_SeedCustomers)

lemma seeding_no_orders:
  assumes "run [] j (seeding pl t bs) [] g = Some (cs, r, st, g0)" "locks g = []" "committed g = Reset d0"
  shows "orders (committed g0) = []"
proof -
  have b: "books lossy (seeding pl t bs) (map (sheet_of order_book) []) [] (\<lambda>r st m. m = [])"
    by (simp, rule tracks_mono [OF books_calm [OF calm_seeding]]) auto
  have "db_inv (committed g)" using assms(3) by (simp add: Reset_empty empty_inv)
  moreover have "ledger (order_ids (committed g)) [[]] (committed g)" by (simp add: ledger_def)
  ultimately have "order_ids (committed g0) = []"
    using ledger.run_tracks [OF assms(1) _ b] pooled_seeding [of pl t bs] assms(2,3)
    by (fastforce simp: pooled_def exclusive_def ledger_def Reset_def)
  then show ?thesis by simp
qed

text \<open>What the check finds while or after the load, for any counts it is given.\<close>

lemma check_decides:
  assumes "run [] j (seeding pl t bs) [] g = Some (cs, Inr ids, st, g0)" "locks g = []" "committed g = Reset d0"
    and "reachable (\<lambda>p. safe p [] finished) (initial (committed g0) n) s"
  shows "\<exists>inv. run [] i (Check drv ids (pl_Quantity pl) clientReserved clientUnknown) [] (shared s) =
      Some ([], Inr inv, [], shared s) \<and>
    (0 \<le> clientUnknown \<longrightarrow>
      (Passed inv \<longleftrightarrow> clientReserved \<le> int (length (orders (committed (shared s)))) \<and>
        int (length (orders (committed (shared s)))) \<le> clientReserved + clientUnknown))"
proof -
  let ?d = "committed (shared s)"
  have seeded: "db_inv (committed g0)"
    "\<forall>p \<in> set ids. find_stock p (committed g0) \<noteq> None \<and> capacity p (committed g0) = pl_Quantity pl"
    using seeding_spec [OF assms(1,2)] assms(3) by (simp_all add: Reset_empty empty_inv)
  have "capacity_history (committed g0) ?d"
    by (rule capacity_log.reached [OF assms(4) seeded(1)])
  moreover have inv: "db_inv ?d"
    using reachable_sound [OF assms(4) seeded(1)] by (simp add: sys_inv_def)
  ultimately have "product_sound (pl_Quantity pl) p ?d" if "p \<in> set ids" for p
    using that seeded(2) db_inv_not_oversold [OF inv, of p] db_invD(4) [OF inv, of p]
    by (auto simp: capacity_history_def product_sound_def)
  then show ?thesis
    using run_Check [of i drv ids "pl_Quantity pl" clientReserved clientUnknown "shared s"] by auto
qed

text \<open>With the client's own counts it passes, unless the client was told of a server error.\<close>

lemma honest_check:
  assumes seed: "run [] j (seeding pl t bs) [] g = Some (cs, Inr ids, st, g0)" "locks g = []" "committed g = Reset d0"
    and load: "list_all (purchase a) ps" "reaches lossy (beside a) (start_with (committed g0) n ps) s"
    and fates: "told render s (length ps) fates" "os = map (fate_outcome unmarshal) fates"
      "OutcomeServerError \<notin> set os"
  shows "\<exists>inv. run [] i (Check drv ids (pl_Quantity pl) (told_reserved os) (told_nothing os)) [] (shared s) =
      Some ([], Inr inv, [], shared s) \<and> Passed inv"
proof -
  let ?d = "committed (shared s)"
  have d0: "db_inv (committed g0)" "orders (committed g0) = []"
    using seeding_spec [OF seed(1,2)] seeding_no_orders [OF seed] seed(3) by (simp_all add: Reset_empty empty_inv)
  have near: "bystander p" if "beside a p" for p
    using that by (rule beside_bystander)
  note bal = account_balances [OF d0(1) load near]
  have "length (new_orders (committed g0) ?d) = length (orders ?d)"
    by (simp add: new_orders_def d0(2))
  moreover note told_counts [OF fates(1) bal(6) fates(2,3)]
  ultimately have "told_reserved os \<le> int (length (orders ?d))"
    "int (length (orders ?d)) \<le> told_reserved os + told_nothing os"
    using bal(3,4) by simp_all
  moreover have "0 \<le> told_nothing os" by (simp add: told_nothing_def)
  ultimately show ?thesis
    using check_decides [OF seed traffic_reachable [OF load near],
        of i drv "told_reserved os" "told_nothing os"] by blast
qed

text \<open>The counts are those of the recorder, whatever order the requests were sent in.\<close>

lemma told_mset:
  assumes "mset xs = mset ys"
  shows "told_reserved xs = told_reserved ys" "told_nothing xs = told_nothing ys" "set xs = set ys"
proof -
  have "length (filter P xs) = length (filter P ys)" for P
    using assms by (metis mset_filter size_mset)
  then show "told_reserved xs = told_reserved ys" "told_nothing xs = told_nothing ys"
    by (simp_all add: told_reserved_def told_nothing_def)
  show "set xs = set ys" using assms by (rule mset_eq_setD)
qed

lemma honest_run:
  assumes seed: "run [] j (seeding pl t bs) [] g = Some (cs, Inr ids, st, g0)" "locks g = []" "committed g = Reset d0"
    and load: "list_all (purchase a) ps" "reaches lossy (beside a) (start_with (committed g0) n ps) s"
    and fates: "told render s (length ps) fates"
    and r: "recorder_ok k k r" "mset (sent_outcomes r) = mset (map (fate_outcome unmarshal) fates)"
      "OutcomeServerError \<notin> set (outcome r)"
  shows "\<exists>inv. run [] i (Check drv ids (pl_Quantity pl) (totalReserved r) (totalUnknown r)) [] (shared s) =
      Some ([], Inr inv, [], shared s) \<and> Passed inv"
proof -
  have "OutcomeServerError \<notin> set (sent_outcomes r)" using r(3) by (simp add: sent_outcomes_def)
  then have "OutcomeServerError \<notin> set (map (fate_outcome unmarshal) fates)"
    unfolding told_mset(3) [OF r(2)] .
  from honest_check [OF seed load fates refl this, of i drv] show ?thesis
    unfolding recorder_totals [OF r(1)] told_mset [OF r(2)] .
qed

end
