(* ===== verification/Keys.thy ===== *)
theory Keys
  imports Ledger
begin

text \<open>
  One idempotency key under concurrency. Any number of requests with the same key race each
  other; who inserts the key's row owns it until it is released or carries an order. As a
  protocol: the phase of a thread says whether it owns the row, which order it has made, or
  which recorded order it has read; only the owner makes an order, changes the row or removes
  it. At most one thread is an owner, so at most one order is made.
\<close>

section \<open>The protocol of a key\<close>

datatype phase = Free | Held | Made int | Recorded int | Known int

definition on_key :: "string \<times> string \<Rightarrow> version \<Rightarrow> bool" where
  "on_key k v = (case v of WIdem old r \<Rightarrow> i_key r = k | WIdemDel r \<Rightarrow> i_key r = k | _ \<Rightarrow> False)"

text \<open>The sheet of a transaction: the orders it makes and its versions of the key's row.\<close>

type_synonym key_sheet = "int list \<times> version list"

definition row_open :: "string \<times> string \<Rightarrow> db \<Rightarrow> bool" where
  "row_open k d = (case find_idem k d of None \<Rightarrow> False | Some r \<Rightarrow> i_OrderID r = None)"

definition row_order :: "string \<times> string \<Rightarrow> db \<Rightarrow> int option" where
  "row_order k d = Option.bind (find_idem k d) i_OrderID"

primrec phase_agrees :: "string \<times> string \<Rightarrow> phase \<Rightarrow> db \<Rightarrow> bool" where
  "phase_agrees k Free d = True"
| "phase_agrees k Held d = row_open k d"
| "phase_agrees k (Made i) d = (row_open k d \<and> i \<in> set (order_ids d))"
| "phase_agrees k (Recorded i) d = (row_order k d = Some i)"
| "phase_agrees k (Known i) d = (row_order k d = Some i)"

definition phase_allows :: "phase \<Rightarrow> key_sheet \<Rightarrow> bool" where
  "phase_allows g s =
     (case snd s of
        [] \<Rightarrow> fst s = [] \<or> (g = Held \<and> length (fst s) = Suc 0)
      | v # vs \<Rightarrow> vs = [] \<and> fst s = [] \<and>
          (case v of
             WIdem None r \<Rightarrow> g = Free \<and> i_OrderID r = None
           | WIdem (Some q) r \<Rightarrow> (case g of Made i \<Rightarrow> i_OrderID r = Some i | _ \<Rightarrow> False)
           | WIdemDel r \<Rightarrow> g = Held
           | _ \<Rightarrow> False))"

definition phase_after :: "string \<times> string \<Rightarrow> phase \<Rightarrow> db \<Rightarrow> key_sheet \<Rightarrow> phase" where
  "phase_after k g d s =
     (case snd s of
        [] \<Rightarrow> (case g of
            Held \<Rightarrow> (case fst s of [] \<Rightarrow> Held | i # _ \<Rightarrow> Made i)
          | Free \<Rightarrow> (case row_order k d of None \<Rightarrow> Free | Some i \<Rightarrow> Known i)
          | _ \<Rightarrow> g)
      | v # vs \<Rightarrow> (case v of
            WIdem old r \<Rightarrow> (case i_OrderID r of None \<Rightarrow> Held | Some i \<Rightarrow> Recorded i)
          | _ \<Rightarrow> Free))"

definition key_protocol :: "string \<times> string \<Rightarrow> (phase, key_sheet) protocol" where
  "key_protocol k =
     \<lparr>blank = ([], []), jot = (\<lambda>s ws. (fst s @ births ws, snd s @ filter (on_key k) ws)),
      agrees = phase_agrees k, allowed = (\<lambda>g d s. phase_allows g s), advance = phase_after k\<rparr>"

lemma key_protocol_simps [simp]:
  "blank (key_protocol k) = ([], [])"
  "jot (key_protocol k) s ws = (fst s @ births ws, snd s @ filter (on_key k) ws)"
  "agrees (key_protocol k) = phase_agrees k" "allowed (key_protocol k) g d s = phase_allows g s"
  "advance (key_protocol k) = phase_after k"
  by (simp_all add: key_protocol_def)

lemma spares_on_key [simp]: "spares ws \<Longrightarrow> filter (on_key k) ws = []"
  by (induction ws) (auto simp: on_key_def split: version.splits)

section \<open>Its laws\<close>

definition owner_phase :: "phase \<Rightarrow> bool" where
  "owner_phase g = (case g of Held \<Rightarrow> True | Made i \<Rightarrow> True | Recorded i \<Rightarrow> True | _ \<Rightarrow> False)"

definition made_in :: "phase \<Rightarrow> int list" where
  "made_in g = (case g of Made i \<Rightarrow> [i] | Recorded i \<Rightarrow> [i] | _ \<Rightarrow> [])"

lemma phase_simps [simp]:
  "\<not> owner_phase Free" "owner_phase Held" "owner_phase (Made i)" "owner_phase (Recorded i)" "\<not> owner_phase (Known i)"
  "made_in Free = []" "made_in Held = []" "made_in (Made i) = [i]" "made_in (Recorded i) = [i]" "made_in (Known i) = []"
  by (simp_all add: owner_phase_def made_in_def)

definition key_ledger :: "string \<times> string \<Rightarrow> int list \<Rightarrow> phase list \<Rightarrow> db \<Rightarrow> bool" where
  "key_ledger k ids gs d =
     ((\<forall>i < length gs. phase_agrees k (gs ! i) d) \<and>
      (\<forall>i < length gs. \<forall>j < length gs. owner_phase (gs ! i) \<longrightarrow> owner_phase (gs ! j) \<longrightarrow> i = j) \<and>
      (\<forall>i. row_order k d = Some i \<longrightarrow> Recorded i \<in> set gs) \<and>
      mset (order_ids d) = mset ids + mset (concat (map made_in gs)))"

text \<open>The row of the key after a list of versions.\<close>

definition row_after :: "version \<Rightarrow> order_idempotency option" where
  "row_after v = (case v of WIdem old r \<Rightarrow> Some r | _ \<Rightarrow> None)"

lemma find_idem_apply:
  "find_idem k (apply_write v d) = (if on_key k v then row_after v else find_idem k d)"
  by (cases v) (auto simp: on_key_def row_after_def table_defs row_simps)

lemma key_untouched: "filter (on_key k) ws = [] \<Longrightarrow> find_idem k (applys ws d) = find_idem k d"
  by (induction ws arbitrary: d) (auto simp: find_idem_apply split: if_splits)

lemma key_touched:
  "chain d ws \<Longrightarrow> filter (on_key k) ws = [v] \<Longrightarrow>
     find_idem k (applys ws d) = row_after v \<and>
     (case v of WIdem old r \<Rightarrow> find_idem k d = old \<and> i_key r = k
      | WIdemDel r \<Rightarrow> find_idem k d = Some r \<and> i_key r = k | _ \<Rightarrow> False)"
proof (induction ws arbitrary: d)
  case (Cons w ws)
  show ?case
  proof (cases "on_key k w")
    case True
    with Cons.prems have "w = v" "filter (on_key k) ws = []" by simp_all
    with True Cons.prems(1) show ?thesis
      by (auto simp: key_untouched find_idem_apply on_key_def split: version.splits)
  next
    case False
    with Cons.prems Cons.IH [of "apply_write w d"] show ?thesis
      by (auto simp: find_idem_apply split: version.splits)
  qed
qed simp

lemma row_cases:
  "find_idem k d = None \<Longrightarrow> \<not> row_open k d \<and> row_order k d = None"
  "find_idem k d = Some r \<Longrightarrow> row_open k d = (i_OrderID r = None) \<and> row_order k d = i_OrderID r"
  by (simp_all add: row_open_def row_order_def)

lemma agrees_frame:
  "find_idem k d' = find_idem k d \<Longrightarrow> set (order_ids d) \<subseteq> set (order_ids d') \<Longrightarrow> phase_agrees k g d \<Longrightarrow> phase_agrees k g d'"
  by (cases g) (auto simp: row_open_def row_order_def)

text \<open>Nobody but an owner holds a claim against a row that is open or missing.\<close>

lemma agrees_others:
  "row_order k d = None \<Longrightarrow> phase_agrees k g d \<Longrightarrow> \<not> owner_phase g \<Longrightarrow> g = Free"
  "find_idem k d = None \<Longrightarrow> phase_agrees k g d \<Longrightarrow> g = Free"
  by (cases g; simp add: row_open_def row_order_def)+

text \<open>One step of a thread, seen from its own ghost and from the others'.\<close>

lemma phase_step:
  assumes "phase_agrees k g d" "sound_writes d ws" "phase_allows g (births ws, filter (on_key k) ws)"
    and g': "g' = phase_after k g d (births ws, filter (on_key k) ws)"
  shows "phase_agrees k g' (applys ws d)" "mset (made_in g') = mset (made_in g) + mset (births ws)"
    "phase_agrees k h d \<Longrightarrow> (owner_phase g \<longrightarrow> \<not> owner_phase h) \<Longrightarrow>
       phase_agrees k h (applys ws d) \<and> (owner_phase g' \<longrightarrow> owner_phase g \<or> \<not> owner_phase h)"
proof -
  let ?d' = "applys ws d"
  have ids: "order_ids ?d' = order_ids d @ births ws"
    using assms(2) by (rule order_ids_applys)
  have all: "phase_agrees k g' ?d' \<and> mset (made_in g') = mset (made_in g) + mset (births ws) \<and>
     (phase_agrees k h d \<longrightarrow> (owner_phase g \<longrightarrow> \<not> owner_phase h) \<longrightarrow>
       phase_agrees k h ?d' \<and> (owner_phase g' \<longrightarrow> owner_phase g \<or> \<not> owner_phase h))"
  proof (cases "filter (on_key k) ws")
    case Nil
    then have row: "find_idem k ?d' = find_idem k d" by (rule key_untouched)
    have sub: "set (order_ids d) \<subseteq> set (order_ids ?d')" using ids by auto
    note frame = agrees_frame [OF row sub]
    have "row_order k ?d' = row_order k d" "row_open k ?d' = row_open k d"
      using row by (simp_all add: row_order_def row_open_def)
    with assms(1,3) Nil show ?thesis
      unfolding g' using frame [of h] ids
      by (cases g) (auto simp: phase_after_def phase_allows_def length_Suc_conv split: option.splits)
  next
    case (Cons v vs)
    with assms(3) have vs: "vs = []" "births ws = []" by (simp_all add: phase_allows_def)
    have "chain d ws" using assms(2) by (simp add: sound_writes_def)
    from key_touched [OF this Cons [unfolded vs(1)]]
    have row: "find_idem k ?d' = row_after v" and old: "case v of WIdem old r \<Rightarrow> find_idem k d = old \<and> i_key r = k
      | WIdemDel r \<Rightarrow> find_idem k d = Some r \<and> i_key r = k | _ \<Rightarrow> False"
      by blast+
    have others: "h = Free" if "phase_agrees k h d" "owner_phase g \<longrightarrow> \<not> owner_phase h"
    proof (cases "find_idem k d")
      case None
      with that(1) show ?thesis by (rule agrees_others(2) [rotated])
    next
      case (Some q)
      with assms(1,3) Cons vs old have "row_order k d = None \<and> owner_phase g"
        by (cases v; cases g) (auto simp: phase_allows_def row_open_def row_order_def split: option.splits)
      with that agrees_others(1) show ?thesis by blast
    qed
    have "phase_agrees k g' ?d' \<and> made_in g' = made_in g"
      using assms(1,3) Cons vs old row ids unfolding g'
      by (cases v; cases g)
        (auto simp: phase_after_def phase_allows_def row_after_def row_open_def row_order_def split: option.splits)
    with others vs show ?thesis by auto
  qed
  then show "phase_agrees k g' ?d'" "mset (made_in g') = mset (made_in g) + mset (births ws)"
    "phase_agrees k h d \<Longrightarrow> (owner_phase g \<longrightarrow> \<not> owner_phase h) \<Longrightarrow>
       phase_agrees k h ?d' \<and> (owner_phase g' \<longrightarrow> owner_phase g \<or> \<not> owner_phase h)"
    by blast+
qed

lemma phase_row:
  assumes "sound_writes d ws" "phase_allows g (births ws, filter (on_key k) ws)"
  shows "row_order k (applys ws d) = Some i \<Longrightarrow>
      row_order k d = Some i \<or> phase_after k g d (births ws, filter (on_key k) ws) = Recorded i"
    and "g = Recorded i \<Longrightarrow> phase_after k g d (births ws, filter (on_key k) ws) = Recorded i"
proof -
  show "row_order k d = Some i \<or> phase_after k g d (births ws, filter (on_key k) ws) = Recorded i"
    if "row_order k (applys ws d) = Some i"
  proof (cases "filter (on_key k) ws")
    case Nil
    then show ?thesis using that key_untouched [OF Nil] by (simp add: row_order_def)
  next
    case (Cons v vs)
    with assms(2) have "vs = []" by (simp add: phase_allows_def)
    with key_touched [of d ws k v] Cons assms(1) have "find_idem k (applys ws d) = row_after v"
      by (simp add: sound_writes_def)
    with that Cons show ?thesis
      by (cases v) (simp_all add: row_order_def row_after_def phase_after_def)
  qed
  show "phase_after k g d (births ws, filter (on_key k) ws) = Recorded i" if "g = Recorded i"
    using assms(2) that
    by (auto simp: phase_allows_def phase_after_def split: list.splits version.splits option.splits)
qed

lemma mset_concat_update:
  "i < length xs \<Longrightarrow> mset y = mset (xs ! i) + b \<Longrightarrow> mset (concat (xs[i := y])) = mset (concat xs) + b"
  by (induction xs arbitrary: i) (auto split: nat.split)

lemma key_ledger_move:
  assumes "key_ledger k ids gs d" "i < length gs" "sound_writes d ws"
    and "phase_allows (gs ! i) (births ws, filter (on_key k) ws)"
  shows "key_ledger k ids (gs[i := phase_after k (gs ! i) d (births ws, filter (on_key k) ws)]) (applys ws d)"
proof -
  define g' where "g' = phase_after k (gs ! i) d (births ws, filter (on_key k) ws)"
  have agr: "phase_agrees k (gs ! j) d" if "j < length gs" for j
    using assms(1) that by (simp add: key_ledger_def)
  note step = phase_step [OF agr [OF assms(2)] assms(3,4) g'_def]
  have other: "phase_agrees k (gs ! j) (applys ws d) \<and> (owner_phase g' \<longrightarrow> owner_phase (gs ! i) \<or> \<not> owner_phase (gs ! j))"
    if "j < length gs" "j \<noteq> i" for j
    using step(3) [OF agr [OF that(1)]] assms(1,2) that by (auto simp: key_ledger_def)
  have "map made_in (gs[i := g']) = (map made_in gs)[i := made_in g']" by (simp add: map_update)
  then have "mset (concat (map made_in (gs[i := g']))) = mset (concat (map made_in gs)) + mset (births ws)"
    using mset_concat_update [of i "map made_in gs" "made_in g'"] assms(2) step(2) by simp
  moreover have "mset (order_ids d) = mset ids + mset (concat (map made_in gs))"
    using assms(1) by (simp add: key_ledger_def)
  ultimately have "mset (order_ids (applys ws d)) = mset ids + mset (concat (map made_in (gs[i := g'])))"
    using order_ids_applys [OF assms(3)] by simp
  moreover have "a = b" if "a < length gs" "b < length gs" "owner_phase (gs[i := g'] ! a)" "owner_phase (gs[i := g'] ! b)" for a b
    using that assms(1,2) other [of a] other [of b]
    by (auto simp: nth_list_update key_ledger_def split: if_splits)
  moreover have "Recorded a \<in> set (gs[i := g'])" if "row_order k (applys ws d) = Some a" for a
  proof -
    from phase_row(1) [OF assms(3,4) that] assms(1) have "Recorded a \<in> set gs \<or> g' = Recorded a"
      by (auto simp: g'_def key_ledger_def)
    then obtain j where "j < length gs" "(gs[i := g']) ! j = Recorded a"
      using phase_row(2) [OF assms(3,4), of a] assms(2) unfolding g'_def
      by (metis in_set_conv_nth nth_list_update_eq nth_list_update_neq)
    then show ?thesis by (metis length_list_update nth_mem)
  qed
  ultimately show ?thesis
    unfolding g'_def [symmetric] key_ledger_def
    using step(1) other assms(2) by (auto simp: nth_list_update)
qed

interpretation keys: protocol_laws "key_protocol k" "key_ledger k ids" Free for k ids
proof
  show "sheets_add (key_protocol k)" by (simp add: sheets_add_def)
  show "key_ledger k ids (gs[i := advance (key_protocol k) (gs ! i) d (jot (key_protocol k) (blank (key_protocol k)) ws)]) (applys ws d)"
    if "key_ledger k ids gs d" "db_inv d" "i < length gs" "sound_writes d ws"
      "allowed (key_protocol k) (gs ! i) d (jot (key_protocol k) (blank (key_protocol k)) ws)" for gs d i ws
    using key_ledger_move [OF that(1,3,4)] that(5) by simp
  show "key_ledger k ids gs (burns sq d) = key_ledger k ids gs d" for gs sq d
  proof -
    have "phase_agrees k g (burns sq d) = phase_agrees k g d" for g
      by (cases g) (simp_all add: row_open_def row_order_def row_simps)
    moreover have "row_order k (burns sq d) = row_order k d" by (simp add: row_order_def row_simps)
    ultimately show ?thesis by (simp add: key_ledger_def)
  qed
qed (auto simp: key_ledger_def nth_append less_Suc_eq)

section \<open>From the books to the key\<close>

text \<open>
  What is known of the orders a program makes, and that it touches no key, is enough to know
  how it moves the phase of the key's owner.
\<close>

definition widen :: "sheet \<Rightarrow> txstate \<times> key_sheet" where
  "widen t = (fst t, (snd t, []))"

lemma widen_simps [simp]: "widen (s, b) = (s, b, [])" "fst (widen t) = fst t" "snd (widen t) = (snd t, [])"
  by (simp_all add: widen_def)

definition phase_of :: "int list \<Rightarrow> phase" where
  "phase_of m = (case m of [] \<Rightarrow> Held | i # _ \<Rightarrow> Made i)"

lemma phase_grows:
  assumes "length (m @ b) \<le> 1"
  shows "phase_allows (phase_of m) (b, [])" "phase_after k (phase_of m) d (b, []) = phase_of (m @ b)"
  using assms by (cases m; cases b; simp add: phase_of_def phase_allows_def phase_after_def)+

lemma books_to_key:
  assumes "books F p st m Q" "writes spares tx p" "\<And>r st' m'. Q r st' m' \<Longrightarrow> length m' \<le> 1"
  shows "tracks (key_protocol k) F p (map widen st) (phase_of m)
    (\<lambda>r st' g. \<exists>st0 m'. st' = map widen st0 \<and> g = phase_of m' \<and> Q r st0 m')"
  using assms(1,2)
proof (induction p arbitrary: st m rule: prog_induct)
  case (Stmt f h)
  let ?R = "key_protocol k" and ?Q = "\<lambda>r st' g. \<exists>st0 m'. st' = map widen st0 \<and> g = phase_of m' \<and> Q r st0 m'"
  have lost: "books F (h x) st' m' Q \<Longrightarrow> tracks ?R F (h x) (map widen st') (phase_of m') ?Q" for x st' m'
    using Stmt.IH(2) Stmt.prems(2) by simp
  have on: "spares ws \<and> (books F q st' m' Q \<longrightarrow> tracks ?R F q (map widen st') (phase_of m') ?Q)"
    if "f e = ((ws, sq, ab), q)" for e ws sq ab q st' m'
    using Stmt.IH(1) [of e st' m'] Stmt.prems(2) that by (auto dest: spec [of _ e])
  show ?case
  proof (cases st)
    case Nil
    have pool: "phase_allows (phase_of m) (births ws', []) \<and>
        tracks ?R F q [] (phase_after k (phase_of m) (view e) (births ws', [])) ?Q \<and>
        (\<forall>x. F (LostReply x) \<longrightarrow> tracks ?R F (h x) [] (phase_after k (phase_of m) (view e) (births ws', [])) ?Q) \<and>
        filter (on_key k) ws' = []"
      if f: "f e = ((ws, sq, ab), q)" and ws': "ws' = (if ab then [] else ws)" for e ws sq ab q ws'
    proof -
      have b: "books F q [] (m @ births ws') Q" "\<And>x. F (LostReply x) \<Longrightarrow> books F (h x) [] (m @ births ws') Q"
        using Stmt.prems(1) Nil f ws' by (auto simp: Let_def dest!: spec [of _ e])
      have len: "length (m @ births ws') \<le> 1"
        using books_grow [OF b(1)] assms(3) by fastforce
      have "filter (on_key k) ws' = []" using on [OF f] ws' by simp
      moreover have "tracks ?R F q [] (phase_of (m @ births ws')) ?Q"
        using on [OF f, of "[]" "m @ births ws'"] b(1) by simp
      moreover have "tracks ?R F (h x) [] (phase_of (m @ births ws')) ?Q" if "F (LostReply x)" for x
        using lost [of x "[]" "m @ births ws'"] b(2) [OF that] by simp
      ultimately show ?thesis
        by (simp only: phase_grows [OF len]) blast
    qed
    have "\<And>x. F (LostRequest x) \<Longrightarrow> tracks ?R F (h x) [] (phase_of m) ?Q"
      using lost [of _ "[]" m] Stmt.prems(1) Nil by simp
    with Nil pool show ?thesis
      by (simp add: Let_def split_beta prod_eq_iff)
  next
    case (Cons t ts)
    show ?thesis
    proof (cases "fst t")
      case TxLive
      have "tracks ?R F (h x) ((TxFailed, (snd t, [])) # map widen ts) (phase_of m) ?Q" if "may_fail F x" for x
        using lost [of x "(TxFailed, snd t) # ts" m] Stmt.prems(1) Cons TxLive that by simp
      moreover have "(ab \<longrightarrow> tracks ?R F q ((TxFailed, (snd t, [])) # map widen ts) (phase_of m) ?Q) \<and>
          (\<not> ab \<longrightarrow> tracks ?R F q ((TxLive, (snd t @ births ws, filter (on_key k) ws)) # map widen ts) (phase_of m) ?Q)"
        if f: "f e = ((ws, sq, ab), q)" for e ws sq ab q
        using on [OF f, of "(TxFailed, snd t) # ts" m] on [OF f, of "(TxLive, snd t @ births ws) # ts" m]
          Stmt.prems(1) Cons TxLive f
        by (auto dest!: spec [of _ e])
      ultimately show ?thesis
        using Cons TxLive by (simp add: split_beta prod_eq_iff)
    qed (use Stmt.prems(1) Cons lost [of _ st m] in simp_all)
  qed
next
  case (Begin b)
  then show ?case using Begin.IH [of None "(TxLive, []) # st" m] by auto
next
  case (Commit b)
  show ?case
  proof (cases st)
    case (Cons t ts)
    show ?thesis
    proof (cases "fst t")
      case TxLive
      have "length (m @ snd t) \<le> 1"
        using books_grow [of F "b None" "(TxDone, []) # ts" "m @ snd t" Q] assms(3) Commit.prems Cons TxLive by fastforce
      note grow = phase_grows [OF this]
      from Commit.prems Cons TxLive grow Commit.IH [of None "(TxDone, []) # ts" "m @ snd t"]
        Commit.IH [of _ "(TxDone, []) # ts" "m @ snd t"] Commit.IH [of _ "(TxFailed, snd t) # ts" m]
      show ?thesis by auto
    next
      case TxFailed
      with Commit Cons Commit.IH [of "Some ErrCommitRollback" "(TxDone, []) # ts" m] show ?thesis by auto
    next
      case TxDone
      with Commit Cons Commit.IH [of "Some ErrTxClosed" "t # ts" m] show ?thesis by auto
    qed
  next
    case Nil
    with Commit Commit.IH [of "Some ErrTxClosed" "[]" m] show ?thesis by auto
  qed
next
  case (Rollback q)
  with Rollback.IH [of "tl st" m] show ?case by (auto simp: map_tl)
next
  case (Mem f)
  then show ?case by (auto simp: split_beta)
qed auto

end
