(* ===== verification/Retries.thy ===== *)
theory Retries
  imports Keys Purchase
begin

text \<open>
  The idempotent reserve under concurrency. Any number of requests to POST /orders that carry
  the same key of the same caller race each other, with the rest of the process beside them:
  between them they make at most one order, and every 201 shows it. This rests on
  one thing of the network: that the answers of the database arrive. When the answer to
  a commit is lost the wrapper takes the reserve for failed and gives the key up
  (ambiguous_commit_reserves_twice in Spec2Isabelle).
\<close>

section \<open>The wrapper on its key\<close>

text \<open>The fault this rests on: a request may be lost on its way, an answer not.\<close>

fun replies_arrive :: "choice \<Rightarrow> bool" where
  "replies_arrive Healthy = True"
| "replies_arrive (LostRequest e) = lost e"
| "replies_arrive (LostReply e) = False"

lemma spare_sales [calm_intros]:
  "stmt_writes spares (CreateOrder cid p amount expires)" "stmt_writes spares (ReserveAndCreateOrder p cid expires)"
  by (auto simp: stmt_writes_def CreateOrder_def ReserveAndCreateOrder_def insert_order_def reply_defs Let_def
      split: option.splits if_splits)

lemma stmt_spares: "calm_stmt s \<Longrightarrow> stmt_writes spares s"
  by (auto simp: stmt_writes_def makes_nothing_spares)

context calm_resolver
begin

lemma spare_arm: "writes spares True (arm_Reserve Resolve a p)"
proof -
  note [calm_intros] = calm_spares [OF calm_Resolve] stmt_spares [OF calm_reads(1)] stmt_spares [OF calm_statements(1)]
  have unit: "writes spares True (reserve_unit pid)" for pid
    unfolding reserve_unit_def by (auto intro!: calm_intros split: sum.split)
  have "writes spares True (txn_Reserve Resolve rl p)" for rl
    unfolding txn_Reserve_def txn_body_def Let_def by (auto intro!: calm_intros unit)
  moreover have "writes spares True (cte_Reserve Resolve p)"
    unfolding cte_Reserve_def by (auto intro!: calm_intros split: sum.split)
  ultimately show ?thesis by (cases a) simp_all
qed

text \<open>The reserve of the request that holds the key.\<close>

lemma tracks_arm:
  "tracks (key_protocol k) replies_arrive (arm_Reserve Resolve a p) [] Held
     (\<lambda>r st g. st = [] \<and> (case r of Inr order \<Rightarrow> g = Made (o_ID order) | Inl e \<Rightarrow> g = Held))"
proof -
  have "books replies_arrive (arm_Reserve Resolve a p) [] [] (\<lambda>r st ids. st = [] \<and> books_order replies_arrive r ids)"
    using honest_arm [of replies_arrive a p] by (simp add: honest_reserve_def)
  note key = books_to_key [OF this spare_arm, where k = k]
  have "tracks (key_protocol k) replies_arrive (arm_Reserve Resolve a p) (map widen []) (phase_of [])
      (\<lambda>r st g. st = [] \<and> (case r of Inr order \<Rightarrow> g = Made (o_ID order) | Inl e \<Rightarrow> g = Held))"
    by (rule tracks_mono [OF key]) (auto simp: books_order_def phase_of_def split: sum.splits)
  then show ?thesis by (simp add: phase_of_def)
qed

end

definition recorded_as :: "error + order \<Rightarrow> phase \<Rightarrow> bool" where
  "recorded_as r g = (case r of Inl e \<Rightarrow> True
     | Inr order \<Rightarrow> g = Made (o_ID order) \<or> g = Recorded (o_ID order) \<or> g = Known (o_ID order))"

lemma recorded_as_Inl [simp]: "recorded_as (Inl e) g"
  by (simp add: recorded_as_def)

lemma find_idem_key: "find_idem k d = Some r \<Longrightarrow> i_key r = k"
  by (auto simp: find_idem_def dest: find_by_SomeD)

lemma tracks_release:
  "tracks (key_protocol (s, k)) replies_arrive (handle (exec (ReleaseIdempotencyKey s k)) (\<lambda>_. throw e)) [] Held
     (\<lambda>r st g. st = [] \<and> recorded_as r g)"
  by (intro tracks_handleI [where ?Q0.0 = "\<lambda>r st g. st = []"] tracks_exec_pool)
    (auto simp: recorded_as_def ReleaseIdempotencyKey_def phase_allows_def on_key_def row_open_def find_idem_key
      split: option.splits)

lemma tracks_complete:
  "tracks (key_protocol (s, k)) replies_arrive (handle (exec (CompleteIdempotencyKey s k (o_ID order))) (\<lambda>_. ret order)) []
     (Made (o_ID order)) (\<lambda>r st g. st = [] \<and> recorded_as r g)"
proof (rule tracks_handleI)
  show "tracks (key_protocol (s, k)) replies_arrive (exec (CompleteIdempotencyKey s k (o_ID order))) [] (Made (o_ID order))
      (\<lambda>r st g. st = [] \<and> (g = Made (o_ID order) \<or> g = Recorded (o_ID order)))"
  proof (rule tracks_exec_pool)
    fix e r ws sq g'
    let ?R = "key_protocol (s, k)"
    assume a: "agrees ?R (Made (o_ID order)) (view e)" "CompleteIdempotencyKey s k (o_ID order) e = Reply r ws sq"
      and g': "g' = advance ?R (Made (o_ID order)) (view e) (jot ?R (blank ?R) (if server_error r then [] else ws))"
    obtain q where q: "find_idem (s, k) (view e) = Some q" "i_OrderID q = None"
      using a(1) by (auto simp: row_open_def split: option.splits)
    have "find_order (o_ID order) (view e) \<noteq> None"
      using a(1) by (auto simp: find_order_def find_by_None_iff)
    with a(2) q have "r = Inr ()" "ws = [WIdem (Some q) (q\<lparr>i_OrderID := Some (o_ID order)\<rparr>)]"
      by (auto simp: CompleteIdempotencyKey_def)
    with g' find_idem_key [OF q(1)]
    show "allowed ?R (Made (o_ID order)) (view e) (jot ?R (blank ?R) (if server_error r then [] else ws)) \<and>
        ([] = [] \<and> (g' = Made (o_ID order) \<or> g' = Recorded (o_ID order))) \<and>
        (\<forall>x. replies_arrive (LostReply x) \<longrightarrow> [] = [] \<and> (g' = Made (o_ID order) \<or> g' = Recorded (o_ID order)))"
      by (simp add: server_error_def phase_allows_def phase_after_def on_key_def i_key_def)
  qed simp
qed (auto simp: recorded_as_def)

lemma tracks_replay:
  assumes "g = Free \<or> (\<exists>i. g = Known i)"
  shows "tracks (key_protocol (idem_key_of p)) replies_arrive (replay p hash) [] g (\<lambda>r st g. st = [] \<and> recorded_as r g)"
proof -
  let ?R = "key_protocol (idem_key_of p)"
  have find: "tracks ?R replies_arrive (exec (FindIdempotencyKey (Subject (rp_Claims p)) (rp_IdempotencyKey p))) [] g
      (\<lambda>r st g. st = [] \<and> (case r of Inl e \<Rightarrow> True | Inr q \<Rightarrow> (\<forall>i. i_OrderID q = Some i \<longrightarrow> g = Known i)))"
    using assms
    by (intro tracks_exec_pool)
      (auto simp: FindIdempotencyKey_def reply_defs server_error_def phase_allows_def phase_after_def row_order_def
        split: option.splits)
  have "tracks ?R replies_arrive (exec (FindOrderByIDPlain i)) [] (Known i) (\<lambda>r st g. st = [] \<and> recorded_as r g)" for i
    by (intro tracks_exec_pool)
      (auto simp: FindOrderByIDPlain_def reply_defs server_error_def phase_allows_def phase_after_def recorded_as_def
        find_order_def split: option.splits dest!: find_by_SomeD)
  then show ?thesis
    unfolding replay_def
    by (intro tracks_handleI [OF find]) (auto split: sum.split option.split)
qed

lemma tracks_claim:
  "tracks (key_protocol (s, k)) replies_arrive (exec (ClaimIdempotencyKey s k h)) [] Free
     (\<lambda>r st g. st = [] \<and> (case r of Inr q \<Rightarrow> g = Held \<and> i_CognitoSub q = s \<and> i_IdemKey q = k
        | Inl e \<Rightarrow> g = Free \<or> (\<exists>i. g = Known i)))"
  by (intro tracks_exec_pool)
    (auto simp: ClaimIdempotencyKey_def reply_defs server_error_def phase_allows_def phase_after_def Let_def on_key_def
      i_key_def split: option.splits)

lemma tracks_idem:
  assumes "keyed p" and inner: "tracks (key_protocol (idem_key_of p)) replies_arrive (inner p) [] Held
     (\<lambda>r st g. st = [] \<and> (case r of Inr order \<Rightarrow> g = Made (o_ID order) | Inl e \<Rightarrow> g = Held))"
  shows "tracks (key_protocol (idem_key_of p)) replies_arrive (idem_Reserve sum256 inner p) [] Free
     (\<lambda>r st g. st = [] \<and> recorded_as r g)"
proof -
  let ?R = "key_protocol (idem_key_of p)"
  have owned: "tracks ?R replies_arrive (reserveAndRecord inner p q) [] Held (\<lambda>r st g. st = [] \<and> recorded_as r g)"
    if "i_CognitoSub q = Subject (rp_Claims p)" "i_IdemKey q = rp_IdempotencyKey p" for q
    unfolding reserveAndRecord_def that
    by (rule tracks_handleI [OF inner]) (auto simp: tracks_release tracks_complete split: sum.splits)
  have "tracks ?R replies_arrive (throw e) [] g (\<lambda>r st g. st = [] \<and> recorded_as r g)" for e g
    by (simp add: recorded_as_def)
  then show ?thesis
    using assms(1) unfolding idem_Reserve_def Let_def keyed_def
    by (auto intro!: tracks_handleI [OF tracks_claim] simp: owned tracks_replay split: sum.splits)
qed

context calm_resolver
begin

lemma tracks_wrapped:
  assumes "keyed p"
  shows "tracks (key_protocol (idem_key_of p)) replies_arrive
    (strategy_Reserve sum256 Resolve (WithIdempotency (Arm a)) p) [] Free (\<lambda>r st g. st = [] \<and> recorded_as r g)"
  using tracks_idem [OF assms tracks_arm] by simp

end

section \<open>The requests that share a key\<close>

definition keyed_reply :: "error + api_body response \<Rightarrow> (txstate \<times> key_sheet) list \<Rightarrow> phase \<Rightarrow> bool" where
  "keyed_reply r st g = (case r of Inl e \<Rightarrow> False
     | Inr resp \<Rightarrow> r_Status resp = 201 \<longrightarrow>
         (\<exists>i. shown_order resp = Some i \<and> (g = Made i \<or> g = Recorded i \<or> g = Known i)))"

lemma tracks_refused: "r_Status x \<noteq> 201 \<Longrightarrow> tracks R F (respond x) [] g keyed_reply"
  by (simp add: respond_def keyed_reply_def)

lemma service_keyed:
  assumes "service_of a = Inr s" "ac_idempotency a" "keyed p"
  shows "tracks (key_protocol (idem_key_of p)) replies_arrive (reserve_by s p) [] Free (\<lambda>r st g. st = [] \<and> recorded_as r g)"
  using assms(1,2) calm_direct.tracks_wrapped [OF assms(3)] calm_cached.tracks_wrapped [OF assms(3)]
  by (auto simp: service_of_def mount_reserve_def Let_def simp del: strategy_Reserve.simps split: sum.splits if_splits)

lemma tracks_CreateOrder:
  assumes "service_of a = Inr s" "ac_idempotency a"
    and "q_Claims r = Some cl" "Subject cl \<noteq> []"
    and "get_first ''Idempotency-Key'' (q_Headers r) = key" "key \<noteq> []"
  shows "tracks (key_protocol (Subject cl, key)) replies_arrive (h_CreateOrder drv parse s now r) [] Free keyed_reply"
proof -
  have "tracks (key_protocol (Subject cl, key)) replies_arrive (handle (svc_CreateOrder s now productID cl key) (\<lambda>x. case x of
          Inl e \<Rightarrow> respond (writeOrderError drv e)
        | Inr order \<Rightarrow> respond (Write 201 (OneOrder (fromOrder order []))))) [] Free keyed_reply" for productID
    using service_keyed [OF assms(1,2), of "\<lparr>rp_ProductID = productID, rp_Claims = cl,
        rp_ExpiresAt = now + reservationTTL s, rp_IdempotencyKey = key\<rparr>"] assms(4,6)
    unfolding svc_CreateOrder_def
    by (intro tracks_handleI [where ?Q0.0 = "\<lambda>r st g. st = [] \<and> recorded_as r g"])
      (auto simp: keyed_def recorded_as_def respond_def keyed_reply_def shown_order_def fromOrder_def error_status split: sum.splits)
  with assms(3,5) show ?thesis
    by (auto simp: h_CreateOrder_def FromContext_def tracks_refused split: option.split)
qed

text \<open>A purchase under the key k: its token, if it verifies, is that of the key's caller.\<close>

inductive keyed_purchase :: "app_config \<Rightarrow> string \<times> string \<Rightarrow> api_body response option prog \<Rightarrow> bool" for a k where
  asked: "service_of a = Inr s \<Longrightarrow> q_Claims r = None \<Longrightarrow>
     (\<forall>raw c. bearerToken r = Some raw \<longrightarrow> Verify (ac_verify a) raw = Inr c \<longrightarrow> Subject c = fst k) \<Longrightarrow>
     get_first ''Idempotency-Key'' (q_Headers r) = snd k \<Longrightarrow>
     keyed_purchase a k (answered (serve a s now ping pv PostOrders idp r))"
| refused: "keyed_purchase a k (answered (respond too_many))"

definition keyed_answer :: "error + api_body response option \<Rightarrow> (txstate \<times> key_sheet) list \<Rightarrow> phase \<Rightarrow> bool" where
  "keyed_answer r st g = (case r of Inr (Some resp) \<Rightarrow> keyed_reply (Inr resp) st g | _ \<Rightarrow> False)"

lemma keyed_purchase_tracks:
  assumes "keyed_purchase a k p" "ac_idempotency a" "fst k \<noteq> []" "snd k \<noteq> []"
  shows "safe p [] finished \<and> tracks (key_protocol k) replies_arrive p [] Free keyed_answer"
  using assms(1)
proof cases
  case (asked s r now ping pv idp)
  let ?h = "handler_of a s now ping pv PostOrders idp"
  have "tracks (key_protocol k) replies_arrive (serve a s now ping pv PostOrders idp r) [] Free keyed_reply"
  proof (cases rule: Middleware_cases [of respond "ac_verify a" ?h r])
    case (passed raw c)
    with asked(4) have c: "k = (Subject c, snd k)" by (metis prod.collapse)
    have "tracks (key_protocol (Subject c, snd k)) replies_arrive (?h (NewContext c r)) [] Free keyed_reply"
      using assms(2-4) asked(2,5) c tracks_CreateOrder [of a s "NewContext c r" c "snd k"]
      by (simp add: NewContext_def) (metis fst_conv)
    with passed(3) c show ?thesis by (simp add: serve_def authed_def)
  qed (simp add: serve_def authed_def tracks_refused)
  then have "tracks (key_protocol k) replies_arrive p [] Free keyed_answer"
    unfolding asked(1) answered_def
    by (rule tracks_callI) (auto simp: keyed_answer_def keyed_reply_def)
  moreover have "safe p [] finished"
    unfolding asked(1) answered_def by (intro pooled_safe pooled_call pooled_serve [OF asked(2)] pooled_ret)
  ultimately show ?thesis by blast
next
  case refused
  show ?thesis
    unfolding refused answered_def
    by (intro conjI pooled_safe pooled_call pooled_respond pooled_ret tracks_callI [OF tracks_refused])
      (auto simp: keyed_reply_def keyed_answer_def too_many_def WriteError_def write_body_def)
qed

text \<open>Whatever makes nothing never owns the key.\<close>

lemma idle_phase [simp]:
  "phase_allows g ([], [])" "\<not> owner_phase g \<Longrightarrow> \<not> owner_phase (phase_after k g d ([], []))"
  by (auto simp: phase_allows_def phase_after_def owner_phase_def split: phase.splits option.split)

lemma tracks_calm_key:
  "calm True p \<Longrightarrow> list_all (\<lambda>t. snd t = ([], [])) st \<Longrightarrow> \<not> owner_phase g \<Longrightarrow>
     tracks (key_protocol k) F p st g (\<lambda>r st' g'. \<not> owner_phase g')"
proof (induction p arbitrary: st g rule: prog_induct)
  case (Stmt f h)
  then show ?case
    by (cases st) (auto split: txstate.splits prod.splits simp: split_beta Let_def makes_nothing_def)
next
  case (Commit b)
  then show ?case by (cases st) (auto split: txstate.splits)
next
  case (Rollback p)
  then show ?case by (cases st) auto
qed (auto simp: split_beta)

lemma calm_unseen_key:
  "calm True p \<Longrightarrow> pooled p \<Longrightarrow>
     safe (unseen p) [] finished \<and> tracks (key_protocol k) F (unseen p) [] Free (\<lambda>r st g. \<not> owner_phase g)"
  unfolding unseen_def
  by (intro conjI pooled_safe pooled_call pooled_ret tracks_calm_key) (auto intro!: calm_intros)

lemma alongside_keys:
  "alongside a p \<Longrightarrow> safe p [] finished \<and> tracks (key_protocol k) F p [] Free (\<lambda>r st g. \<not> owner_phase g)"
proof (induction rule: alongside.induct)
  case (other s r rt now ping pv idp)
  then show ?case by (intro calm_unseen_key writes_discard calm_serve pooled_discard pooled_serve)
next
  case (job p)
  then show ?case by (intro calm_unseen_key calm_job pooled_job)
qed

section \<open>One key, one order\<close>

lemma concat_at_most_one:
  "\<forall>i < length xs. \<forall>j < length xs. xs ! i \<noteq> [] \<longrightarrow> xs ! j \<noteq> [] \<longrightarrow> i = j \<Longrightarrow> \<forall>x \<in> set xs. length x \<le> 1 \<Longrightarrow>
     length (concat xs) \<le> 1"
proof (induction xs)
  case (Cons x xs)
  show ?case
  proof (cases "x = []")
    case True
    with Cons show ?thesis by fastforce
  next
    case False
    with Cons.prems(1) have "xs ! j = []" if "j < length xs" for j
      using that by fastforce
    then have "concat (x # xs) = x" by (auto simp: in_set_conv_nth)
    with Cons.prems(2) show ?thesis by (simp only: list.set_intros(1))
  qed
qed simp

lemma made_once:
  assumes "key_ledger k ids gs d"
  shows "length (concat (map made_in gs)) \<le> 1"
proof (rule concat_at_most_one)
  have own: "owner_phase g" if "made_in g \<noteq> []" for g
    using that by (cases g) simp_all
  then show "\<forall>i < length (map made_in gs). \<forall>j < length (map made_in gs).
      map made_in gs ! i \<noteq> [] \<longrightarrow> map made_in gs ! j \<noteq> [] \<longrightarrow> i = j"
    using assms by (auto simp: key_ledger_def)
qed (auto simp: made_in_def split: phase.split)

lemma answer_made:
  assumes "key_ledger k ids gs d" "i < length gs" "tracks (key_protocol k) F (th_prog (threads s ! i)) st (gs ! i) keyed_answer"
    and "answer_to s i = Some resp" "x \<in> set (sold_ids resp)"
  shows "x \<in> set (concat (map made_in gs))"
proof -
  have "th_prog (threads s ! i) = Return (Inr (Some resp))"
    using assms(4) by (cases "th_prog (threads s ! i)") (auto simp: answer_to_def split: sum.splits)
  moreover have sold: "r_Status resp = 201"
    using assms(5) by (rule contrapos_pp) (simp add: sold_ids_def)
  moreover have "shown_order resp = Some x"
    using assms(5) sold by (cases "shown_order resp") (simp_all add: sold_ids_def)
  ultimately have g: "gs ! i = Made x \<or> gs ! i = Recorded x \<or> gs ! i = Known x"
    using assms(3) by (simp add: keyed_answer_def keyed_reply_def)
  have "Recorded x \<in> set gs" if "gs ! i = Known x"
    using assms(1,2) that by (auto simp: key_ledger_def dest: spec [of _ i])
  with g nth_mem [OF assms(2)] have "Made x \<in> set gs \<or> Recorded x \<in> set gs" by auto
  then show ?thesis by force
qed

lemma key_account:
  assumes "db_inv d" "find_idem k d = None" "ac_idempotency a" "fst k \<noteq> []" "snd k \<noteq> []"
    and "list_all (keyed_purchase a k) ps" "reaches replies_arrive (alongside a) (start_with d n ps) s"
  shows "set (won (length ps) s) \<subseteq> set (new_orders d (committed (shared s)))"
    "length (new_orders d (committed (shared s))) \<le> 1"
proof -
  let ?d = "committed (shared s)" and ?Q0 = "\<lambda>r st g. \<not> owner_phase g"
  have ps: "safe p [] finished \<and> tracks (key_protocol k) replies_arrive p [] Free keyed_answer" if "p \<in> set ps" for p
    by (rule keyed_purchase_tracks [OF _ assms(3-5)]) (use assms(6) that in \<open>simp add: list_all_iff\<close>)
  have "key_ledger k (order_ids d) [] d" using assms(2) by (simp add: key_ledger_def row_order_def)
  then have "sys_inv s \<and> (\<exists>gs. tracked (key_protocol k) replies_arrive (length ps) keyed_answer ?Q0 s gs \<and>
      key_ledger k (order_ids d) gs ?d)"
    by (rule keys.reaches_tracked [OF assms(7,1)]) (erule ps, erule alongside_keys)
  then obtain gs where inv: "sys_inv s" and t: "tracked (key_protocol k) replies_arrive (length ps) keyed_answer ?Q0 s gs"
    and l: "key_ledger k (order_ids d) gs ?d"
    by blast
  have "distinct (order_ids ?d)" using inv db_invD(1) by (auto simp: sys_inv_def)
  moreover have "mset (order_ids ?d) = mset (order_ids d) + mset (concat (map made_in gs))"
    using l by (simp add: key_ledger_def)
  ultimately have new: "mset (new_orders d ?d) = mset (concat (map made_in gs))"
    unfolding new_orders_def by (rule mset_added(1) [rotated])
  then show "length (new_orders d ?d) \<le> 1" using made_once [OF l] by (metis size_mset)
  have "x \<in> set (concat (map made_in gs))" if "i < length ps" "answer_to s i = Some resp" "x \<in> set (sold_ids resp)" for i resp x
  proof (rule answer_made [OF l _ _ that(2,3)])
    show "i < length gs" "tracks (key_protocol k) replies_arrive (th_prog (threads s ! i))
        (map (sheet_of (key_protocol k)) (th_txs (threads s ! i))) (gs ! i) keyed_answer"
      using t that(1) by (auto simp: tracked_def dest!: spec [of _ i])
  qed
  moreover have "\<exists>i < length ps. \<exists>resp. answer_to s i = Some resp \<and> x \<in> set (sold_ids resp)"
    if "x \<in> set (won (length ps) s)" for x
    using that by (auto simp: won_def split: option.splits) (metis)
  ultimately have "set (won (length ps) s) \<subseteq> set (concat (map made_in gs))" by blast
  with new show "set (won (length ps) s) \<subseteq> set (new_orders d ?d)" by (metis set_mset_mset)
qed

end
