(* ===== verification/FakeOidc.thy ===== *)
theory FakeOidc
  imports BenchExec
begin

text \<open>
  The stand-in for the Cognito user pool (internal/testsupport/fakeoidc/fakeoidc.go), the way
  the benchmark (bench/internal/workload/tokens.go) and the tests (internal/testsupport/oidc.go)
  start it and mint with it, and auth.NewVerifier, which discovers it. Times are in nanoseconds.

  The two libraries it is built on are parameters: go-jose signs, go-oidc discovers an issuer
  and verifies a raw token. What their documentation promises is stated in discovery_law and
  token_law, for the documents and the token at hand.
\<close>

section \<open>The libraries\<close>

record jwk =
  jk_Key :: string
  jk_KeyID :: string
  jk_Algorithm :: string
  jk_Use :: string

text \<open>
  jose_sign takes the signing key, the key id of the header and the payload. A discovered
  provider is the issuer and the place of its keys.
\<close>

record oidc_lib =
  jose_public :: "string \<Rightarrow> string"
  jose_sign :: "string \<Rightarrow> string \<Rightarrow> json \<Rightarrow> error + string"
  oidc_NewProvider :: "(string \<Rightarrow> error + json) \<Rightarrow> string \<Rightarrow> error + (string \<times> string)"
  oidc_Verify :: "(string \<Rightarrow> error + jwk list) \<Rightarrow> string \<times> string \<Rightarrow> string \<Rightarrow> int \<Rightarrow> string \<Rightarrow> error + (string \<times> json)"

definition RS256 :: string where "RS256 = ''RS256''"

definition DiscoveryPath :: string where "DiscoveryPath = ''/.well-known/openid-configuration''"
definition JWKSPath :: string where "JWKSPath = ''/.well-known/jwks.json''"

text \<open>Discovery succeeds when the document names the issuer it was asked for.\<close>

definition discovery_law :: "oidc_lib \<Rightarrow> (string \<Rightarrow> error + json) \<Rightarrow> string \<Rightarrow> bool" where
  "discovery_law lib fetch url =
     (\<forall>d iss keys. fetch (url @ DiscoveryPath) = Inr (JObj d) \<and>
        map_of d ''issuer'' = Some (JStr iss) \<and> map_of d ''jwks_uri'' = Some (JStr keys) \<longrightarrow>
        (if iss = url then oidc_NewProvider lib fetch url = Inr (url, keys)
         else \<exists>e. oidc_NewProvider lib fetch url = Inl e))"

text \<open>
  A signed payload with the four registered claims verifies when the issuer is the provider's,
  the audience is the client, it has not expired, and the provider's keys advertise, under the
  key id of its header, the public half of the key it is signed with; and otherwise it does not.
\<close>

definition token_law :: "oidc_lib \<Rightarrow> string \<Rightarrow> string \<Rightarrow> (string \<times> json) list \<Rightarrow> bool" where
  "token_law lib sk kid ms =
     (\<forall>raw iss aud sub ex fetch p client now ks.
        jose_sign lib sk kid (JObj ms) = Inr raw \<and> map_of ms ''iss'' = Some (JStr iss) \<and>
        map_of ms ''aud'' = Some (JStr aud) \<and> map_of ms ''sub'' = Some (JStr sub) \<and>
        map_of ms ''exp'' = Some (JInt ex) \<and> fetch (snd p) = Inr ks \<longrightarrow>
        (if iss = fst p \<and> aud = client \<and> now \<le> ex * Second \<and>
            (\<exists>k \<in> set ks. jk_Key k = jose_public lib sk \<and> jk_KeyID k = kid \<and> jk_Algorithm k = RS256 \<and> jk_Use k = ''sig'')
         then oidc_Verify lib fetch p client now raw = Inr (sub, JObj ms)
         else \<exists>e. oidc_Verify lib fetch p client now raw = Inl e))"

text \<open>auth.NewVerifier: what it gives is the parameter of Auth.Verify, at the time of the request.\<close>

definition NewVerifier ::
  "oidc_lib \<Rightarrow> (string \<Rightarrow> error + json) \<Rightarrow> (string \<Rightarrow> error + jwk list) \<Rightarrow> string \<Rightarrow> string \<Rightarrow>
     error + (int \<Rightarrow> string \<Rightarrow> error + (string \<times> json))" where
  "NewVerifier lib docs keys issuerURL clientID =
     (case oidc_NewProvider lib docs issuerURL of
        Inl e \<Rightarrow> Inl e
      | Inr provider \<Rightarrow> Inr (\<lambda>now raw. oidc_Verify lib keys provider clientID now raw))"

section \<open>The issuer\<close>

record issuer =
  is_key :: string
  is_keyID :: string
  is_audience :: string
  is_url :: string

text \<open>The claims are Auth's: the same three fields. A zero Expiry is None.\<close>

record mint_options =
  mo_Issuer :: string
  mo_Audience :: string
  mo_Expiry :: "int option"
  mo_RogueKey :: bool

definition ordinary :: mint_options where
  "ordinary = \<lparr>mo_Issuer = [], mo_Audience = [], mo_Expiry = None, mo_RogueKey = False\<rparr>"

text \<open>rsa.GenerateKey is random: what it gives is an argument.\<close>

definition New_issuer :: "error + string \<Rightarrow> string \<Rightarrow> error + issuer" where
  "New_issuer generated defaultAudience =
     (case generated of
        Inl e \<Rightarrow> Inl (Wrapped ''generate signing key'' e)
      | Inr k \<Rightarrow> Inr \<lparr>is_key = k, is_keyID = ''test-key-1'', is_audience = defaultAudience, is_url = []\<rparr>)"

definition SetURL :: "string \<Rightarrow> issuer \<Rightarrow> issuer" where
  "SetURL u i = i\<lparr>is_url := u\<rparr>"

text \<open>A map is marshalled with its keys in order.\<close>

definition serveDiscovery :: "issuer \<Rightarrow> json response" where
  "serveDiscovery i = Write 200 (JObj
     [(''authorization_endpoint'', JStr (is_url i @ ''/authorize'')),
      (''id_token_signing_alg_values_supported'', JArr [JStr RS256]),
      (''issuer'', JStr (is_url i)),
      (''jwks_uri'', JStr (is_url i @ JWKSPath)),
      (''response_types_supported'', JArr [JStr ''code'']),
      (''subject_types_supported'', JArr [JStr ''public'']),
      (''token_endpoint'', JStr (is_url i @ ''/token''))])"

definition serveJWKS :: "oidc_lib \<Rightarrow> issuer \<Rightarrow> jwk list response" where
  "serveJWKS lib i = Write 200
     [\<lparr>jk_Key = jose_public lib (is_key i), jk_KeyID = is_keyID i, jk_Algorithm = RS256, jk_Use = ''sig''\<rparr>]"

text \<open>The mux of New: the two documents at their paths, 404 elsewhere.\<close>

datatype document = Discovery "json response" | KeySet "jwk list response" | NotFound

definition issuer_Handler :: "oidc_lib \<Rightarrow> issuer \<Rightarrow> string \<Rightarrow> document" where
  "issuer_Handler lib i path =
     (if path = DiscoveryPath then Discovery (serveDiscovery i)
      else if path = JWKSPath then KeySet (serveJWKS lib i) else NotFound)"

text \<open>The payload; iat is a minute ago. The groups are left out when there are none.\<close>

definition claimSet :: "int \<Rightarrow> claims \<Rightarrow> string \<Rightarrow> string \<Rightarrow> int \<Rightarrow> (string \<times> json) list" where
  "claimSet now c issuer audience expiry =
     [(''aud'', JStr audience)] @
     (if Groups c \<noteq> [] then [(''cognito:groups'', JArr (map JStr (Groups c)))] else []) @
     [(''email'', JStr (Email c)), (''email_verified'', JBool True), (''exp'', JInt (expiry div Second)),
      (''iat'', JInt ((now - 60 * Second) div Second)), (''iss'', JStr issuer), (''sub'', JStr (Subject c)),
      (''token_use'', JStr ''id'')]"

definition mint_payload :: "issuer \<Rightarrow> int \<Rightarrow> claims \<Rightarrow> mint_options \<Rightarrow> (string \<times> json) list" where
  "mint_payload i now c opts =
     (let issuer = (if mo_Issuer opts = [] then is_url i else mo_Issuer opts);
          audience = (if mo_Audience opts = [] then is_audience i else mo_Audience opts);
          expiry = (case mo_Expiry opts of None \<Rightarrow> now + 3600 * Second | Some t \<Rightarrow> t)
      in claimSet now c issuer audience expiry)"

definition signing_key :: "issuer \<Rightarrow> error + string \<Rightarrow> mint_options \<Rightarrow> error + string" where
  "signing_key i rogue opts =
     (if mo_RogueKey opts then (case rogue of Inl e \<Rightarrow> Inl (Wrapped ''generate rogue key'' e) | Inr k \<Rightarrow> Inr k)
      else Inr (is_key i))"

definition Mint :: "oidc_lib \<Rightarrow> issuer \<Rightarrow> int \<Rightarrow> error + string \<Rightarrow> claims \<Rightarrow> mint_options \<Rightarrow> error + string" where
  "Mint lib i now rogue c opts =
     (case signing_key i rogue opts of
        Inl e \<Rightarrow> Inl e
      | Inr sk \<Rightarrow> (case jose_sign lib sk (is_keyID i) (JObj (mint_payload i now c opts)) of
            Inl e \<Rightarrow> Inl (Wrapped ''sign token'' e)
          | Inr token \<Rightarrow> Inr token))"

section \<open>A running issuer\<close>

text \<open>
  What is fetched from it over the network: base is where its listener is bound. StartIssuer
  and NewIssuer set the URL from the bound listener before they serve.
\<close>

definition docs_at :: "oidc_lib \<Rightarrow> string \<Rightarrow> issuer \<Rightarrow> string \<Rightarrow> error + json" where
  "docs_at lib base i u =
     (if \<not> has_prefix u base then Inl (Infra ''connection refused'')
      else (case issuer_Handler lib i (drop (length base) u) of
          Discovery resp \<Rightarrow> (case r_Body resp of Data j \<Rightarrow> Inr j | _ \<Rightarrow> Inl (Infra ''not a document''))
        | _ \<Rightarrow> Inl (Infra ''not a document'')))"

definition keys_at :: "oidc_lib \<Rightarrow> string \<Rightarrow> issuer \<Rightarrow> string \<Rightarrow> error + jwk list" where
  "keys_at lib base i u =
     (if \<not> has_prefix u base then Inl (Infra ''connection refused'')
      else (case issuer_Handler lib i (drop (length base) u) of
          KeySet resp \<Rightarrow> (case r_Body resp of Data ks \<Rightarrow> Inr ks | _ \<Rightarrow> Inl (Infra ''not a key set''))
        | _ \<Rightarrow> Inl (Infra ''not a key set'')))"

definition start_issuer :: "error + string \<Rightarrow> error + string \<Rightarrow> error + issuer" where
  "start_issuer generated listen =
     (case New_issuer generated Audience of
        Inl e \<Rightarrow> Inl (Wrapped ''build issuer'' e)
      | Inr inner \<Rightarrow>
          (case listen of
             Inl e \<Rightarrow> Inl (Wrapped ''bind issuer'' e)
           | Inr addr \<Rightarrow> Inr (SetURL (''http://'' @ addr) inner)))"

text \<open>The signature MintBuyers asks for, with an expiry of its own.\<close>

definition bench_mint :: "oidc_lib \<Rightarrow> issuer \<Rightarrow> int \<Rightarrow> int \<Rightarrow> string \<Rightarrow> string \<Rightarrow> error + string" where
  "bench_mint lib i now ttl sub mail =
     Mint lib i now (Inl (Infra ''unused'')) \<lparr>Subject = sub, Email = mail, Groups = []\<rparr> (ordinary\<lparr>mo_Expiry := Some (now + ttl)\<rparr>)"

text \<open>The tokens of the tests.\<close>

definition TestClientID :: string where "TestClientID = ''test-client-id''"
definition VendorGroup :: string where "VendorGroup = ''vendors''"

definition Token_options :: mint_options where "Token_options = ordinary"
definition ExpiredToken_options :: "int \<Rightarrow> mint_options" where
  "ExpiredToken_options now = ordinary\<lparr>mo_Expiry := Some (now - 60 * Second)\<rparr>"
definition WrongAudienceToken_options :: mint_options where
  "WrongAudienceToken_options = ordinary\<lparr>mo_Audience := ''some-other-client''\<rparr>"
definition WrongIssuerToken_options :: mint_options where
  "WrongIssuerToken_options = ordinary\<lparr>mo_Issuer := ''https://evil.example.test''\<rparr>"
definition BadSignatureToken_options :: mint_options where
  "BadSignatureToken_options = ordinary\<lparr>mo_RogueKey := True\<rparr>"

text \<open>Buyer and Vendor: fresh identities, from two readings of the clock.\<close>

definition Buyer_claims :: "int \<Rightarrow> int \<Rightarrow> int \<Rightarrow> claims" where
  "Buyer_claims n t1 t2 =
     \<lparr>Subject = ''sub-buyer-'' @ show_int n @ ''-'' @ show_int t1,
      Email = ''buyer-'' @ show_int n @ ''-'' @ show_int t2 @ ''@example.test'', Groups = []\<rparr>"

definition Vendor_claims :: "int \<Rightarrow> int \<Rightarrow> int \<Rightarrow> claims" where
  "Vendor_claims n t1 t2 =
     \<lparr>Subject = ''sub-vendor-'' @ show_int n @ ''-'' @ show_int t1,
      Email = ''vendor-'' @ show_int n @ ''-'' @ show_int t2 @ ''@example.test'', Groups = [VendorGroup]\<rparr>"

text \<open>NewIssuer; t.Fatalf is Inl.\<close>

definition NewIssuer :: "error + string \<Rightarrow> string \<Rightarrow> error + issuer" where
  "NewIssuer generated addr =
     (case New_issuer generated TestClientID of
        Inl e \<Rightarrow> Inl (Wrapped ''build fake issuer'' e)
      | Inr inner \<Rightarrow> Inr (SetURL (''http://'' @ addr) inner))"

section \<open>Minting and verifying\<close>

text \<open>What a minted token must be, to pass at the time later.\<close>

definition genuine :: "issuer \<Rightarrow> int \<Rightarrow> mint_options \<Rightarrow> int \<Rightarrow> bool" where
  "genuine i now opts later =
     (\<not> mo_RogueKey opts \<and> mo_Issuer opts \<in> set [[], is_url i] \<and> mo_Audience opts \<in> set [[], is_audience i] \<and>
      later \<le> (case mo_Expiry opts of None \<Rightarrow> now + 3600 * Second | Some t \<Rightarrow> t) div Second * Second)"

lemma discovered:
  assumes "discovery_law lib (docs_at lib (is_url i) i) (is_url i)"
  shows "NewVerifier lib (docs_at lib (is_url i) i) keys (is_url i) client =
    Inr (\<lambda>now raw. oidc_Verify lib keys (is_url i, is_url i @ JWKSPath) client now raw)"
proof -
  have "docs_at lib (is_url i) i (is_url i @ DiscoveryPath) = Inr (case r_Body (serveDiscovery i) of Data j \<Rightarrow> j)"
    by (simp add: docs_at_def issuer_Handler_def serveDiscovery_def)
  with assms show ?thesis
    by (auto simp: discovery_law_def serveDiscovery_def NewVerifier_def)
qed

text \<open>Of the tests' tokens the ordinary one is good for an hour, the others never.\<close>

lemma test_tokens:
  assumes "0 \<le> later - now" "later - now < 3599 * Second" "is_audience i = TestClientID" "is_url i = ''http://'' @ addr"
  shows "genuine i now Token_options later" "\<not> genuine i now (ExpiredToken_options now) later"
    "\<not> genuine i now WrongAudienceToken_options later" "\<not> genuine i now WrongIssuerToken_options later"
    "\<not> genuine i now BadSignatureToken_options later"
proof -
  have second: "t - Second < t div Second * Second" "t div Second * Second \<le> t" for t
    unfolding Second_def by presburger+
  show "genuine i now Token_options later"
    using assms(2) second(1) [of "now + 3600 * Second"]
    by (simp add: genuine_def Token_options_def ordinary_def)
  show "\<not> genuine i now (ExpiredToken_options now) later"
    using assms(1) second(2) [of "now - 60 * Second"]
    by (simp add: genuine_def ExpiredToken_options_def ordinary_def Second_def)
qed (use assms(3,4) in \<open>simp_all add: genuine_def WrongAudienceToken_options_def WrongIssuerToken_options_def
    BadSignatureToken_options_def ordinary_def TestClientID_def\<close>)

text \<open>An issuer that serves before its URL is set is refused.\<close>

lemma discovered_unset:
  assumes "discovery_law lib (docs_at lib base i) base" "is_url i = []" "base \<noteq> []"
  shows "\<exists>e. NewVerifier lib (docs_at lib base i) keys base client = Inl e"
proof -
  have "docs_at lib base i (base @ DiscoveryPath) = Inr (case r_Body (serveDiscovery i) of Data j \<Rightarrow> j)"
    by (simp add: docs_at_def issuer_Handler_def serveDiscovery_def)
  with assms show ?thesis
    by (auto simp: discovery_law_def serveDiscovery_def NewVerifier_def)
qed

lemma payload_members:
  "map_of (claimSet now c iss aud expiry) ''iss'' = Some (JStr iss)"
  "map_of (claimSet now c iss aud expiry) ''aud'' = Some (JStr aud)"
  "map_of (claimSet now c iss aud expiry) ''sub'' = Some (JStr (Subject c))"
  "map_of (claimSet now c iss aud expiry) ''exp'' = Some (JInt (expiry div Second))"
  by (simp_all add: claimSet_def)

text \<open>Verify reads the claims out of the payload as they were put in.\<close>

lemma string_list_strs: "string_list (JArr (map JStr gs)) = Some gs"
  by (simp add: string_list_def decode_string_def list_all_iff comp_def)

lemma Verify_claimSet:
  "idv raw = Inr (Subject c, JObj (claimSet now c iss aud expiry)) \<Longrightarrow> Verify idv raw = Inr c"
  by (cases c; cases "Groups c = []")
    (simp_all add: Verify_def claimSet_def decode_struct_def claims_field_def same_field_def lower_char_def
      decode_string_def string_list_strs)

lemma keys_found:
  "keys_at lib (is_url i) i (is_url i @ JWKSPath) =
     Inr [\<lparr>jk_Key = jose_public lib (is_key i), jk_KeyID = is_keyID i, jk_Algorithm = RS256, jk_Use = ''sig''\<rparr>]"
  by (simp add: keys_at_def issuer_Handler_def serveJWKS_def JWKSPath_def DiscoveryPath_def)

lemma mint_verifies:
  assumes "Mint lib i now rogue c opts = Inr raw" "signing_key i rogue opts = Inr sk"
    and "token_law lib sk (is_keyID i) (mint_payload i now c opts)"
    and "mo_RogueKey opts \<Longrightarrow> jose_public lib sk \<noteq> jose_public lib (is_key i)"
  shows "if genuine i now opts later
    then Verify (oidc_Verify lib (keys_at lib (is_url i) i) (is_url i, is_url i @ JWKSPath) (is_audience i) later) raw = Inr c
    else \<exists>e. Verify (oidc_Verify lib (keys_at lib (is_url i) i) (is_url i, is_url i @ JWKSPath) (is_audience i) later) raw = Inl e"
proof -
  let ?idv = "oidc_Verify lib (keys_at lib (is_url i) i) (is_url i, is_url i @ JWKSPath) (is_audience i) later"
  let ?ms = "mint_payload i now c opts"
  obtain iss aud expiry where ms: "?ms = claimSet now c iss aud expiry"
    "iss = (if mo_Issuer opts = [] then is_url i else mo_Issuer opts)"
    "aud = (if mo_Audience opts = [] then is_audience i else mo_Audience opts)"
    "expiry = (case mo_Expiry opts of None \<Rightarrow> now + 3600 * Second | Some t \<Rightarrow> t)"
    by (simp add: mint_payload_def Let_def)
  have sign: "jose_sign lib sk (is_keyID i) (JObj ?ms) = Inr raw"
    using assms(1,2) by (auto simp: Mint_def split: sum.splits)
  have key: "jose_public lib (is_key i) = jose_public lib sk \<longleftrightarrow> \<not> mo_RogueKey opts"
    using assms(2,4) by (auto simp: signing_key_def split: if_splits)
  have "if iss = is_url i \<and> aud = is_audience i \<and> later \<le> expiry div Second * Second \<and> \<not> mo_RogueKey opts
      then ?idv raw = Inr (Subject c, JObj ?ms) else \<exists>e. ?idv raw = Inl e"
    using assms(3) [unfolded token_law_def, rule_format, of raw iss aud "Subject c" "expiry div Second"
        "keys_at lib (is_url i) i" "(is_url i, is_url i @ JWKSPath)" _ "is_audience i" later]
      sign ms(1) key by (simp add: payload_members keys_found)
  moreover have "genuine i now opts later \<longleftrightarrow>
      iss = is_url i \<and> aud = is_audience i \<and> later \<le> expiry div Second * Second \<and> \<not> mo_RogueKey opts"
    unfolding genuine_def ms by auto
  ultimately show ?thesis
    using Verify_claimSet [of ?idv raw c now iss aud expiry] ms(1) by (auto simp: Verify_def)
qed

text \<open>The pool of buyers of a benchmark run: as many callers as asked for, no two the same.\<close>

lemma mint_from_buyers:
  "mint_from mint is = Inr bs \<Longrightarrow>
     map by_Subject bs = map (\<lambda>i. ''sub-bench-'' @ show_nat i) is \<and>
     (\<forall>b \<in> set bs. mint (by_Subject b) (by_Email b) = Inr (by_Token b))"
  by (induction "is" arbitrary: bs) (auto simp: Let_def split: sum.splits)

lemma minted_buyers:
  assumes "MintBuyers (bench_mint lib i now ttl) n = Inr buyers"
  shows "length buyers = n" "distinct (map by_Subject buyers)"
    and "b \<in> set buyers \<Longrightarrow> bench_mint lib i now ttl (by_Subject b) (by_Email b) = Inr (by_Token b)"
proof -
  have subs: "map by_Subject buyers = map (\<lambda>i. ''sub-bench-'' @ show_nat i) [0..<n]"
    and tokens: "\<forall>b \<in> set buyers. bench_mint lib i now ttl (by_Subject b) (by_Email b) = Inr (by_Token b)"
    using mint_from_buyers assms unfolding MintBuyers_def by blast+
  show "length buyers = n" using subs by (metis length_map length_upt minus_nat.diff_0)
  have "inj show_nat" by (metis injI read_show_nat)
  then show "distinct (map by_Subject buyers)"
    unfolding subs by (simp add: distinct_map inj_on_def)
  show "b \<in> set buyers \<Longrightarrow> bench_mint lib i now ttl (by_Subject b) (by_Email b) = Inr (by_Token b)"
    using tokens by blast
qed

end
