(* ===== verification/JsonRound.thy ===== *)
theory JsonRound
  imports JsonText
begin

text \<open>
  What encoding/json writes it reads back (decode_encode), each string as its UTF-8 reading, and
  the fuel of the parser is enough for every text (fuel_enough).
\<close>

section \<open>Strings come back clean\<close>

lemma continues_take: "continues lo hi k cs \<Longrightarrow> k \<le> length cs \<and> continues lo hi k (take k cs @ x)"
  by (cases k; cases cs) (simp_all add: continues_def min_absorb2)

lemma rune_more_take: "rune_more c cs = Some k \<Longrightarrow> k \<le> length cs \<and> rune_more c (take k cs @ x) = Some k"
  using continues_take [of _ _ k cs x] by (auto simp: rune_more_def split: option.splits if_splits)

lemma rune_more_zero: "rune_more c cs = Some 0 \<longleftrightarrow> byte c < 128"
  by (auto simp: rune_more_def rune_tail_def continues_def split: if_splits)

lemma rune_more_high: "rune_more c cs = Some k \<Longrightarrow> 0 < k \<Longrightarrow> 128 \<le> byte c"
  by (auto simp: rune_more_def rune_tail_def split: if_splits)

lemma hex_value_digit [simp]: "n < 16 \<Longrightarrow> hex_value (hex_digit n) = Some n"
  by (auto simp: hex_value_def hex_digit_def Let_def of_char_of)

lemma put_front_simps [simp]: "put_front x (Some (s, r)) = Some (x @ s, r)" "put_front x None = None"
  by (simp_all add: put_front_def)

lemma hex4_low: "n < 128 \<Longrightarrow> hex4 (CHR ''0'' # CHR ''0'' # hex_digit (n div 16) # hex_digit (n mod 16) # s) = Some n"
  by (simp add: hex_value_def [of "CHR ''0''"])

lemma unquote_escape:
  assumes "byte c < 128" "unquote s = Some (x, r)"
  shows "unquote (escape c @ s) = Some (c # x, r)"
proof -
  have "unquote (c # s) = Some (c # x, r)" if "c \<noteq> dquote" "c \<noteq> backslash" "32 \<le> byte c"
    using that assms rune_more_zero [of c s] by simp
  moreover have "unicode_escape (CHR ''0'' # CHR ''0'' # hex_digit (byte c div 16) # hex_digit (byte c mod 16) # s) = Some ([c], 4)"
    using assms(1) by (simp add: unicode_escape_def hex4_low utf8_def del: hex4.simps)
  moreover have chars: "byte c = n \<Longrightarrow> char_of n = c" for n :: nat
    by auto
  ultimately show ?thesis
    using assms unfolding escape_def by (auto simp: unescape_def not_less chars)
qed

lemma unquote_rune:
  assumes "rune_more c cs = Some k" "0 < k" "unquote s = Some (x, r)"
  shows "unquote (escape_rune (c # take k cs) @ s) = Some (c # take k cs @ x, r)"
proof -
  have len: "length (take k cs) = k" and more: "rune_more c (take k cs @ s) = Some k"
    using rune_more_take [OF assms(1)] by auto
  have "c \<noteq> dquote" "c \<noteq> backslash" "\<not> byte c < 32" using rune_more_high [OF assms(1,2)] by auto
  then have "unquote ((c # take k cs) @ s) = Some (c # take k cs @ x, r)"
    using more len assms(3) by simp
  moreover have "unquote (backslash # ''u2028'' @ s) = Some (utf8 8232 @ x, r)"
    "unquote (backslash # ''u2029'' @ s) = Some (utf8 8233 @ x, r)"
    using assms(3) by (simp_all add: unicode_escape_def hex_value_def)
  ultimately show ?thesis by (auto simp: escape_rune_def)
qed

lemma unquote_quote_body: "unquote (quote_body s @ dquote # rest) = Some (clean s, rest)"
proof (induction s rule: quote_body.induct)
  case (2 c cs)
  show ?case
  proof (cases "rune_more c cs")
    case None
    with 2 show ?thesis by (simp add: unicode_escape_def hex_value_def replacement_def)
  next
    case (Some k)
    with 2 have ih: "unquote (quote_body (drop k cs) @ dquote # rest) = Some (clean (drop k cs), rest)" by blast
    show ?thesis
    proof (cases "k = 0")
      case True
      with Some have "byte c < 128" by (simp add: rune_more_zero)
      from unquote_escape [OF this ih] Some True show ?thesis by simp
    next
      case False
      with unquote_rune [OF Some _ ih] Some show ?thesis by simp
    qed
  qed
qed simp

section \<open>Values come back\<close>

text \<open>What may follow a number.\<close>

definition ends :: "string \<Rightarrow> bool" where
  "ends s = (case s of [] \<Rightarrow> True | c # r \<Rightarrow> \<not> is_digit c \<and> c \<noteq> CHR ''.'' \<and> c \<noteq> CHR ''e'' \<and> c \<noteq> CHR ''E'')"

lemma hd_show_nat: "hd (show_nat n) = CHR ''0'' \<Longrightarrow> tl (show_nat n) = []"
proof (induction n rule: show_nat.induct)
  case (1 n)
  show ?case
  proof (cases "n < 10")
    case True
    then show ?thesis by (subst show_nat.simps) simp
  next
    case False
    then have s: "show_nat n = show_nat (n div 10) @ [digit (n mod 10)]"
      by (subst show_nat.simps) simp
    with 1 False have "show_nat (n div 10) = [CHR ''0'']" "n div 10 \<noteq> 0"
      by (cases "show_nat (n div 10)"; simp)+
    then have "read_nat (show_nat (n div 10)) = 0" "n div 10 \<noteq> 0" by (simp_all add: read_nat_def digit_value_def)
    then show ?thesis by simp
  qed
qed

lemma digits_end:
  assumes "\<forall>c \<in> set ds. is_digit c" "ends r"
  shows "takeWhile is_digit (ds @ r) = ds" "dropWhile is_digit (ds @ r) = r"
  using assms by (induction ds; cases r; simp add: ends_def)+

lemma number_ends: "ends r \<Longrightarrow> number_frac r = Some r \<and> number_exp r = Some r"
  by (cases r) (auto simp: number_frac_def number_exp_def ends_def)

lemma number_show:
  assumes "ends r"
  shows "number (show_int i @ r) = Some (JInt i, r)"
proof -
  note d = digits_end [OF show_nat_digits assms] and r = number_ends [OF assms] and lead = hd_show_nat
  have minus: "show_nat n = c # cs \<Longrightarrow> c \<noteq> CHR ''-''" for n c cs
    using show_nat_digits [of n] minus_not_digit by auto
  show ?thesis
  proof (cases "i < 0")
    case True
    have "hd (show_nat (nat (- i))) \<noteq> CHR ''0'' \<or> tl (show_nat (nat (- i))) = []" using lead by blast
    with True show ?thesis by (auto simp: number_def number_of_def show_int_def d r Let_def)
  next
    case False
    obtain c cs where c: "show_nat (nat i) = c # cs" by (metis show_nat_nonempty list.exhaust)
    have "hd (show_nat (nat i)) \<noteq> CHR ''0'' \<or> tl (show_nat (nat i)) = []" using lead by blast
    moreover have "number (show_nat (nat i) @ r) = number_of False (show_nat (nat i) @ r) (show_nat (nat i) @ r)"
      using minus [OF c] c by (simp add: number_def)
    ultimately show ?thesis using False by (auto simp: number_of_def show_int_def d r Let_def)
  qed
qed

text \<open>The values that are written as they are: no number with a fraction, nesting below d.\<close>

primrec fits :: "nat \<Rightarrow> json \<Rightarrow> bool" where
  "fits 0 v = (case v of JFrac s \<Rightarrow> False | JArr vs \<Rightarrow> False | JObj ms \<Rightarrow> False | _ \<Rightarrow> True)"
| "fits (Suc d) v =
     (case v of
        JFrac s \<Rightarrow> False
      | JArr vs \<Rightarrow> list_all (fits d) vs
      | JObj ms \<Rightarrow> list_all (\<lambda>m. fits d (snd m)) ms
      | _ \<Rightarrow> True)"

fun clean_json :: "json \<Rightarrow> json" where
  "clean_json (JStr s) = JStr (clean s)"
| "clean_json (JArr vs) = JArr (map clean_json vs)"
| "clean_json (JObj ms) = JObj (map (\<lambda>(k, v). (clean k, clean_json v)) ms)"
| "clean_json v = v"

lemma unquote_quote: "quote s = dquote # t \<Longrightarrow> unquote (t @ rest) = Some (clean s, rest)"
  using unquote_quote_body [of s rest] by (auto simp: quote_def)

lemma literal_self: "literal w v (w @ r) = Some (v, r)"
  by (simp add: literal_def)

lemma not_space: "c \<in> set [dquote, CHR ''['', CHR '']'', CHR ''{'', CHR ''}'', CHR '','', CHR '':'', CHR ''-''] \<Longrightarrow> skip_space (c # s) = c # s"
  by (auto simp: skip_space_def is_space_def)

text \<open>A rendered value starts with a byte that is no space and closes nothing.\<close>

definition starts :: "char \<Rightarrow> bool" where
  "starts c = (\<not> is_space c \<and> c \<noteq> CHR '']'' \<and> c \<noteq> CHR ''}'')"

lemma starts_digit: "is_digit c \<Longrightarrow> starts c"
  by (auto simp: starts_def is_digit_def is_space_def)

lemma render_starts: "fits d v \<Longrightarrow> \<exists>c t. json_render v = c # t \<and> starts c"
proof (cases v)
  case (JInt i)
  have "\<exists>c t. show_nat n = c # t \<and> starts c" for n
    using show_nat_digits [of n] starts_digit by (metis list.exhaust list.set_intros(1) show_nat_nonempty)
  with JInt show ?thesis by (auto simp: show_int_def) (simp add: starts_def is_space_def)
qed (cases d; auto simp: starts_def is_space_def quote_def)+

lemma number_value:
  "\<exists>c t. show_int i = c # t \<and> c \<notin> set [dquote, CHR ''['', CHR ''{'', CHR ''n'', CHR ''t'', CHR ''f'']"
proof -
  have "\<exists>c t. show_nat n = c # t \<and> is_digit c" for n
    using show_nat_digits [of n] by (metis list.exhaust list.set_intros(1) show_nat_nonempty)
  moreover have "is_digit c \<Longrightarrow> c \<notin> set [dquote, CHR ''['', CHR ''{'', CHR ''n'', CHR ''t'', CHR ''f'']" for c
    by (auto simp: is_digit_def)
  ultimately show ?thesis
    by (cases "i < 0") (auto simp: show_int_def, meson)
qed

lemma starts_skip: "starts c \<Longrightarrow> skip_space (c # s) = c # s"
  by (simp add: skip_space_def starts_def)

lemma commas_Cons: "xs \<noteq> [] \<Longrightarrow> commas (x # xs) = x @ CHR '','' # commas xs"
  by (cases xs) simp_all

lemma ends_simps [simp]: "ends []" "ends (CHR '','' # s)" "ends (CHR '']'' # s)" "ends (CHR ''}'' # s)" "ends (CHR 0x0A # s)"
  by (simp_all add: ends_def is_digit_def)

lemma commas_starts:
  assumes "vs \<noteq> []" "\<And>v. v \<in> set vs \<Longrightarrow> \<exists>c t. f v = c # t \<and> starts c"
  shows "\<exists>c t. commas (map f vs) = c # t \<and> starts c"
proof (cases vs)
  case (Cons v ws)
  with assms(2) [of v] show ?thesis by (cases "ws = []") (auto simp: commas_Cons)
qed (use assms(1) in simp)

lemma elems_render:
  assumes "\<And>v r n. v \<in> set vs \<Longrightarrow> ends r \<Longrightarrow> 2 * length (json_render v) \<le> n \<Longrightarrow> json_value n d (json_render v @ r) = Some (clean_json v, r)"
    and "\<And>v. v \<in> set vs \<Longrightarrow> \<exists>c t. json_render v = c # t \<and> starts c"
    and "vs \<noteq> []" "2 * length (commas (map json_render vs)) < n"
  shows "json_elems n d (commas (map json_render vs) @ CHR '']'' # r) = Some (map clean_json vs, r)"
  using assms
proof (induction vs arbitrary: n)
  case (Cons v vs)
  obtain m where n: "n = Suc m" using Cons.prems(4) by (cases n) auto
  show ?case
  proof (cases "vs = []")
    case True
    with Cons.prems(1) [of v "CHR '']'' # r" m] Cons.prems(4) n show ?thesis by (simp add: not_space)
  next
    case False
    then obtain c t where c: "commas (map json_render vs) = c # t" "starts c"
      using commas_starts [of vs json_render] Cons.prems(2) by auto
    have ih: "json_elems m d (commas (map json_render vs) @ CHR '']'' # r) = Some (map clean_json vs, r)"
      using Cons.prems False n by (intro Cons.IH) (auto simp: commas_Cons)
    have "json_value m d (json_render v @ CHR '','' # commas (map json_render vs) @ CHR '']'' # r) =
        Some (clean_json v, CHR '','' # commas (map json_render vs) @ CHR '']'' # r)"
      using Cons.prems(1) [of v] Cons.prems(4) False n by (simp add: commas_Cons)
    with ih c False n show ?thesis by (simp add: commas_Cons not_space starts_skip)
  qed
qed simp

abbreviation render_member :: "string \<times> json \<Rightarrow> string" where
  "render_member m \<equiv> quote (fst m) @ CHR '':'' # json_render (snd m)"

lemma render_members: "json_render (JObj ms) = CHR ''{'' # commas (map render_member ms) @ ''}''"
  by (simp add: split_def)

lemma members_render:
  assumes "\<And>v r n. v \<in> snd ` set ms \<Longrightarrow> ends r \<Longrightarrow> 2 * length (json_render v) \<le> n \<Longrightarrow> json_value n d (json_render v @ r) = Some (clean_json v, r)"
    and "\<And>v. v \<in> snd ` set ms \<Longrightarrow> \<exists>c t. json_render v = c # t \<and> starts c"
    and "ms \<noteq> []" "2 * length (commas (map render_member ms)) < n"
  shows "json_members n d (commas (map render_member ms) @ CHR ''}'' # r) =
    Some (map (\<lambda>(k, v). (clean k, clean_json v)) ms, r)"
  using assms
proof (induction ms arbitrary: n)
  case (Cons m ms)
  obtain k v where m: "m = (k, v)" by (cases m)
  obtain l where n: "n = Suc l" using Cons.prems(4) by (cases n) auto
  obtain b t where v: "json_render v = b # t" "starts b" using Cons.prems(2) [of v] m by auto
  have key: "unquote (quote_body k @ dquote # s) = Some (clean k, s)" for s
    by (rule unquote_quote_body)
  show ?case
  proof (cases "ms = []")
    case True
    with Cons.prems(1) [of v "CHR ''}'' # r" l] Cons.prems(4) n m v show ?thesis
      by (simp add: not_space starts_skip quote_def key)
  next
    case False
    have "\<exists>c t. render_member x = c # t \<and> starts c" for x
      by (simp add: quote_def starts_def is_space_def)
    with False obtain c u where c: "commas (map render_member ms) = c # u" "starts c"
      using commas_starts [of ms render_member] by blast
    have ih: "json_members l d (commas (map render_member ms) @ CHR ''}'' # r) =
        Some (map (\<lambda>(k, v). (clean k, clean_json v)) ms, r)"
      using Cons.prems False n by (intro Cons.IH) (auto simp: commas_Cons)
    have "json_value l d (json_render v @ CHR '','' # commas (map render_member ms) @ CHR ''}'' # r) =
        Some (clean_json v, CHR '','' # commas (map render_member ms) @ CHR ''}'' # r)"
      using Cons.prems(1) [of v] Cons.prems(4) False n m by (simp add: commas_Cons)
    with ih c False n m v show ?thesis
      by (simp add: commas_Cons not_space starts_skip quote_def key)
  qed
qed simp

lemma value_scalar:
  assumes "0 < n" "ends r" "\<And>vs. v \<noteq> JArr vs" "\<And>ms. v \<noteq> JObj ms" "\<And>s. v \<noteq> JFrac s"
  shows "json_value n d (json_render v @ r) = Some (clean_json v, r)"
proof -
  obtain m where n: "n = Suc m" using assms(1) by (cases n) auto
  show ?thesis
  proof (cases v)
    case (JInt i)
    obtain c t where c: "show_int i = c # t" "c \<notin> set [dquote, CHR ''['', CHR ''{'', CHR ''n'', CHR ''t'', CHR ''f'']"
      using number_value by blast
    with number_show [OF assms(2), of i] n JInt show ?thesis by simp
  next
    case (JStr s)
    with n unquote_quote_body [of s r] show ?thesis by (simp add: quote_def)
  next
    case (JBool b)
    with n literal_self [of "''true''" "JBool True" r] literal_self [of "''false''" "JBool False" r] show ?thesis by simp
  next
    case JNull
    with n literal_self [of "''null''" JNull r] show ?thesis by simp
  qed (use assms in auto)
qed

lemma value_render:
  "fits d v \<Longrightarrow> ends r \<Longrightarrow> 2 * length (json_render v) \<le> n \<Longrightarrow> json_value n d (json_render v @ r) = Some (clean_json v, r)"
proof (induction d arbitrary: v r n)
  case 0
  obtain c t where "json_render v = c # t" using render_starts [OF 0(1)] by blast
  with 0 show ?case by (intro value_scalar) auto
next
  case (Suc d)
  obtain c t where start: "json_render v = c # t" using render_starts [OF Suc.prems(1)] by blast
  consider (arr) vs where "v = JArr vs" | (obj) ms where "v = JObj ms"
    | (scalar) "\<And>vs. v \<noteq> JArr vs" "\<And>ms. v \<noteq> JObj ms" by metis
  then show ?case
  proof cases
    case arr
    have fit: "\<And>v. v \<in> set vs \<Longrightarrow> fits d v" using Suc.prems(1) arr by (simp add: list_all_iff)
    have len: "2 * length (commas (map json_render vs)) + 4 \<le> n" using Suc.prems(3) arr by simp
    then obtain m where n: "n = Suc m" "2 * length (commas (map json_render vs)) < m" by (cases n) auto
    show ?thesis
    proof (cases "vs = []")
      case False
      then obtain b u where b: "commas (map json_render vs) = b # u" "starts b"
        using commas_starts [of vs json_render] render_starts [OF fit] by blast
      have "json_elems m d (commas (map json_render vs) @ CHR '']'' # r) = Some (map clean_json vs, r)"
        by (rule elems_render [OF Suc.IH [OF fit] render_starts [OF fit] False n(2)])
      with b n(1) arr show ?thesis by (auto simp: starts_skip starts_def)
    qed (use arr n in \<open>simp add: not_space\<close>)
  next
    case obj
    have fit: "\<And>v. v \<in> snd ` set ms \<Longrightarrow> fits d v" using Suc.prems(1) obj by (auto simp: list_all_iff)
    have len: "2 * length (commas (map render_member ms)) + 4 \<le> n"
      using Suc.prems(3) unfolding obj render_members by simp
    then obtain m where n: "n = Suc m" "2 * length (commas (map render_member ms)) < m" by (cases n) auto
    show ?thesis
    proof (cases "ms = []")
      case False
      have "\<exists>c t. render_member x = c # t \<and> starts c" for x
        by (simp add: quote_def starts_def is_space_def)
      with False obtain b u where b: "commas (map render_member ms) = b # u" "starts b"
        using commas_starts [of ms render_member] by blast
      have "json_members m d (commas (map render_member ms) @ CHR ''}'' # r) =
          Some (map (\<lambda>(k, v). (clean k, clean_json v)) ms, r)"
        by (rule members_render [OF Suc.IH [OF fit] render_starts [OF fit] False n(2)])
      with b n(1) show ?thesis unfolding obj render_members by (auto simp: starts_skip starts_def)
    qed (use obj n in \<open>simp add: not_space\<close>)
  next
    case scalar
    moreover have "v \<noteq> JFrac s" for s using Suc.prems(1) by auto
    ultimately show ?thesis using Suc.prems start by (intro value_scalar) auto
  qed
qed

text \<open>What is encoded is decoded, each string read as UTF-8.\<close>

theorem decode_encode:
  assumes "fits max_nesting v"
  shows "json_decode (json_encode v) = Some (clean_json v)" "json_unmarshal (json_encode v) = Some (clean_json v)"
proof -
  obtain c t where c: "json_render v = c # t" "starts c" using render_starts [OF assms] by blast
  then have skip: "skip_space (json_encode v) = json_encode v"
    by (simp add: json_encode_def starts_skip)
  have "json_value (json_fuel (json_encode v)) max_nesting (json_encode v) = Some (clean_json v, [CHR 0x0A])"
    unfolding json_encode_def by (rule value_render [OF assms]) (simp_all add: json_fuel_def)
  moreover have "skip_space [CHR 0x0A] = []" by (simp add: skip_space_def is_space_def)
  ultimately show "json_decode (json_encode v) = Some (clean_json v)" "json_unmarshal (json_encode v) = Some (clean_json v)"
    by (simp_all add: json_decode_def json_unmarshal_def skip)
qed

section \<open>The fuel is enough\<close>

lemma put_front_Some: "put_front x p = Some (y, r) \<longleftrightarrow> (\<exists>s. p = Some (s, r) \<and> y = x @ s)"
  by (auto simp: put_front_def)

lemma unquote_shorter: "unquote s = Some (x, r) \<Longrightarrow> length r < length s"
proof (induction s arbitrary: x rule: unquote.induct)
  case (2 c cs)
  show ?case
  proof (cases "c = dquote \<or> byte c < 32")
    case True
    with 2(5) show ?thesis by (auto split: if_splits list.splits option.splits prod.splits)
  next
    case False
    then show ?thesis
      using 2(5) 2(1-4)
      by (fastforce simp: put_front_Some split: if_splits list.splits option.splits prod.splits)
  qed
qed simp

lemma skip_space_shorter: "length (skip_space s) \<le> length s"
  by (simp add: skip_space_def length_dropWhile_le)

lemma after_digits_shorter: "after_digits s = Some r \<Longrightarrow> length r \<le> length s"
  by (auto simp: after_digits_def length_dropWhile_le split: if_splits)

lemma number_parts_shorter: "number_frac s = Some r \<Longrightarrow> length r \<le> length s" "number_exp s = Some r \<Longrightarrow> length r \<le> length s"
  by (auto simp: number_frac_def number_exp_def split: list.splits if_splits dest!: after_digits_shorter)

lemma number_of_shorter: "number_of neg t s = Some (v, r) \<Longrightarrow> length r < length t"
proof -
  assume "number_of neg t s = Some (v, r)"
  then have "takeWhile is_digit t \<noteq> []" "Option.bind (number_frac (dropWhile is_digit t)) number_exp = Some r"
    by (auto simp: number_of_def Let_def bind_eq_Some_conv split: if_splits)
  moreover have "length (dropWhile is_digit t) < length t" if "takeWhile is_digit t \<noteq> []"
    using that by (cases t) (auto simp: length_dropWhile_le le_imp_less_Suc split: if_splits)
  ultimately show ?thesis by (fastforce simp: bind_eq_Some_conv dest!: number_parts_shorter)
qed

lemma number_shorter: "number s = Some (v, r) \<Longrightarrow> length r < length s"
  by (auto simp: number_def split: list.splits if_splits dest!: number_of_shorter)

lemma literal_shorter: "literal w v s = Some (v', r) \<Longrightarrow> w \<noteq> [] \<Longrightarrow> length r < length s"
  by (cases s) (auto simp: literal_def split: if_splits)

lemma shorter:
  "json_value n d s = Some (v, r) \<Longrightarrow> length r < length s"
  "json_elems n d s = Some (vs, r) \<Longrightarrow> length r < length s"
  "json_members n d s = Some (ms, r) \<Longrightarrow> length r < length s"
proof (induction n arbitrary: d s v vs ms r)
  case (Suc n)
  note skip = skip_space_shorter
  have dropped: "skip_space t = x # u \<Longrightarrow> length u < length t" for t x u
    using skip [of t] by simp
  {
    case 1
    then show ?case
      by (auto split: list.splits if_splits simp: dest!: Suc.IH unquote_shorter number_shorter literal_shorter dropped)
  next
    case 2
    obtain v r1 where e1: "json_value n d s = Some (v, r1)"
      using 2 by (cases "json_value n d s") auto
    obtain x t where e2: "skip_space r1 = x # t"
      using 2 e1 by (cases "skip_space r1") auto
    have rest: "r = t \<or> (\<exists>vs'. json_elems n d (skip_space t) = Some (vs', r))"
      using 2 e1 e2 by (auto split: if_splits)
    from rest have "length r \<le> length t"
      using Suc.IH(2) [of d "skip_space t" _ r] skip [of t] by (auto dest: less_imp_le)
    with Suc.IH(1) [OF e1] dropped [OF e2] show ?case by simp
  next
    case 3
    obtain cs where m: "s = dquote # cs" using 3 by (cases s) (auto split: if_splits)
    obtain k r1 where m1: "unquote cs = Some (k, r1)"
      using 3 m by (cases "unquote cs") auto
    obtain t where m2: "skip_space r1 = CHR '':'' # t"
      using 3 m m1 by (cases "skip_space r1") (auto split: if_splits)
    obtain v r2 where m3: "json_value n d (skip_space t) = Some (v, r2)"
      using 3 m m1 m2 by (cases "json_value n d (skip_space t)") auto
    obtain y t' where m4: "skip_space r2 = y # t'"
      using 3 m m1 m2 m3 by (cases "skip_space r2") auto
    have rest: "r = t' \<or> (\<exists>ms'. json_members n d (skip_space t') = Some (ms', r))"
      using 3 m m1 m2 m3 m4 by (auto split: if_splits)
    from rest have "length r \<le> length t'"
      using Suc.IH(3) [of d "skip_space t'" _ r] skip [of t'] by (auto dest: less_imp_le)
    moreover have "length t' < length r2" using dropped [OF m4] .
    moreover have "length r2 < length t" using Suc.IH(1) [OF m3] skip [of t] by simp
    moreover have "length t < length r1" using dropped [OF m2] .
    moreover have "length r1 < length cs" using unquote_shorter [OF m1] .
    ultimately show ?case using m by simp
  }
qed simp_all

text \<open>More fuel changes nothing once there is twice the length of the text.\<close>

lemma fuel_step:
  "2 * length s < n \<Longrightarrow> json_value (Suc n) d s = json_value n d s"
  "2 * length s + 1 < n \<Longrightarrow> json_elems (Suc n) d s = json_elems n d s"
  "2 * length s + 1 < n \<Longrightarrow> json_members (Suc n) d s = json_members n d s"
proof (induction n arbitrary: d s)
  case (Suc n)
  have dropped: "skip_space t = x # u \<Longrightarrow> length u < length t" for t x u
    using skip_space_shorter [of t] by simp
  {
    case 1
    show ?case
    proof (cases s)
      case (Cons c cs)
      have "2 * length (x # t) + 1 < n" if "skip_space cs = x # t" for x t
        using dropped [OF that] 1 Cons by simp
      with Suc.IH(2,3) Cons show ?thesis
        by (simp del: json_elems.simps json_members.simps split: list.split)
    qed simp
  next
    case 2
    have same: "json_value (Suc n) d s = json_value n d s" using 2 by (intro Suc.IH(1)) simp
    have "2 * length (skip_space t) + 1 < n" if "json_value n d s = Some (v, r)" "skip_space r = x # t" for v r x t
      using shorter(1) [OF that(1)] dropped [OF that(2)] skip_space_shorter [of t] 2 by simp
    with Suc.IH(2) same show ?case
      by (cases "json_value n d s") (auto simp del: json_value.simps json_elems.simps(2) simp: json_elems.simps(2) [of "Suc n"] json_elems.simps(2) [of n] split: list.split)
  next
    case 3
    show ?case
    proof (cases s)
      case (Cons c cs)
      show ?thesis
      proof (cases "c = dquote \<and> unquote cs \<noteq> None")
        case True
        then obtain k r1 where u: "c = dquote" "unquote cs = Some (k, r1)" by auto
        show ?thesis
        proof (cases "skip_space r1")
          case (Cons x t)
          have t: "length (skip_space t) + 2 < length s"
            using unquote_shorter [OF u(2)] dropped [OF Cons] skip_space_shorter [of t] \<open>s = c # cs\<close> by simp
          have same: "json_value (Suc n) d (skip_space t) = json_value n d (skip_space t)"
            using t 3 by (intro Suc.IH(1)) simp
          have "2 * length (skip_space t') + 1 < n"
            if "json_value n d (skip_space t) = Some (v, r')" "skip_space r' = y # t'" for v r' y t'
            using shorter(1) [OF that(1)] dropped [OF that(2)] skip_space_shorter [of t'] t 3 by simp
          with Suc.IH(3) same u Cons \<open>s = c # cs\<close> show ?thesis
            by (cases "json_value n d (skip_space t)")
              (auto simp del: json_value.simps json_members.simps(2) simp: json_members.simps(2) [of "Suc n"] json_members.simps(2) [of n]
                split: list.split)
        qed (use u \<open>s = c # cs\<close> in simp)
      qed (use Cons in \<open>cases "unquote cs"; auto\<close>)
    qed simp
  }
qed simp_all

lemma fuel_enough: "json_fuel s \<le> n \<Longrightarrow> json_value n d s = json_value (json_fuel s) d s"
proof (induction n rule: dec_induct)
  case (step n)
  then show ?case using fuel_step(1) [of s n d] by (simp add: json_fuel_def)
qed simp

end
