(* ===== verification/Wire.thy ===== *)
theory Wire
  imports JsonRound BenchRun Handlers
begin

text \<open>
  The two ends of the wire: the bytes the load generator sends are what the app's Decode reads,
  and the bytes of an error answer (internal/json, WriteError) are what the generator's
  ClassifyResponse reads. Both ends go through encoding/json (JsonText).
\<close>

section \<open>The error envelope as bytes\<close>

definition error_envelope :: "string \<Rightarrow> string \<Rightarrow> json" where
  "error_envelope code msg = JObj [(''error'', JObj [(''code'', JStr code), (''message'', JStr msg)])]"

text \<open>The body of a response; how the data of a success is written is an argument.\<close>

definition body_text :: "('a \<Rightarrow> string) \<Rightarrow> 'a response \<Rightarrow> string" where
  "body_text data resp =
     (case r_Body resp of Data x \<Rightarrow> data x | ErrorBody code msg \<Rightarrow> json_encode (error_envelope code msg))"

lemma envelope_fits: "fits (Suc (Suc d)) (error_envelope code msg)"
  by (cases d) (simp_all add: error_envelope_def)

lemma max_nesting_Suc: "max_nesting = Suc (Suc 9998)"
  by (simp add: max_nesting_def)

text \<open>The codes are ASCII, so they come back as they are.\<close>

lemma clean_ascii: "list_all (\<lambda>c. byte c < 128) s \<Longrightarrow> clean s = s"
  by (induction s) (simp_all add: rune_more_def rune_tail_def continues_def)

lemma clean_names [simp]: "clean ''error'' = ''error''" "clean ''code'' = ''code''" "clean ''message'' = ''message''"
  by (simp_all add: clean_ascii del: clean.simps)

lemma envelope_read:
  "envelope_code json_unmarshal (json_encode (error_envelope code msg)) = Some (clean code)"
proof -
  have "json_unmarshal (json_encode (error_envelope code msg)) = Some (clean_json (error_envelope code msg))"
    by (rule decode_encode(2), unfold max_nesting_Suc, rule envelope_fits)
  then show ?thesis
    by (simp add: envelope_code_def error_envelope_def decode_struct_def envelope_field_def
        detail_field_def same_field_def lower_char_def decode_string_def del: clean.simps)
qed

section \<open>The request\<close>

lemma length_show_nat: "n < 10 ^ Suc k \<Longrightarrow> length (show_nat n) \<le> Suc k"
proof (induction k arbitrary: n)
  case 0
  then show ?case by (subst show_nat.simps) simp
next
  case (Suc k)
  have "n div 10 < 10 ^ Suc k" using Suc.prems by (simp add: div_less_iff_less_mult)
  from Suc.IH [OF this] show ?case by (subst show_nat.simps) simp
qed

lemma length_show_int: "- (2 ^ 63) \<le> i \<Longrightarrow> i < 2 ^ 63 \<Longrightarrow> length (show_int i) \<le> 20"
proof -
  assume "- (2 ^ 63) \<le> i" "i < 2 ^ 63"
  then have "nat i < 10 ^ Suc 18" "nat (- i) < 10 ^ Suc 18" by simp_all
  from length_show_nat [OF this(1)] length_show_nat [OF this(2)] show ?thesis
    by (simp add: show_int_def)
qed

lemma request_body_json: "request_body i = json_render (JObj [(''product_id'', JInt i)])"
proof -
  have "quote_body ''product_id'' = ''product_id''"
    by (simp add: rune_more_def rune_tail_def continues_def escape_def)
  then show ?thesis by (simp add: request_body_def quoted_def quote_def)
qed

lemma request_fits: "fits (Suc d) (JObj [(k, JInt i)])"
  by (cases d) simp_all

lemma request_read:
  assumes "- (2 ^ 63) \<le> i" "i < 2 ^ 63"
  shows "Decode json_decode order_field 0 (request_body i) = Some i"
proof -
  let ?v = "JObj [(''product_id'', JInt i)]"
  have "take maxRequestBody (request_body i) = request_body i"
    using length_show_int [OF assms] by (simp add: request_body_def quoted_def maxRequestBody_def)
  moreover have "json_value (json_fuel (json_render ?v)) max_nesting (json_render ?v @ []) = Some (clean_json ?v, [])"
    by (rule value_render) (unfold max_nesting_Suc, rule request_fits, simp_all add: json_fuel_def)
  moreover have "skip_space (json_render ?v) = json_render ?v" by (simp add: not_space)
  ultimately have "json_decode (take maxRequestBody (request_body i)) = Some (clean_json ?v)"
    by (simp add: json_decode_def request_body_json del: json_render.simps)
  moreover have "clean ''product_id'' = ''product_id''" by (simp add: clean_ascii del: clean.simps)
  ultimately show ?thesis
    using assms by (simp del: clean.simps add: Decode_def decode_struct_def order_field_def same_field_def lower_char_def decode_int_def)
qed

section \<open>The answer\<close>

definition outcome_of_error :: "error \<Rightarrow> outcome" where
  "outcome_of_error e =
     (if errors_Is e ErrNoRows then OutcomeNotFound
      else if errors_Is e ErrForbidden then OutcomeUnauthorized
      else if errors_Is e ErrOutOfStock then OutcomeOutOfStock
      else if errors_Is e ErrOrderNotPending \<or> errors_Is e ErrIdempotencyKeyReused \<or> errors_Is e ErrReserveInProgress
      then OutcomeConflictOther
      else OutcomeServerError)"

lemma classify_status:
  "ClassifyResponse u 403 b = OutcomeUnauthorized" "ClassifyResponse u 404 b = OutcomeNotFound"
  "ClassifyResponse u 500 b = OutcomeServerError"
  by (simp_all add: ClassifyResponse_def)

lemma classify_conflict:
  assumes "length (json_encode (error_envelope code msg)) \<le> 8 * 1024"
    and "code \<in> set [CodeOutOfStock, CodeOrderNotPending, CodeIdempotencyKeyReused, CodeReserveInProgress]"
  shows "ClassifyResponse json_unmarshal 409 (json_encode (error_envelope code msg)) =
    (if code = CodeOutOfStock then OutcomeOutOfStock else OutcomeConflictOther)"
proof -
  have "list_all (\<lambda>c. byte c < 128) code" using assms(2) by (auto simp: code_defs)
  then have "envelope_code json_unmarshal (json_encode (error_envelope code msg)) = Some code"
    by (simp add: envelope_read clean_ascii)
  moreover have "code \<noteq> CodeNotFound \<and> code \<noteq> CodeUnauthorized \<and> code \<noteq> CodeForbidden"
    using assms(2) by (auto simp: code_defs)
  ultimately show ?thesis using assms(1) by (simp add: ClassifyResponse_def)
qed

lemma error_body [simp]: "body_text data (WriteError st code msg) = json_encode (error_envelope code msg)"
  by (simp add: body_text_def)

lemma answer_read:
  assumes "length (body_text data (writeOrderError drv e)) \<le> 8 * 1024"
  shows "ClassifyResponse json_unmarshal (r_Status (writeOrderError drv e)) (body_text data (writeOrderError drv e)) =
    outcome_of_error e"
proof -
  note conflict = classify_conflict [where msg = "error_text drv e"]
  have other: "CodeOrderNotPending \<noteq> CodeOutOfStock" "CodeIdempotencyKeyReused \<noteq> CodeOutOfStock"
    "CodeReserveInProgress \<noteq> CodeOutOfStock"
    by (simp_all add: code_defs)
  consider "errors_Is e ErrNoRows" | "\<not> errors_Is e ErrNoRows" "errors_Is e ErrForbidden"
    | "\<not> errors_Is e ErrNoRows" "\<not> errors_Is e ErrForbidden" by blast
  then show ?thesis
  proof cases
    case 3
    with assms conflict other show ?thesis
      unfolding writeOrderError_def outcome_of_error_def
      by (simp add: classify_status WriteInternalError_def split: if_splits)
  qed (simp_all add: writeOrderError_def outcome_of_error_def classify_status)
qed

end
