(* ===== verification/StripeStub.thy ===== *)
theory StripeStub
  imports Poller Wire
begin

text \<open>
  The payload the poller stores, byte for byte (eventPayload of internal/payments/poller.go
  through encoding/json), and the stand-in for Stripe's API of the test suite
  (internal/testsupport/stripeapi.go): the requests it captures, the intents it answers with
  and the events it lists. That the SDK hands on what a listing says, and finds the data object
  of a stored event, is a parameter (reads_events).
\<close>

section \<open>A raw message inside a marshalled value\<close>

text \<open>
  json.Marshal compacts a RawMessage: space outside strings goes, and the characters it escapes
  in its own strings are escaped here too. The flag says whether we are inside a string.
\<close>

fun compact_text :: "bool \<Rightarrow> string \<Rightarrow> string" where
  "compact_text inside [] = []"
| "compact_text inside (c # cs) =
     (if \<not> inside then (if JsonText.is_space c then compact_text False cs else c # compact_text (c = dquote) cs)
      else if c = dquote then c # compact_text False cs
      else if c = backslash then (case cs of [] \<Rightarrow> [c] | e # es \<Rightarrow> c # e # compact_text True es)
      else if c \<in> {CHR ''<'', CHR ''>'', CHR ''&''} then escape c @ compact_text True cs
      else if byte c = 226 \<and> (c # take 2 cs = utf8 8232 \<or> c # take 2 cs = utf8 8233)
      then escape_rune (c # take 2 cs) @ compact_text True (drop 2 cs)
      else c # compact_text True cs)"

definition marshal_event :: "stripe_msg \<Rightarrow> string \<Rightarrow> error + string" where
  "marshal_event m raw =
     (if json_unmarshal raw = None then Inl (ErrPayload ''json: error calling MarshalJSON for type json.RawMessage'')
      else Inr (CHR ''{'' # quote ''id'' @ CHR '':'' # quote (m_ID m) @ CHR '','' #
        quote ''type'' @ CHR '':'' # quote (m_Type m) @ CHR '','' #
        quote ''created'' @ CHR '':'' # show_int (m_Created m) @ CHR '','' #
        quote ''data'' @ CHR '':'' # CHR ''{'' # quote ''object'' @ CHR '':'' # compact_text False raw @ ''}}''))"

text \<open>What the encoder has written is compact already.\<close>

lemma compact_plain:
  assumes "list_all (\<lambda>c. c \<notin> {dquote, backslash, CHR ''<'', CHR ''>'', CHR ''&''} \<and> byte c \<noteq> 226) s"
  shows "compact_text True (s @ r) = s @ compact_text True r"
  using assms by (induction s) auto

lemma compact_escaped: "compact_text True (backslash # e # r) = backslash # e # compact_text True r"
  by simp

lemma hex_digit_plain: "n < 16 \<Longrightarrow> hex_digit n \<notin> {dquote, backslash, CHR ''<'', CHR ''>'', CHR ''&''} \<and> byte (hex_digit n) \<noteq> 226"
  by (auto simp: hex_digit_def of_char_of simp flip: of_char_eq_iff [where 'a = nat])

lemma compact_escape: "byte c < 128 \<Longrightarrow> compact_text True (escape c @ r) = escape c @ compact_text True r"
proof -
  assume c: "byte c < 128"
  have "compact_text True ([CHR ''0'', CHR ''0'', hex_digit (byte c div 16), hex_digit (byte c mod 16)] @ r) =
      [CHR ''0'', CHR ''0'', hex_digit (byte c div 16), hex_digit (byte c mod 16)] @ compact_text True r"
    using c hex_digit_plain [of "byte c div 16"] hex_digit_plain [of "byte c mod 16"]
    by (intro compact_plain) (simp add: of_char_eq_iff)
  with c show ?thesis by (simp add: escape_def)
qed

lemma rune_parts:
  assumes "rune_more c cs = Some k" "0 < k"
  shows "194 \<le> byte c" "list_all (\<lambda>x. 128 \<le> byte x \<and> byte x \<le> 191) (take k cs)" "k \<le> length cs" "byte c = 226 \<Longrightarrow> k = 2"
  using assms by (auto simp: rune_more_def rune_tail_def continues_def split: if_splits)

lemma compact_rune:
  assumes "rune_more c cs = Some k" "0 < k"
  shows "compact_text True (escape_rune (c # take k cs) @ r) = escape_rune (c # take k cs) @ compact_text True r"
proof -
  have esc: "compact_text True (backslash # ''u2028'' @ r) = backslash # ''u2028'' @ compact_text True r"
    "compact_text True (backslash # ''u2029'' @ r) = backslash # ''u2029'' @ compact_text True r"
    using compact_plain [of "''2028''" r] compact_plain [of "''2029''" r] by simp_all
  note parts = rune_parts [OF assms]
  have bytes: "compact_text True (take k cs @ r) = take k cs @ compact_text True r"
    using parts(2) by (intro compact_plain) (auto simp: list_all_iff)
  have "c \<notin> {dquote, backslash, CHR ''<'', CHR ''>'', CHR ''&''}" using parts(1) by auto
  moreover have "c # take 2 (take k cs @ r) = c # take k cs" if "byte c = 226"
    using parts(3) parts(4) [OF that] by simp
  ultimately have "compact_text True ((c # take k cs) @ r) = (c # take k cs) @ compact_text True r"
    if "c # take k cs \<noteq> utf8 8232" "c # take k cs \<noteq> utf8 8233"
    using that bytes by auto
  with esc show ?thesis by (auto simp: escape_rune_def)
qed

lemma compact_quote: "compact_text False (quote s @ r) = quote s @ compact_text False r"
proof -
  have "compact_text True (quote_body s @ dquote # r) = quote_body s @ dquote # compact_text False r"
  proof (induction s rule: quote_body.induct)
    case (2 c cs)
    show ?case
    proof (cases "rune_more c cs")
      case None
      with 2 compact_plain [of "''fffd''"] show ?thesis by simp
    next
      case (Some k)
      with 2 have "compact_text True (quote_body (drop k cs) @ dquote # r) = quote_body (drop k cs) @ dquote # compact_text False r"
        by blast
      with Some compact_escape [of c] compact_rune [OF Some] rune_more_zero [of c cs] show ?thesis
        by (cases "k = 0") simp_all
    qed
  qed simp
  then show ?thesis by (simp add: quote_def JsonText.is_space_def)
qed

lemma compact_bare:
  assumes "list_all (\<lambda>c. \<not> JsonText.is_space c \<and> c \<noteq> dquote) s"
  shows "compact_text False (s @ r) = s @ compact_text False r"
  using assms by (induction s) auto

lemma compact_commas:
  assumes "\<And>x r. x \<in> set xs \<Longrightarrow> compact_text False (f x @ r) = f x @ compact_text False r"
  shows "compact_text False (commas (map f xs) @ r) = commas (map f xs) @ compact_text False r"
  using assms
proof (induction xs rule: induct_list012)
  case (3 x y zs)
  then show ?case by (simp add: JsonText.is_space_def)
qed simp_all

lemma compact_scalar:
  assumes "\<And>vs. v \<noteq> JArr vs" "\<And>ms. v \<noteq> JObj ms" "\<And>s. v \<noteq> JFrac s"
  shows "compact_text False (json_render v @ r) = json_render v @ compact_text False r"
proof (cases v)
  case (JInt i)
  have "list_all (\<lambda>c. \<not> JsonText.is_space c \<and> c \<noteq> dquote) (show_nat n)" for n
    using show_nat_digits [of n] by (auto simp: list_all_iff is_digit_def JsonText.is_space_def)
  then have "list_all (\<lambda>c. \<not> JsonText.is_space c \<and> c \<noteq> dquote) (show_int i)"
    by (simp add: show_int_def JsonText.is_space_def)
  from compact_bare [OF this] JInt show ?thesis by simp
qed (use assms in \<open>auto simp: compact_quote JsonText.is_space_def\<close>)

lemma compact_render: "fits d v \<Longrightarrow> compact_text False (json_render v @ r) = json_render v @ compact_text False r"
proof (induction d arbitrary: v r)
  case 0
  then show ?case by (intro compact_scalar) auto
next
  case (Suc d)
  consider (arr) vs where "v = JArr vs" | (obj) ms where "v = JObj ms"
    | (scalar) "\<And>vs. v \<noteq> JArr vs" "\<And>ms. v \<noteq> JObj ms" by metis
  then show ?case
  proof cases
    case arr
    with Suc.prems have "compact_text False (json_render x @ r) = json_render x @ compact_text False r" if "x \<in> set vs" for x r
      using that by (intro Suc.IH) (simp add: list_all_iff)
    from compact_commas [of vs json_render, OF this] arr show ?thesis by (simp add: JsonText.is_space_def)
  next
    case obj
    with Suc.prems have "compact_text False (render_member m @ r) = render_member m @ compact_text False r" if "m \<in> set ms" for m r
      using that Suc.IH [of "snd m"] by (simp add: list_all_iff split_beta compact_quote JsonText.is_space_def)
    from compact_commas [of ms render_member, OF this] show ?thesis
      unfolding obj render_members by (simp add: JsonText.is_space_def)
  next
    case scalar
    with Suc.prems show ?thesis by (intro compact_scalar) auto
  qed
qed

section \<open>What the worker reads of a stored event\<close>

lemma fits_Suc: "fits d v \<Longrightarrow> fits (Suc d) v"
proof (induction d arbitrary: v)
  case 0
  then show ?case by (cases v) simp_all
next
  case (Suc d)
  then have "list_all (fits d) vs \<Longrightarrow> list_all (fits (Suc d)) vs" for vs by (auto simp: list_all_iff)
  moreover have "list_all (\<lambda>m. fits d (snd m)) ms \<Longrightarrow> list_all (\<lambda>m. fits (Suc d) (snd m)) ms" for ms :: "(string \<times> json) list"
    using Suc.IH by (auto simp: list_all_iff)
  ultimately show ?case using Suc.prems by (cases v) simp_all
qed

lemma unmarshal_render: "fits max_nesting v \<Longrightarrow> json_unmarshal (json_render v) = Some (clean_json v)"
proof -
  assume fit: "fits max_nesting v"
  obtain c t where c: "json_render v = c # t" "starts c" using render_starts [OF fit] by blast
  have "json_value (json_fuel (json_render v)) max_nesting (json_render v @ []) = Some (clean_json v, [])"
    by (rule value_render [OF fit]) (simp_all add: json_fuel_def)
  moreover have "skip_space (json_render v) = json_render v" "skip_space [] = []"
    using c starts_skip by (simp_all add: skip_space_def)
  ultimately show ?thesis by (simp add: json_unmarshal_def)
qed

definition event_json :: "stripe_msg \<Rightarrow> json \<Rightarrow> json" where
  "event_json m v =
     JObj [(''id'', JStr (m_ID m)), (''type'', JStr (m_Type m)), (''created'', JInt (m_Created m)),
       (''data'', JObj [(''object'', v)])]"

lemma event_fits: "fits (max_nesting - 2) v \<Longrightarrow> fits max_nesting v \<and> fits max_nesting (event_json m v)"
proof -
  assume fit: "fits (max_nesting - 2) v"
  obtain k where k: "max_nesting - 2 = k" "max_nesting = Suc (Suc k)" by (simp add: max_nesting_def)
  show ?thesis
    using fit fits_Suc [OF fits_Suc [OF fit]] unfolding k by (simp add: event_json_def)
qed

lemma marshal_rendered:
  assumes "fits (max_nesting - 2) v"
  shows "marshal_event m (json_render v) = Inr (json_render (event_json m v))"
  using compact_render [OF assms, of "[]"] unmarshal_render event_fits [OF assms]
  by (simp add: marshal_event_def event_json_def)

text \<open>
  What is relied on of the SDK's reader of events: from the JSON of an event it keeps the text
  of the data object.
\<close>

definition reads_events :: "payments_env \<Rightarrow> bool" where
  "reads_events pe =
     (parse_json pe = json_unmarshal \<and>
      (\<forall>p i t n ms. json_unmarshal p = Some (JObj [(''id'', JStr i), (''type'', JStr t), (''created'', JInt n),
           (''data'', JObj [(''object'', JObj ms)])]) \<and>
         - (2 ^ 63) \<le> n \<and> n < 2 ^ 63 \<and> fits (max_nesting - 2) (JObj ms) \<longrightarrow>
         (\<exists>raw. event_object pe p = Inr (Some raw) \<and> json_unmarshal raw = Some (clean_json (JObj ms)))))"

lemma reads_eventsD:
  assumes "reads_events pe" "- (2 ^ 63) \<le> n" "n < 2 ^ 63" "fits (max_nesting - 2) (JObj ms)"
    and "json_unmarshal p = Some (JObj [(''id'', JStr i), (''type'', JStr t), (''created'', JInt n), (''data'', JObj [(''object'', JObj ms)])])"
  shows "\<exists>raw. event_object pe p = Inr (Some raw) \<and> json_unmarshal raw = Some (clean_json (JObj ms))"
  using assms unfolding reads_events_def by blast

text \<open>What was read once is clean.\<close>

lemma clean_clean: "clean (clean s) = clean s"
proof (induction s rule: clean.induct)
  case (2 c cs)
  show ?case
  proof (cases "rune_more c cs")
    case None
    have "clean (replacement @ x) = replacement @ clean x" for x
      by (simp add: replacement_def utf8_def rune_more_def rune_tail_def continues_def of_char_of)
    with 2 None show ?thesis by simp
  next
    case (Some k)
    with rune_more_take [OF Some, of "clean (drop k cs)"] 2 show ?thesis by simp
  qed
qed simp

lemma clean_json_clean: "clean_json (clean_json v) = clean_json v"
  by (induction v rule: clean_json.induct) (auto simp: clean_clean)

lemma fits_clean: "fits d v \<Longrightarrow> fits d (clean_json v)"
proof (induction d arbitrary: v)
  case 0
  then show ?case by (cases v) simp_all
next
  case (Suc d)
  then show ?case by (cases v) (auto simp: list_all_iff)
qed

lemma clean_members [simp]: "clean ''id'' = ''id''" "clean ''type'' = ''type''" "clean ''created'' = ''created''"
  "clean ''data'' = ''data''" "clean ''object'' = ''object''" "clean ''payment_intent'' = ''payment_intent''"
  by (simp_all add: clean_ascii del: clean.simps)

lemma stored_read_back:
  assumes "reads_events pe" "m_Raw m = Some (json_render (JObj ms))" "fits (max_nesting - 2) (JObj ms)"
    and "- (2 ^ 63) \<le> m_Created m" "m_Created m < 2 ^ 63" "marshal po = marshal_event"
    and "decode_struct id_field [] (clean_json (JObj ms)) = Some i" "i \<noteq> []"
  shows "\<exists>payload. eventPayload po m = Inr payload \<and> paymentIntentID pe payload = Inr i"
proof -
  define p where "p = json_render (event_json m (JObj ms))"
  have "json_render (JObj ms) \<noteq> []" by simp
  then have "eventPayload po m = Inr p"
    unfolding p_def using marshal_rendered [OF assms(3), of m] assms(2,6) by (simp add: eventPayload_def del: json_render.simps)
  moreover have "json_unmarshal p = Some (clean_json (event_json m (JObj ms)))"
    unfolding p_def using unmarshal_render event_fits [OF assms(3)] by blast
  then have "json_unmarshal p = Some (JObj [(''id'', JStr (clean (m_ID m))), (''type'', JStr (clean (m_Type m))),
      (''created'', JInt (m_Created m)), (''data'', JObj [(''object'', JObj (map (\<lambda>(k, v). (clean k, clean_json v)) ms))])])"
    by (simp add: event_json_def del: clean.simps)
  from reads_eventsD [OF assms(1,4,5) _ this] fits_clean [OF assms(3)] clean_json_clean [of "JObj ms"] obtain raw where "event_object pe p = Inr (Some raw)" "json_unmarshal raw = Some (clean_json (JObj ms))"
    by auto
  then have "paymentIntentID pe p = Inr i"
    using assms(1,7,8) by (simp add: paymentIntentID_def reads_events_def)
  ultimately show ?thesis by blast
qed

section \<open>Quoting for Go\<close>

text \<open>fmt's %q, which is strconv.Quote; which runes beyond ASCII are printable is a parameter.\<close>

definition hexes :: "nat \<Rightarrow> nat \<Rightarrow> string" where
  "hexes w n = map (\<lambda>i. hex_digit (n div 16 ^ i mod 16)) (rev [0..<w])"

definition rune_value :: "char \<Rightarrow> string \<Rightarrow> nat" where
  "rune_value c rest = fold (\<lambda>x n. n * 64 + byte x mod 64) rest (byte c mod 2 ^ (6 - length rest))"

definition go_escape :: "char \<Rightarrow> string" where
  "go_escape c =
     (if c = dquote \<or> c = backslash then [backslash, c]
      else if byte c = 7 then backslash # ''a'' else if byte c = 8 then backslash # ''b''
      else if byte c = 12 then backslash # ''f'' else if byte c = 10 then backslash # ''n''
      else if byte c = 13 then backslash # ''r'' else if byte c = 9 then backslash # ''t''
      else if byte c = 11 then backslash # ''v''
      else if byte c < 32 \<or> byte c = 127 then backslash # CHR ''x'' # hexes 2 (byte c) else [c])"

fun go_quote_body :: "(nat \<Rightarrow> bool) \<Rightarrow> string \<Rightarrow> string" where
  "go_quote_body IsPrint [] = []"
| "go_quote_body IsPrint (c # cs) =
     (case rune_more c cs of
        None \<Rightarrow> backslash # CHR ''x'' # hexes 2 (byte c) @ go_quote_body IsPrint cs
      | Some k \<Rightarrow>
          (if k = 0 then go_escape c
           else let n = rune_value c (take k cs) in
             if IsPrint n then c # take k cs
             else if n < 65536 then backslash # CHR ''u'' # hexes 4 n else backslash # CHR ''U'' # hexes 8 n)
          @ go_quote_body IsPrint (drop k cs))"

definition go_quote :: "(nat \<Rightarrow> bool) \<Rightarrow> string \<Rightarrow> string" where
  "go_quote IsPrint s = dquote # go_quote_body IsPrint s @ [dquote]"

text \<open>Printable ASCII that neither encoder escapes; of such text %q is its JSON.\<close>

definition plain_char :: "char \<Rightarrow> bool" where
  "plain_char c = (32 \<le> byte c \<and> byte c < 127 \<and> c \<notin> {dquote, backslash, CHR ''<'', CHR ''>'', CHR ''&''})"

lemma plain_quotes: "list_all plain_char s \<Longrightarrow> go_quote IsPrint s = quote s"
proof -
  assume plain: "list_all plain_char s"
  have rune: "rune_more c cs = Some 0" if "plain_char c" for c cs
    unfolding rune_more_zero using that by (simp add: plain_char_def)
  have esc: "go_escape c = [c]" "escape c = [c]" if "plain_char c" for c
  proof -
    have "32 \<le> byte c" "byte c < 127" "c \<notin> {dquote, backslash, CHR ''<'', CHR ''>'', CHR ''&''}"
      using that unfolding plain_char_def by blast+
    moreover from this have "byte c \<notin> {7, 8, 9, 10, 11, 12, 13, 127}" "\<not> byte c < 32" by simp_all
    ultimately show "go_escape c = [c]" "escape c = [c]"
      unfolding go_escape_def escape_def by (simp_all only: insert_iff empty_iff de_Morgan_disj if_False simp_thms)
  qed
  from plain have "go_quote_body IsPrint s = s \<and> quote_body s = s"
    by (induction s) (simp_all add: rune esc)
  then show ?thesis by (simp add: go_quote_def quote_def)
qed

lemma plain_clean: "list_all plain_char s \<Longrightarrow> clean s = s"
  by (rule clean_ascii, rule list.pred_mono_strong, assumption, unfold plain_char_def, linarith)

section \<open>The stand-in for Stripe's API\<close>

record stripe_request =
  sr_Method :: string
  sr_Path :: string
  sr_Form :: "(string \<times> string) list"
  sr_IdempotencyKey :: string
  sr_Authorization :: string

record stripe_api =
  sa_requests :: "stripe_request list"
  sa_events :: "stripe_msg list"
  sa_FailPaymentIntents :: bool

definition NewStripeAPI :: stripe_api where
  "NewStripeAPI = \<lparr>sa_requests = [], sa_events = [], sa_FailPaymentIntents = False\<rparr>"

definition LastRequest :: "stripe_api \<Rightarrow> stripe_request option" where
  "LastRequest st = (if sa_requests st = [] then None else Some (last (sa_requests st)))"

text \<open>QueueEvent; created in nanoseconds, so that its seconds are the event's Created.\<close>

definition event_id :: "nat \<Rightarrow> int \<Rightarrow> string" where
  "event_id n created = ''evt_test_'' @ show_nat n @ ''_'' @ show_int created"

definition QueueEvent :: "(nat \<Rightarrow> bool) \<Rightarrow> string \<Rightarrow> string \<Rightarrow> int \<Rightarrow> stripe_api \<Rightarrow> stripe_api" where
  "QueueEvent IsPrint eventType intentID created st =
     st\<lparr>sa_events := sa_events st @
       [\<lparr>m_ID = event_id (length (sa_events st) + 1) created, m_Type = eventType, m_Created = created div 10 ^ 9,
         m_Raw = Some (CHR ''{'' # quote ''id'' @ CHR '':'' # go_quote IsPrint intentID @ CHR '','' #
           quote ''object'' @ CHR '':'' # quote ''payment_intent'' @ ''}'')\<rparr>]\<rparr>"

definition record_request :: "stripe_request \<Rightarrow> stripe_api \<Rightarrow> stripe_api" where
  "record_request r st = st\<lparr>sa_requests := sa_requests st @ [r]\<rparr>"

text \<open>strconv.ParseInt with its error dropped: zero for what is no number, else clamped.\<close>

definition parsed_amount :: "string \<Rightarrow> int" where
  "parsed_amount s =
     (let (neg, ds) = (case s of
            c # cs \<Rightarrow> if c = CHR ''-'' then (True, cs) else if c = CHR ''+'' then (False, cs) else (False, s)
          | [] \<Rightarrow> (False, [])) in
      if ds = [] \<or> \<not> list_all is_digit ds then 0
      else max (- (2 ^ 63)) (min (2 ^ 63 - 1) (if neg then - int (read_nat ds) else int (read_nat ds))))"

lemma parsed_amount_int64: "parse_int64 s = Some n \<Longrightarrow> parsed_amount s = n"
  by (auto simp: parse_int64_def parsed_amount_def Let_def split: list.splits if_splits)

definition intent_id :: "nat \<Rightarrow> string" where
  "intent_id n = ''pi_test_'' @ show_nat n"

text \<open>The answer to a creation, from the two fields the handler reads under the lock; encoded, a map has its keys in order.\<close>

definition create_answer :: "bool \<Rightarrow> nat \<Rightarrow> (string \<times> string) list \<Rightarrow> int \<times> json" where
  "create_answer fail n form =
     (if fail
      then (402, JObj [(''error'', JObj [(''code'', JStr ''card_declined''),
             (''message'', JStr ''Your card was declined.''), (''type'', JStr ''card_error'')])])
      else (200, JObj [(''amount'', JInt (parsed_amount (get_first ''amount'' form))),
             (''client_secret'', JStr (intent_id n @ ''_secret_test'')), (''currency'', JStr (get_first ''currency'' form)),
             (''id'', JStr (intent_id n)), (''object'', JStr ''payment_intent''),
             (''status'', JStr ''requires_payment_method'')]))"

definition handleCreateIntent :: "stripe_request \<Rightarrow> stripe_api \<Rightarrow> stripe_api \<times> int \<times> json" where
  "handleCreateIntent r st =
     (let st1 = record_request r st in
      (st1, create_answer (sa_FailPaymentIntents st1) (length (sa_requests st1)) (sr_Form r)))"

record list_answer =
  la_Object :: string
  la_URL :: string
  la_HasMore :: bool
  la_Data :: "stripe_msg list"

definition handleListEvents :: "stripe_request \<Rightarrow> stripe_api \<Rightarrow> stripe_api \<times> list_answer" where
  "handleListEvents r st =
     (let st1 = record_request r st in
      (st1, \<lparr>la_Object = ''list'', la_URL = ''/v1/events'', la_HasMore = False, la_Data = sa_events st1\<rparr>))"

datatype stub_answer = IntentAnswer int json | ListAnswer list_answer | NoRoute

definition stub_serve :: "stripe_request \<Rightarrow> stripe_api \<Rightarrow> stripe_api \<times> stub_answer" where
  "stub_serve r st =
     (if sr_Path r = ''/v1/payment_intents''
      then (case handleCreateIntent r st of (st', code, b) \<Rightarrow> (st', IntentAnswer code b))
      else if sr_Path r = ''/v1/events''
      then (case handleListEvents r st of (st', l) \<Rightarrow> (st', ListAnswer l))
      else (st, NoRoute))"

section \<open>Creations at the same time\<close>

text \<open>A creation is recorded under the lock and counts the requests under it a second time.\<close>

datatype create_call = Arriving stripe_request | Noted stripe_request | Served int json

definition create_move :: "nat \<Rightarrow> stripe_api \<times> create_call list \<Rightarrow> stripe_api \<times> create_call list" where
  "create_move k s =
     (case s of (st, calls) \<Rightarrow>
        if length calls \<le> k then (st, calls)
        else case calls ! k of
            Arriving r \<Rightarrow> (record_request r st, calls[k := Noted r])
          | Noted r \<Rightarrow>
              (case create_answer (sa_FailPaymentIntents st) (length (sa_requests st)) (sr_Form r) of
                 (code, b) \<Rightarrow> (st, calls[k := Served code b]))
          | Served code b \<Rightarrow> (st, calls))"

fun served_id :: "create_call \<Rightarrow> json option" where
  "served_id (Served code (JObj ms)) = map_of ms ''id''"
| "served_id c = None"

text \<open>One after the other they get intents of their own; at the same time they may share one.\<close>

lemma creations_in_turn:
  "map served_id (snd (fold create_move [0, 0, 1, 1] (NewStripeAPI, [Arriving r, Arriving r']))) =
     [Some (JStr (intent_id 1)), Some (JStr (intent_id 2))]"
  by (simp add: create_move_def create_answer_def record_request_def NewStripeAPI_def eval_nat_numeral)

lemma creations_racing:
  "map served_id (snd (fold create_move [0, 1, 0, 1] (NewStripeAPI, [Arriving r, Arriving r']))) =
     [Some (JStr (intent_id 2)), Some (JStr (intent_id 2))]"
  by (simp add: create_move_def create_answer_def record_request_def NewStripeAPI_def eval_nat_numeral)

section \<open>From the stand-in to the inbox\<close>

text \<open>The listing as the SDK hands it to the poller: what the stand-in answers, whatever was asked for.\<close>

definition stub_lister :: "stripe_api \<Rightarrow> string list \<Rightarrow> int \<Rightarrow> stripe_msg list \<times> error option" where
  "stub_lister st types since =
     (la_Data (snd (handleListEvents \<lparr>sr_Method = ''GET'', sr_Path = ''/v1/events'', sr_Form = [],
        sr_IdempotencyKey = [], sr_Authorization = []\<rparr> st)), None)"

lemma stub_lister_events: "stub_lister st types since = (sa_events st, None)"
  by (simp add: stub_lister_def handleListEvents_def record_request_def Let_def)

definition queue_all :: "(nat \<Rightarrow> bool) \<Rightarrow> (string \<times> string \<times> int) list \<Rightarrow> stripe_api" where
  "queue_all IsPrint qs = fold (\<lambda>(t, i, c). QueueEvent IsPrint t i c) qs NewStripeAPI"

abbreviation intent_object :: "string \<Rightarrow> (string \<times> json) list" where
  "intent_object i \<equiv> [(''id'', JStr i), (''object'', JStr ''payment_intent'')]"

definition queued_msg :: "nat \<Rightarrow> string \<times> string \<times> int \<Rightarrow> stripe_msg" where
  "queued_msg n q =
     (case q of (t, i, c) \<Rightarrow>
        \<lparr>m_ID = event_id n c, m_Type = t, m_Created = c div 10 ^ 9, m_Raw = Some (json_render (JObj (intent_object i)))\<rparr>)"

lemma queued_events:
  assumes "\<forall>(t, i, c) \<in> set qs. list_all plain_char i"
  shows "sa_events (fold (\<lambda>(t, i, c). QueueEvent IsPrint t i c) qs st) =
    sa_events st @ map (\<lambda>(n, q). queued_msg n q) (enumerate (length (sa_events st) + 1) qs)"
  using assms
proof (induction qs arbitrary: st)
  case (Cons q qs)
  obtain t i c where q: "q = (t, i, c)" by (cases q) auto
  have "sa_events (QueueEvent IsPrint t i c st) = sa_events st @ [queued_msg (length (sa_events st) + 1) q]"
    using Cons.prems plain_quotes [of i IsPrint] by (simp add: QueueEvent_def queued_msg_def q)
  with Cons.IH [of "QueueEvent IsPrint t i c st"] Cons.prems show ?case by (simp add: q)
qed simp

lemma event_id_number: "event_id n c = event_id n' c' \<Longrightarrow> n = n'"
proof -
  have "takeWhile is_digit (show_nat n @ CHR ''_'' # x) = show_nat n" for n x
    using show_nat_digits [of n] by (intro digits_end) (auto simp: ends_def is_digit_def)
  moreover assume "event_id n c = event_id n' c'"
  then have "show_nat n @ CHR ''_'' # show_int c = show_nat n' @ CHR ''_'' # show_int c'" by (simp add: event_id_def)
  ultimately have "show_nat n = show_nat n'" by metis
  then show ?thesis by (metis read_show_nat)
qed

lemma store_fresh:
  assumes "distinct (map m_ID ms)" "\<forall>m \<in> set ms. find_event (m_ID m) d = None \<and> eventPayload po m = Inr (payload m)"
  shows "new_count po now ms d = int (length ms) \<and>
    (\<forall>m \<in> set ms. find_event (m_ID m) (store_all po now ms d) = Some (inbox_row m (payload m) now))"
  using assms
proof (induction ms arbitrary: d)
  case (Cons m ms)
  let ?d = "put_event (inbox_row m (payload m) now) d"
  have s: "store_msg po now m d = ?d" using Cons.prems by (simp add: store_msg_def)
  have f: "find_event k ?d = (if k = m_ID m then Some (inbox_row m (payload m) now) else find_event k d)" for k
    by (simp add: row_simps inbox_row_def)
  have "\<forall>m' \<in> set ms. find_event (m_ID m') ?d = None \<and> eventPayload po m' = Inr (payload m')"
    using Cons.prems f by (metis distinct.simps(2) image_eqI list.map(2) list.set_intros(2) set_map)
  with Cons.IH [of ?d] Cons.prems f store_all_keeps [of "m_ID m" ?d _ po now ms] show ?case
    by (simp add: s store_all_def)
qed (simp add: store_all_def)

lemma queue_arrives:
  assumes "locks g = []" "events (committed g) = []" "reads_events pe"
    and "marshal po = marshal_event" "list_events po = stub_lister (queue_all IsPrint qs)"
    and ok: "\<forall>(t, i, c) \<in> set qs. list_all plain_char i \<and> i \<noteq> [] \<and> - (2 ^ 63) \<le> c \<and> c < 2 ^ 63"
  shows "\<exists>g'. run [] j (poll po now) [] g = Some ([], Inr (int (length qs), int (length qs), None), [], g') \<and>
    (\<forall>k t i c. k < length qs \<and> qs ! k = (t, i, c) \<longrightarrow>
      (\<exists>row. find_event (event_id (k + 1) c) (committed g') = Some row \<and> e_Type row = t \<and> e_ProcessedAt row = None \<and>
         paymentIntentID pe (e_Payload row) = Inr i))"
proof -
  define ms where "ms = map (\<lambda>(n, q). queued_msg n q) (enumerate 1 qs)"
  have "\<forall>(t, i, c) \<in> set qs. list_all plain_char i" using ok by fastforce
  then have listed: "list_events po types since = (ms, None)" for types since
    using queued_events [of qs IsPrint NewStripeAPI]
    by (simp add: assms(5) stub_lister_events ms_def queue_all_def NewStripeAPI_def)
  have nth: "ms ! k = queued_msg (k + 1) (qs ! k)" if "k < length qs" for k
    using that by (simp add: ms_def nth_enumerate_eq)
  have len: "length ms = length qs" by (simp add: ms_def)
  have "inj_on (\<lambda>k. m_ID (ms ! k)) {..<length ms}"
    using event_id_number by (intro inj_onI) (fastforce simp: len nth queued_msg_def split_beta)
  then have dist: "distinct (map m_ID ms)"
    by (simp add: distinct_conv_nth inj_on_def) blast
  have pay: "\<exists>p. eventPayload po (ms ! k) = Inr p \<and> paymentIntentID pe p = Inr i"
    if "k < length qs" "qs ! k = (t, i, c)" for k t i c
  proof -
    have q: "list_all plain_char i" "i \<noteq> []" "- (2 ^ 63) \<le> c" "c < 2 ^ 63" using ok that by (auto dest!: bspec [OF _ nth_mem])
    obtain f where f: "max_nesting - 2 = Suc f" by (simp add: max_nesting_def)
    have m: "ms ! k = queued_msg (k + 1) (t, i, c)" using nth that by simp
    show ?thesis
    proof (rule stored_read_back [OF assms(3), where ms = "intent_object i"])
      show "m_Raw (ms ! k) = Some (json_render (JObj (intent_object i)))" by (simp add: m queued_msg_def)
      show "fits (max_nesting - 2) (JObj (intent_object i))" unfolding f by (cases f) simp_all
      show "- (2 ^ 63) \<le> m_Created (ms ! k)" "m_Created (ms ! k) < 2 ^ 63" using q(3,4) by (simp_all add: m queued_msg_def)
      show "decode_struct id_field [] (clean_json (JObj (intent_object i))) = Some i"
        using plain_clean [OF q(1)]
        by (simp add: decode_struct_def id_field_def same_field_def lower_char_def decode_string_def del: clean.simps)
    qed (use q assms(4) in simp_all)
  qed
  have "\<exists>p. eventPayload po m = Inr p" if "m \<in> set ms" for m
    using that pay by (metis in_set_conv_nth len prod_cases3)
  then obtain payload where payload: "\<forall>m \<in> set ms. eventPayload po m = Inr (payload m)" by metis
  have "find_event k (committed g) = None" for k using assms(2) by (simp add: find_event_def)
  with store_fresh [OF dist, of "committed g" po payload "clock g"] payload
  have stored: "new_count po (clock g) ms (committed g) = int (length ms)"
    "\<forall>m \<in> set ms. find_event (m_ID m) (store_all po (clock g) ms (committed g)) = Some (inbox_row m (payload m) (clock g))"
    by simp_all
  let ?g' = "g\<lparr>committed := store_all po (clock g) ms (committed g)\<rparr>"
  have "\<exists>row. find_event (event_id (k + 1) c) (committed ?g') = Some row \<and> e_Type row = t \<and> e_ProcessedAt row = None \<and>
      paymentIntentID pe (e_Payload row) = Inr i" if k: "k < length qs" "qs ! k = (t, i, c)" for k t i c
  proof -
    have "ms ! k \<in> set ms" using k(1) len by simp
    moreover have "m_ID (ms ! k) = event_id (k + 1) c" "m_Type (ms ! k) = t" using nth [OF k(1)] k(2) by (simp_all add: queued_msg_def)
    ultimately show ?thesis using stored(2) payload pay [OF k] by (force simp: inbox_row_def)
  qed
  moreover have "run [] j (poll po now) [] g = Some ([], Inr (int (length qs), int (length qs), None), [], ?g')"
    using run_poll [OF assms(1) listed] stored(1) len by simp
  ultimately show ?thesis by blast
qed

text \<open>A reader of events as the SDK has it, on the values of the model.\<close>

fun member :: "string \<Rightarrow> json \<Rightarrow> json option" where
  "member k (JObj ms) = map_of ms k"
| "member k v = None"

definition sdk_event_object :: "string \<Rightarrow> error + string option" where
  "sdk_event_object p =
     (case Option.bind (json_unmarshal p) (member ''data'') of
        None \<Rightarrow> Inr None
      | Some d \<Rightarrow> (case member ''object'' d of None \<Rightarrow> Inr (Some []) | Some v \<Rightarrow> Inr (Some (json_render v))))"

lemma sdk_reads: "reads_events \<lparr>event_object = sdk_event_object, parse_json = json_unmarshal, driver_text = drv\<rparr>"
proof -
  have "json_unmarshal (json_render (JObj ms)) = Some (clean_json (JObj ms))" if "fits (max_nesting - 2) (JObj ms)" for ms
    using event_fits [OF that] by (intro unmarshal_render) blast
  then show ?thesis by (simp add: reads_events_def sdk_event_object_def del: json_render.simps clean_json.simps)
qed

end
