(* ===== verification/Support.thy ===== *)
theory Support
  imports StripeStub BenchVerify "HOL-Library.List_Lexorder" "HOL-Library.Char_ord"
    "HOL-Library.Multiset"
begin

text \<open>
  The fixtures and assertions of the test suite: internal/testsupport/seed.go as programs on the
  database, internal/testsupport/assert.go over a recorded response (its status, its content
  type and its bytes). An assertion is the list of the messages it fails with; none is a pass.
\<close>

section \<open>Fixtures\<close>

definition SeedProduct :: "string \<Rightarrow> int \<Rightarrow> int \<Rightarrow> int \<Rightarrow> int prog" where
  "SeedProduct name priceInCents quantity now =
     handle (exec (CreateProduct name priceInCents now)) (\<lambda>r. case r of
        Inl e \<Rightarrow> throw (Wrapped (''seed product '' @ name) e)
      | Inr product \<Rightarrow>
          handle (exec (CreateStock (p_ID product) quantity)) (\<lambda>r. case r of
             Inl e \<Rightarrow> throw (Wrapped (''seed stock for '' @ name) e)
           | Inr s \<Rightarrow> ret (p_ID product)))"

definition SeedCustomer :: "string \<Rightarrow> string \<Rightarrow> customer prog" where
  "SeedCustomer email subject =
     handle (exec (LinkCustomer email (if subject \<noteq> [] then Some subject else None))) (\<lambda>r. case r of
        Inl e \<Rightarrow> throw (Wrapped (''seed customer '' @ email) e)
      | Inr c \<Rightarrow> ret c)"

definition read_Stock :: "int \<Rightarrow> product_row prog" where
  "read_Stock productID =
     handle (exec (FindProductByID productID)) (\<lambda>r. case r of
        Inl e \<Rightarrow> throw (Wrapped (''read stock for product '' @ show_int productID) e) | Inr row \<Rightarrow> ret row)"

definition read_Order :: "int \<Rightarrow> order_row prog" where
  "read_Order orderID =
     handle (exec (FindOrderByID orderID)) (\<lambda>r. case r of
        Inl e \<Rightarrow> throw (Wrapped (''read order '' @ show_int orderID) e) | Inr row \<Rightarrow> ret row)"

definition AssertStock :: "int \<Rightarrow> int \<Rightarrow> int \<Rightarrow> string list prog" where
  "AssertStock productID wantQuantity wantReserved =
     call (read_Stock productID) (\<lambda>got. ret (
       (if pr_Quantity got \<noteq> wantQuantity \<or> pr_NumReserved got \<noteq> wantReserved
        then [''product '' @ show_int productID @ '': quantity='' @ show_int (pr_Quantity got) @ '' num_reserved='' @
              show_int (pr_NumReserved got) @ '', want '' @ show_int wantQuantity @ ''/'' @ show_int wantReserved] else []) @
       (if pr_NumReserved got > pr_Quantity got
        then [''product '' @ show_int productID @ '' oversold: num_reserved '' @ show_int (pr_NumReserved got) @
              '' > quantity '' @ show_int (pr_Quantity got)] else [])))"

definition AssertOrderStatus :: "int \<Rightarrow> string \<Rightarrow> string list prog" where
  "AssertOrderStatus orderID want =
     call (read_Order orderID) (\<lambda>row. ret (
       if o_Status (j_Order row) \<noteq> want
       then [''order '' @ show_int orderID @ '' status = '' @ o_Status (j_Order row) @ '', want '' @ want] else []))"

text \<open>CountRows, for the tables of the schema; any other name is an undefined table.\<close>

definition table_rows :: "string \<Rightarrow> db \<Rightarrow> nat option" where
  "table_rows table d =
     (if table = ''customers'' then Some (length (customers d))
      else if table = ''products'' then Some (length (products d))
      else if table = ''stock'' then Some (length (stocks d))
      else if table = ''orders'' then Some (length (orders d))
      else if table = ''order_idempotency'' then Some (length (idems d))
      else if table = ''stripe_events'' then Some (length (events d)) else None)"

definition CountRows :: "string \<Rightarrow> int prog" where
  "CountRows table =
     handle (exec (\<lambda>e. case table_rows table (view e) of
         None \<Rightarrow> Reply (Inl (Infra ''undefined_table'')) [] []
       | Some n \<Rightarrow> Reply (Inr (int n)) [] [])) (\<lambda>r. case r of
        Inl e \<Rightarrow> throw (Wrapped (''count '' @ table) e) | Inr n \<Rightarrow> ret n)"

text \<open>On a sound database the check of the counters is all AssertStock can fail with.\<close>

lemma run_AssertStock:
  assumes "db_inv (committed g)" "find_stock p (committed g) \<noteq> None"
  shows "\<exists>msgs. run [] i (AssertStock p q n) [] g = Some ([], Inr msgs, [], g) \<and>
    (msgs = [] \<longleftrightarrow> quantity_of p (committed g) = q \<and> reserved_of p (committed g) = n)"
proof -
  obtain s where s: "find_stock p (committed g) = Some s" using assms(2) by blast
  have key: "s_ProductID s = p" "s \<in> set (stocks (committed g))"
    using s by (auto simp: find_stock_def dest: find_by_SomeD)
  then obtain x where x: "find_product p (committed g) = Some x" using db_invD(6) [OF assms(1)] by blast
  then have "p_ID x = p" by (auto simp: find_product_def dest: find_by_SomeD)
  moreover have "s_NumReserved s \<le> s_Quantity s" using db_inv_not_oversold(2) [OF assms(1), of p] s by (simp add: stock_val_def)
  ultimately show ?thesis
    using s x by (simp add: AssertStock_def read_Stock_def prog_simps FindProductByID_def reply_defs join_product_def stock_val_def)
qed

text \<open>So a seeded product is found as it was seeded.\<close>

lemma seeded_as_asked:
  assumes "run [] j (SeedProduct nm price q now) [] g = Some (cs, Inr p, st, g')" "locks g = []" "db_inv (committed g)"
  shows "run [] i (AssertStock p q 0) [] g' = Some ([], Inr [], [], g')"
proof -
  from assms(1) obtain x g1 s cs1 st1 where
    c: "run [] j (exec (CreateProduct nm price now)) [] g = Some (cs1, Inr x, st1, g1)" and
    s: "run cs1 j (exec (CreateStock (p_ID x) q)) st1 g1 = Some (cs, Inr s, st, g')" and p: "p = p_ID x"
    by (auto simp: SeedProduct_def run_handle split: option.splits prod.splits sum.splits)
  note f1 = run_exec_frame [OF c assms(2)]
  note s' = s [unfolded f1(1,2)]
  note i1 = pooled_run(2) [OF pooled_seeds(1) c assms(2,3)]
  note i2 = pooled_run(2) [OF pooled_seeds(2) s' f1(3) i1]
  have "find_stock p (committed g') = Some s \<and> s_Quantity s = q \<and> s_NumReserved s = 0"
  proof -
    have "s = \<lparr>s_ID = stock_seq (committed g1), s_ProductID = p, s_Quantity = q, s_NumReserved = 0\<rparr> \<and>
        committed g' = burn StockSeq (put_stock s (committed g1))"
      using s' f1(3) unfolding p by (auto simp: run_exec_auto CreateStock_def Let_def split: if_splits)
    then show ?thesis by (simp add: row_simps del: burn.simps)
  qed
  with run_AssertStock [OF i2, of p i q 0] show ?thesis by (auto simp: stock_val_def)
qed

section \<open>Assertions on a response\<close>

record recording =
  rr_Code :: int
  rr_ContentType :: string
  rr_Body :: string

text \<open>What the recorder holds of a response of the app.\<close>

definition recording_of :: "('a \<Rightarrow> string) \<Rightarrow> 'a response \<Rightarrow> recording" where
  "recording_of data resp =
     \<lparr>rr_Code = r_Status resp, rr_ContentType = get_first ''Content-Type'' (r_Headers resp), rr_Body = body_text data resp\<rparr>"

definition AssertStatus :: "recording \<Rightarrow> int \<Rightarrow> string list" where
  "AssertStatus rec want =
     (if rr_Code rec \<noteq> want
      then [''status = '' @ show_int (rr_Code rec) @ '', want '' @ show_int want @ ''; body: '' @ rr_Body rec] else [])"

definition AssertErrorEnvelope :: "recording \<Rightarrow> int \<Rightarrow> string \<Rightarrow> string list" where
  "AssertErrorEnvelope rec wantStatus wantCode =
     (if AssertStatus rec wantStatus \<noteq> [] then AssertStatus rec wantStatus
      else
        (if rr_ContentType rec \<noteq> ''application/json''
         then [''Content-Type = '' @ rr_ContentType rec @ '', want application/json (errors must not be text/plain)''] else []) @
        (case Option.bind (json_unmarshal (rr_Body rec)) (decode_struct envelope_field ([], [])) of
           None \<Rightarrow> [''response is not the error envelope; body: '' @ rr_Body rec]
         | Some (code, msg) \<Rightarrow>
             (if code \<noteq> wantCode then [''error code = '' @ code @ '', want '' @ wantCode] else []) @
             (if msg = [] then [''error message is empty''] else [])))"

definition DecodeJSON :: "('s \<Rightarrow> string \<Rightarrow> json \<Rightarrow> 's option) \<Rightarrow> 's \<Rightarrow> recording \<Rightarrow> string + 's" where
  "DecodeJSON field dst rec =
     (case Option.bind (json_unmarshal (rr_Body rec)) (decode_struct field dst) of
        None \<Rightarrow> Inl (''decode response; body: '' @ rr_Body rec) | Some x \<Rightarrow> Inr x)"

text \<open>The keys of a map[string]json.RawMessage.\<close>

definition object_keys :: "json \<Rightarrow> string list option" where
  "object_keys v = (case v of JNull \<Rightarrow> Some [] | JObj ms \<Rightarrow> Some (remdups (map fst ms)) | _ \<Rightarrow> None)"

definition AssertJSONKeys :: "string \<Rightarrow> string list \<Rightarrow> string list" where
  "AssertJSONKeys b want =
     (case Option.bind (json_unmarshal b) object_keys of
        None \<Rightarrow> [''response is not a JSON object; body: '' @ b]
      | Some keys \<Rightarrow>
          (let got = sort keys; wantSorted = sort want in
           if got \<noteq> wantSorted
           then [''JSON keys mismatch. missing: '' @ concat (filter (\<lambda>k. k \<notin> set got) wantSorted) @
                 '' unexpected: '' @ concat (filter (\<lambda>k. k \<notin> set wantSorted) got) @ '' got: '' @ concat got]
           else []))"

definition AssertJSONArrayNotNull :: "recording \<Rightarrow> string list" where
  "AssertJSONArrayNotNull rec =
     (if rr_Body rec = ''null'' @ [CHR 0x0A] \<or> rr_Body rec = ''null''
      then [''empty collection serialized as null, want []''] else [])"

text \<open>Request; how a target splits into path and query is net/url's.\<close>

definition test_Request :: "(string \<Rightarrow> string \<times> (string \<times> string) list) \<Rightarrow> string \<Rightarrow> string \<Rightarrow> string \<Rightarrow> string \<Rightarrow> request" where
  "test_Request split_target method target token b =
     \<lparr>q_Method = (if method = [] then ''GET'' else method), q_Path = fst (split_target target), q_Query = snd (split_target target),
      q_Headers = (if b = [] then [] else [(''Content-Type'', ''application/json'')]) @
        (if token = [] then [] else [(''Authorization'', ''Bearer '' @ token)]),
      q_Body = b, q_RemoteAddr = ''192.0.2.1:1234'', q_Claims = None\<rparr>"

text \<open>The token of a test's request is the one the middleware finds.\<close>

lemma test_Request_token:
  "bearerToken (test_Request split_target method target token b) = (if token = [] then None else Some token)"
  by (simp add: bearerToken_def test_Request_def get_first_def has_prefix_def)

text \<open>The envelope the app writes is the envelope the tests ask for.\<close>

lemma envelope_asserted:
  assumes "list_all (\<lambda>c. byte c < 128) code" "clean msg \<noteq> []"
  shows "AssertErrorEnvelope (recording_of data (WriteError st code msg)) st code = []"
proof -
  have "json_unmarshal (json_encode (error_envelope code msg)) = Some (clean_json (error_envelope code msg))"
    by (rule decode_encode(2), unfold max_nesting_Suc, rule envelope_fits)
  then have "Option.bind (json_unmarshal (json_encode (error_envelope code msg))) (decode_struct envelope_field ([], [])) =
      Some (clean code, clean msg)"
    by (simp add: error_envelope_def decode_struct_def envelope_field_def
        detail_field_def same_field_def lower_char_def decode_string_def del: clean.simps)
  moreover have headers: "r_Headers (WriteError st code msg) = [(''Content-Type'', ''application/json'')]"
    by (simp add: WriteError_def write_body_def)
  ultimately show ?thesis
    using assms clean_ascii [OF assms(1)]
    by (simp add: AssertErrorEnvelope_def AssertStatus_def recording_of_def get_first_def headers)
qed

text \<open>The key check passes exactly on the listed keys.\<close>

lemma keys_asserted:
  "AssertJSONKeys b want = [] \<longleftrightarrow>
     (\<exists>keys. Option.bind (json_unmarshal b) object_keys = Some keys \<and> mset keys = mset want)"
proof -
  have "sort xs = sort ys \<longleftrightarrow> mset xs = mset ys" for xs ys :: "string list"
    by (metis mset_sort properties_for_sort sorted_sort)
  then show ?thesis by (simp add: AssertJSONKeys_def Let_def split: option.split)
qed

end
