(* ===== verification/TestDb.thy ===== *)
theory TestDb
  imports Rows "HOL-Library.List_Lexorder" "HOL-Library.Char_ord"
begin

text \<open>
  internal/testsupport/db.go: the databases of the test suite. A template database, named after a
  digest of the migration files, is migrated once under a staging name, under an advisory lock,
  and renamed into place; every test gets a clone of it, dropped when the test ends.

  The code is a tree of steps (admin): calls to the database server, readings of the clock and
  waits. SHA-256, goose (which migrations it applies to a database, and whether it fails) and the
  driver's reading of a DSN are parameters, in the record harness, and so is the directory of
  migrations. Times are microseconds.
\<close>

section \<open>Names of databases\<close>

text \<open>strings.Cut: the part before the first occurrence of the separator, and the part after it.\<close>

fun cut :: "string \<Rightarrow> string \<Rightarrow> (string \<times> string) option" where
  "cut sep [] = (if sep = [] then Some ([], []) else None)"
| "cut sep (c # s) =
     (if has_prefix (c # s) sep then Some ([], drop (length sep) (c # s))
      else map_option (\<lambda>(before, after). (c # before, after)) (cut sep s))"

definition replaceDBName :: "string \<Rightarrow> string \<Rightarrow> string" where
  "replaceDBName dsn name =
     (case cut ''://'' dsn of
        None \<Rightarrow> dsn
      | Some (scheme, rest) \<Rightarrow>
          (case cut ''/'' rest of
             None \<Rightarrow> scheme @ ''://'' @ rest @ ''/'' @ name
           | Some (authority, tail) \<Rightarrow>
               (let params = (case cut ''?'' tail of None \<Rightarrow> [] | Some (_, query) \<Rightarrow> ''?'' @ query) in
                scheme @ ''://'' @ authority @ ''/'' @ name @ params)))"

definition maintenanceDSN :: "string \<Rightarrow> string" where
  "maintenanceDSN dsn = replaceDBName dsn ''postgres''"

text \<open>A DSN with a path keeps its authority and its query; only the name between them changes.\<close>

lemma cut_append: "c \<notin> set s \<Longrightarrow> cut [c] (s @ c # t) = Some (s, t)"
  by (induction s) (auto simp: has_prefix_def)

lemma cut_none: "c \<notin> set s \<Longrightarrow> cut [c] s = None"
  by (induction s) (auto simp: has_prefix_def)

lemma cut_scheme: "CHR '':'' \<notin> set s \<Longrightarrow> cut ''://'' (s @ ''://'' @ t) = Some (s, t)"
  by (induction s) (auto simp: has_prefix_def)

lemma replaceDBName_path:
  assumes "CHR '':'' \<notin> set scheme" "CHR ''/'' \<notin> set authority" "CHR ''?'' \<notin> set old" "params = [] \<or> hd params = CHR ''?''"
  shows "replaceDBName (scheme @ ''://'' @ authority @ ''/'' @ old @ params) name =
    scheme @ ''://'' @ authority @ ''/'' @ name @ params"
proof -
  have "(case cut ''?'' (old @ params) of None \<Rightarrow> [] | Some (_, query) \<Rightarrow> ''?'' @ query) = params"
    using assms(3,4) by (cases params) (auto simp: cut_append cut_none)
  then show ?thesis
    using assms(2) by (simp add: replaceDBName_def cut_scheme [OF assms(1), simplified] cut_append)
qed

text \<open>Replacing twice is replacing once.\<close>

lemma replaceDBName_twice:
  assumes "CHR '':'' \<notin> set scheme" "CHR ''/'' \<notin> set authority" "CHR ''?'' \<notin> set old" "CHR ''?'' \<notin> set a"
    and "params = [] \<or> hd params = CHR ''?''"
  shows "replaceDBName (replaceDBName (scheme @ ''://'' @ authority @ ''/'' @ old @ params) a) b =
    replaceDBName (scheme @ ''://'' @ authority @ ''/'' @ old @ params) b"
  by (simp only: replaceDBName_path [OF assms(1,2,3,5)] replaceDBName_path [OF assms(1,2,4,5)])

text \<open>
  A URL without a path but with a query is not such a DSN: the name lands in the query, and the
  database stays the one the driver defaults to. A slash in that query even cuts it short.
\<close>

lemma replaceDBName_without_path:
  "replaceDBName ''postgres://ci@db?sslmode=disable'' ''t1'' = ''postgres://ci@db?sslmode=disable/t1''"
  "replaceDBName ''postgres://ci@db?sslrootcert=/etc/ca&user=ci'' ''t1'' = ''postgres://ci@db?sslrootcert=/t1''"
  by (simp_all add: replaceDBName_def has_prefix_def)

section \<open>The fingerprint of the migrations\<close>

type_synonym migration = "string \<times> string"

record dirent =
  de_Name :: string
  de_IsDir :: bool
  de_Content :: "error + string"

record harness =
  h_DatabaseURL :: string
  h_Getpid :: int
  h_ReadDir :: "error + dirent list"
  h_sum256 :: "string \<Rightarrow> string"
  h_goose :: "error + dirent list \<Rightarrow> migration list \<Rightarrow> migration list \<times> error option"
  h_dialect :: "error option"
  h_database :: "string \<Rightarrow> string"

definition has_suffix :: "string \<Rightarrow> string \<Rightarrow> bool" where
  "has_suffix s p = has_prefix (rev s) (rev p)"

text \<open>The .sql files of the directory, by name; reading one of them may fail.\<close>

definition sql_files :: "dirent list \<Rightarrow> dirent list" where
  "sql_files es = sort_key de_Name (filter (\<lambda>e. \<not> de_IsDir e \<and> has_suffix (de_Name e) ''.sql'') es)"

primrec read_files :: "dirent list \<Rightarrow> error + migration list" where
  "read_files [] = Inr []"
| "read_files (e # es) =
     (case de_Content e of
        Inl x \<Rightarrow> Inl (Wrapped (''read migration '' @ de_Name e) x)
      | Inr content \<Rightarrow> map_sum id (\<lambda>ms. (de_Name e, content) # ms) (read_files es))"

definition hashed :: "migration list \<Rightarrow> string" where
  "hashed ms = concat (map (\<lambda>(name, content). name @ [CHR 0x0A] @ content) ms)"

definition migrations :: "harness \<Rightarrow> error + migration list" where
  "migrations h =
     (case h_ReadDir h of
        Inl e \<Rightarrow> Inl (Wrapped ''read migrations'' e)
      | Inr es \<Rightarrow> read_files (sql_files es))"

definition migrationsHash :: "harness \<Rightarrow> error + string" where
  "migrationsHash h = map_sum id (\<lambda>ms. take 12 (h_sum256 h (hashed ms))) (migrations h)"

text \<open>
  The digest is over names and contents run together, so two different sets of files can have
  one fingerprint whatever the hash function: here a file whose content spells the next one.
\<close>

lemma hashed_ambiguous:
  "hashed [(''1.sql'', ''a''), (''2.sql'', ''b'')] = hashed [(''1.sql'', ''a2.sql'' @ [CHR 0x0A] @ ''b'')]"
  by (simp add: hashed_def)

section \<open>Steps of the harness\<close>

text \<open>
  Every call answers with an error, or with whether a database was found and which migrations
  it has had (both empty where the call does not ask).
\<close>

type_synonym found = "error + bool \<times> migration list"

datatype admin_call =
    OpenPool string
  | ReserveConn
  | CloseConn
  | AdvisoryLock
  | AdvisoryUnlock
  | DatabaseExists string
  | DropDatabase string
  | CreateDatabase string
  | CloneDatabase string string
  | RenameDatabase string string
  | AppliedTo string
  | ApplyTo string migration
  | RunTest string

datatype 'r admin =
    Finished 'r
  | OutOfFuel
  | Request admin_call "found \<Rightarrow> 'r admin"
  | Clock "int \<Rightarrow> 'r admin"
  | Until int "'r admin"

primrec followed :: "'a admin \<Rightarrow> ('a \<Rightarrow> 'b admin) \<Rightarrow> 'b admin" where
  "followed (Finished r) k = k r"
| "followed OutOfFuel k = OutOfFuel"
| "followed (Request c f) k = Request c (\<lambda>a. followed (f a) k)"
| "followed (Clock f) k = Clock (\<lambda>t. followed (f t) k)"
| "followed (Until t p) k = Until t (followed p k)"

definition attempt :: "admin_call \<Rightarrow> error option admin" where
  "attempt c = Request c (\<lambda>a. Finished (case a of Inl e \<Rightarrow> Some e | Inr _ \<Rightarrow> None))"

definition ignored :: "admin_call \<Rightarrow> 'r admin \<Rightarrow> 'r admin" where
  "ignored c p = Request c (\<lambda>_. p)"

definition sleep :: "int \<Rightarrow> 'r admin \<Rightarrow> 'r admin" where
  "sleep d p = Clock (\<lambda>t. Until (t + d) p)"

text \<open>The step of a function that gives up with a wrapped error, and a deferred call.\<close>

definition guarded :: "admin_call \<Rightarrow> string \<Rightarrow> (bool \<times> migration list \<Rightarrow> (error + 'r) admin) \<Rightarrow> (error + 'r) admin" where
  "guarded c msg k = Request c (\<lambda>a. case a of Inl e \<Rightarrow> Finished (Inl (Wrapped msg e)) | Inr x \<Rightarrow> k x)"

definition deferring :: "admin_call \<Rightarrow> 'r admin \<Rightarrow> 'r admin" where
  "deferring c p = followed p (\<lambda>r. ignored c (Finished r))"

section \<open>retry\<close>

text \<open>
  Attempts until one succeeds or the deadline has passed, with waits that double up to 320 ms.
  The loop has no bound of its own; fuel counts its rounds.
\<close>

primrec retry_loop :: "nat \<Rightarrow> int \<Rightarrow> int \<Rightarrow> error option admin \<Rightarrow> error option admin" where
  "retry_loop 0 deadline delay fn = OutOfFuel"
| "retry_loop (Suc fuel) deadline delay fn =
     followed fn (\<lambda>err.
       case err of
         None \<Rightarrow> Finished None
       | Some e \<Rightarrow> Clock (\<lambda>now.
           if now > deadline then Finished (Some e)
           else sleep delay (retry_loop fuel deadline (if delay < 200000 then delay * 2 else delay) fn)))"

definition retry :: "nat \<Rightarrow> int \<Rightarrow> error option admin \<Rightarrow> error option admin" where
  "retry fuel budget fn = Clock (\<lambda>now. retry_loop fuel (now + budget) 10000 fn)"

section \<open>Migrating, the template, a test's database\<close>

primrec apply_each :: "string \<Rightarrow> migration list \<Rightarrow> error option \<Rightarrow> error option admin" where
  "apply_each x [] err = Finished err"
| "apply_each x (m # ms) err =
     Request (ApplyTo x m) (\<lambda>a. case a of Inl e \<Rightarrow> Finished (Some e) | Inr _ \<Rightarrow> apply_each x ms err)"

text \<open>goose.Up on a database: it reads what has been applied there and applies what the directory adds.\<close>

definition goose_up :: "harness \<Rightarrow> string \<Rightarrow> error option admin" where
  "goose_up h x =
     Request (AppliedTo x) (\<lambda>a. case a of
        Inl e \<Rightarrow> Finished (Some e)
      | Inr (_, applied) \<Rightarrow> (case h_goose h (h_ReadDir h) applied of (ms, err) \<Rightarrow> apply_each x ms err))"

definition migrate :: "harness \<Rightarrow> string \<Rightarrow> (error + unit) admin" where
  "migrate h dsn =
     guarded (OpenPool dsn) ''connect to template'' (\<lambda>_.
       case h_dialect h of
         Some e \<Rightarrow> Finished (Inl (Wrapped ''set goose dialect'' e))
       | None \<Rightarrow> followed (goose_up h (h_database h dsn)) (\<lambda>r.
           Finished (case r of Some e \<Rightarrow> Inl (Wrapped ''migrate template'' e) | None \<Rightarrow> Inr ())))"

definition template_of :: "string \<Rightarrow> string" where
  "template_of hash = ''doorbust_tmpl_'' @ hash"

definition staging_of :: "string \<Rightarrow> int \<Rightarrow> string" where
  "staging_of name pid = name @ ''_building_'' @ show_int pid"

text \<open>The staging database is migrated and then renamed into place.\<close>

definition stage :: "nat \<Rightarrow> harness \<Rightarrow> string \<Rightarrow> (error + string) admin" where
  "stage fuel h name =
     (let staging = staging_of name (h_Getpid h) in
      guarded (DropDatabase staging) ''clear staging template'' (\<lambda>_.
      guarded (CreateDatabase staging) ''create staging template'' (\<lambda>_.
      followed (migrate h (replaceDBName (h_DatabaseURL h) staging)) (\<lambda>r. case r of
        Inl e \<Rightarrow> ignored (DropDatabase staging) (Finished (Inl e))
      | Inr _ \<Rightarrow> followed (retry fuel 2000000 (attempt (RenameDatabase staging name))) (\<lambda>err.
          Finished (case err of
             Some e \<Rightarrow> Inl (Wrapped ''promote staging template'' e)
           | None \<Rightarrow> Inr name))))))"

definition buildTemplate :: "nat \<Rightarrow> harness \<Rightarrow> (error + string) admin" where
  "buildTemplate fuel h =
     (case migrationsHash h of
        Inl e \<Rightarrow> Finished (Inl e)
      | Inr hash \<Rightarrow>
          (let name = template_of hash in
           guarded (OpenPool (maintenanceDSN (h_DatabaseURL h))) ''open maintenance connection'' (\<lambda>_.
           guarded ReserveConn ''reserve connection for advisory lock'' (\<lambda>_.
           deferring CloseConn (
             guarded AdvisoryLock ''take template lock'' (\<lambda>_.
             deferring AdvisoryUnlock (
               guarded (DatabaseExists name) ''check for template'' (\<lambda>(exists, _).
               if exists then Finished (Inr name) else stage fuel h name))))))))"

datatype verdict_of_test = Skipped | Fatal error | Ran

text \<open>
  DB, for the test that asks for a database by that name, after templateOnce has answered; the
  test runs on what DB returns, and the cleanup drops it.
\<close>

definition DB :: "nat \<Rightarrow> harness \<Rightarrow> error + string \<Rightarrow> string \<Rightarrow> verdict_of_test admin" where
  "DB fuel h once name =
     (case once of
        Inl e \<Rightarrow> Finished (Fatal (Wrapped ''prepare template database'' e))
      | Inr tmpl \<Rightarrow>
          Request (OpenPool (maintenanceDSN (h_DatabaseURL h))) (\<lambda>a. case a of
             Inl e \<Rightarrow> Finished (Fatal (Wrapped ''open maintenance connection'' e))
           | Inr _ \<Rightarrow> followed (retry fuel 5000000 (attempt (CloneDatabase name tmpl))) (\<lambda>r. case r of
               Some e \<Rightarrow> Finished (Fatal (Wrapped (''create test database '' @ name) e))
             | None \<Rightarrow> Request (OpenPool (replaceDBName (h_DatabaseURL h) name)) (\<lambda>b. case b of
                 Inl e \<Rightarrow> Finished (Fatal (Wrapped (''connect to test database '' @ name) e))
               | Inr _ \<Rightarrow> ignored (RunTest name)
                   (Request (OpenPool (maintenanceDSN (h_DatabaseURL h))) (\<lambda>c. case c of
                      Inl _ \<Rightarrow> Finished Ran
                    | Inr _ \<Rightarrow> ignored (DropDatabase name) (Finished Ran)))))))"

text \<open>
  A test process: its tests one after the other, each with the name its DB draws; the template
  is prepared once, by the first, and not at all where TEST_DATABASE_URL is unset.
\<close>

primrec run_tests :: "nat \<Rightarrow> harness \<Rightarrow> error + string \<Rightarrow> string list \<Rightarrow> verdict_of_test list admin" where
  "run_tests fuel h once [] = Finished []"
| "run_tests fuel h once (n # ns) =
     followed (DB fuel h once n) (\<lambda>v. followed (run_tests fuel h once ns) (\<lambda>vs. Finished (v # vs)))"

definition test_process :: "nat \<Rightarrow> harness \<Rightarrow> string list \<Rightarrow> verdict_of_test list admin" where
  "test_process fuel h names =
     (if h_DatabaseURL h = [] then Finished (map (\<lambda>_. Skipped) names)
      else if names = [] then Finished []
      else followed (buildTemplate fuel h) (\<lambda>once. run_tests fuel h once names))"

end
