(* ===== verification/Template.thy ===== *)
theory Template
  imports TestDb
begin

text \<open>
  The test processes of go test ./... on one database server: any number of test_process,
  interleaved, with calls that fail with or without effect, lost sessions and crashes. The
  template a test clones is whole or not there, whatever happens; each test has a database of
  its own.
\<close>

section \<open>The server\<close>

text \<open>A database is the list of migrations it has had; the advisory lock belongs to a session.\<close>

record cluster =
  databases :: "string \<Rightarrow> migration list option"
  template_lock :: "nat option"
  cluster_now :: int

definition release_lock :: "nat \<Rightarrow> cluster \<Rightarrow> cluster" where
  "release_lock i cl = (if template_lock cl = Some i then cl\<lparr>template_lock := None\<rparr> else cl)"

definition set_database :: "string \<Rightarrow> migration list option \<Rightarrow> cluster \<Rightarrow> cluster" where
  "set_database x v cl = cl\<lparr>databases := (databases cl)(x := v)\<rparr>"

definition refusal :: "string \<Rightarrow> cluster \<Rightarrow> (found \<times> cluster) option" where
  "refusal msg cl = Some (Inl (Infra msg), cl)"

text \<open>What the server does with the call of process i; None is a wait for the lock.\<close>

fun server_does :: "nat \<Rightarrow> admin_call \<Rightarrow> cluster \<Rightarrow> (found \<times> cluster) option" where
  "server_does i AdvisoryLock cl =
     (if template_lock cl = None \<or> template_lock cl = Some i
      then Some (Inr (False, []), cl\<lparr>template_lock := Some i\<rparr>) else None)"
| "server_does i AdvisoryUnlock cl = Some (Inr (False, []), release_lock i cl)"
| "server_does i CloseConn cl = Some (Inr (False, []), release_lock i cl)"
| "server_does i (DatabaseExists x) cl = Some (Inr (databases cl x \<noteq> None, []), cl)"
| "server_does i (DropDatabase x) cl = Some (Inr (False, []), set_database x None cl)"
| "server_does i (CreateDatabase x) cl =
     (case databases cl x of
        Some _ \<Rightarrow> refusal ''database already exists'' cl
      | None \<Rightarrow> Some (Inr (False, []), set_database x (Some []) cl))"
| "server_does i (CloneDatabase x t) cl =
     (case (databases cl x, databases cl t) of
        (None, Some s) \<Rightarrow> Some (Inr (False, []), set_database x (Some s) cl)
      | _ \<Rightarrow> refusal ''cannot copy database'' cl)"
| "server_does i (RenameDatabase x y) cl =
     (case (databases cl x, databases cl y) of
        (Some s, None) \<Rightarrow> Some (Inr (False, []), set_database y (Some s) (set_database x None cl))
      | _ \<Rightarrow> refusal ''cannot rename database'' cl)"
| "server_does i (AppliedTo x) cl =
     (case databases cl x of
        None \<Rightarrow> refusal ''database does not exist'' cl
      | Some s \<Rightarrow> Some (Inr (True, s), cl))"
| "server_does i (ApplyTo x m) cl =
     (case databases cl x of
        None \<Rightarrow> refusal ''database does not exist'' cl
      | Some s \<Rightarrow> Some (Inr (False, []), set_database x (Some (s @ [m])) cl))"
| "server_does i c cl = Some (Inr (False, []), cl)"

section \<open>Interleavings\<close>

text \<open>A call is carried out, fails without effect, or takes effect and is reported as failed.\<close>

datatype weather = Fair | Refused error | Unheard error

fun advance :: "weather \<Rightarrow> nat \<Rightarrow> 'r admin \<Rightarrow> cluster \<Rightarrow> ('r admin \<times> cluster) option" where
  "advance Fair i (Request c k) cl = map_option (\<lambda>(a, cl'). (k a, cl')) (server_does i c cl)"
| "advance (Refused e) i (Request c k) cl = Some (k (Inl e), cl)"
| "advance (Unheard e) i (Request c k) cl = map_option (\<lambda>(a, cl'). (k (Inl e), cl')) (server_does i c cl)"
| "advance w i (Clock k) cl = Some (k (cluster_now cl), cl)"
| "advance w i (Until t p) cl = (if t \<le> cluster_now cl then Some (p, cl) else None)"
| "advance w i p cl = None"

text \<open>A process that has crashed is None.\<close>

type_synonym lab = "verdict_of_test list admin option list \<times> cluster"

inductive lab_step :: "lab \<Rightarrow> lab \<Rightarrow> bool" where
  works: "i < length ws \<Longrightarrow> ws ! i = Some p \<Longrightarrow> advance w i p cl = Some (p', cl') \<Longrightarrow>
    lab_step (ws, cl) (ws[i := Some p'], cl')"
| passes: "0 \<le> dt \<Longrightarrow> lab_step (ws, cl) (ws, cl\<lparr>cluster_now := cluster_now cl + dt\<rparr>)"
| loses: "i < length ws \<Longrightarrow> lab_step (ws, cl) (ws, release_lock i cl)"
| crashes: "i < length ws \<Longrightarrow> lab_step (ws, cl) (ws[i := None], release_lock i cl)"

definition opened :: "nat \<Rightarrow> (harness \<times> string list) list \<Rightarrow> cluster \<Rightarrow> lab" where
  "opened fuel hs cl = (map (\<lambda>(h, names). Some (test_process fuel h names)) hs, cl)"

section \<open>What one process may do\<close>

text \<open>
  A project is what a process works with: its staging database, the template and the files.
  Its share of the server is its staging database and the test database it holds.
\<close>

record project =
  pj_staging :: string
  pj_template :: string
  pj_files :: "migration list"

definition spare :: "string \<Rightarrow> bool" where
  "spare x = has_prefix x ''dbt_''"

fun within_share :: "project \<Rightarrow> migration list option \<Rightarrow> string option \<Rightarrow> admin_call \<Rightarrow> bool" where
  "within_share me mine held (DropDatabase x) = (x = pj_staging me \<or> held = Some x)"
| "within_share me mine held (CreateDatabase x) = (x = pj_staging me)"
| "within_share me mine held (CloneDatabase x t) = (spare x \<and> t = pj_template me)"
| "within_share me mine held (RenameDatabase x y) =
     (x = pj_staging me \<and> y = pj_template me \<and> (mine = None \<or> mine = Some (pj_files me)))"
| "within_share me mine held (AppliedTo x) = (x = pj_staging me)"
| "within_share me mine held (ApplyTo x m) = (x = pj_staging me)"
| "within_share me mine held (RunTest x) = (held = Some x)"
| "within_share me mine held c = True"

text \<open>What an answer tells of the share: an error leaves open whether the call took effect.\<close>

fun share_outcome :: "project \<Rightarrow> migration list option \<Rightarrow> string option \<Rightarrow> admin_call \<Rightarrow> found \<Rightarrow>
    migration list option \<Rightarrow> string option \<Rightarrow> bool" where
  "share_outcome me mine held (DropDatabase x) a mine' held' =
     (if x = pj_staging me then held' = held \<and> (mine' = None \<or> isl a \<and> mine' = mine)
      else mine' = mine \<and> held' = None)"
| "share_outcome me mine held (CreateDatabase x) a mine' held' =
     (held' = held \<and> (isl a \<and> mine' = mine \<or> mine = None \<and> mine' = Some []))"
| "share_outcome me mine held (CloneDatabase x t) a mine' held' =
     (mine' = mine \<and> (if isl a then held' = held else held' = Some x))"
| "share_outcome me mine held (RenameDatabase x y) a mine' held' =
     (held' = held \<and> (isl a \<and> mine' = mine \<or> mine' = None))"
| "share_outcome me mine held (AppliedTo x) a mine' held' =
     (mine' = mine \<and> held' = held \<and> (\<forall>b s. a = Inr (b, s) \<longrightarrow> mine = Some s))"
| "share_outcome me mine held (ApplyTo x m) a mine' held' =
     (held' = held \<and> (isl a \<and> mine' = mine \<or> (\<exists>s. mine = Some s \<and> mine' = Some (s @ [m]))))"
| "share_outcome me mine held c a mine' held' = (mine' = mine \<and> held' = held)"

text \<open>A program that keeps to its share, whatever it is answered, and ends as Q says.\<close>

primrec tame :: "'r admin \<Rightarrow> project \<Rightarrow> ('r \<Rightarrow> migration list option \<Rightarrow> string option \<Rightarrow> bool) \<Rightarrow>
    migration list option \<Rightarrow> string option \<Rightarrow> bool" where
  "tame (Finished r) me Q mine held = Q r mine held"
| "tame OutOfFuel me Q mine held = True"
| "tame (Request c k) me Q mine held =
     (within_share me mine held c \<and>
      (\<forall>a mine' held'. share_outcome me mine held c a mine' held' \<longrightarrow> tame (k a) me Q mine' held'))"
| "tame (Clock k) me Q mine held = (\<forall>t. tame (k t) me Q mine held)"
| "tame (Until t p) me Q mine held = tame p me Q mine held"

lemma tame_followed:
  "tame (followed p k) me Q mine held = tame p me (\<lambda>r. tame (k r) me Q) mine held"
  by (induction p arbitrary: mine held) simp_all

lemma tame_mono:
  "tame p me Q mine held \<Longrightarrow> (\<And>r m x. Q r m x \<Longrightarrow> Q' r m x) \<Longrightarrow> tame p me Q' mine held"
  by (induction p arbitrary: mine held) auto

lemma tame_sleep [simp]: "tame (sleep d p) me Q mine held = tame p me Q mine held"
  by (simp add: sleep_def)

text \<open>Retrying keeps whatever one attempt keeps.\<close>

lemma tame_retry_loop:
  assumes "\<And>m x. I m x \<Longrightarrow> tame fn me (\<lambda>r m' x'. case r of None \<Rightarrow> Q None m' x' | Some e \<Rightarrow> I m' x' \<and> Q (Some e) m' x') m x"
    and "I mine held"
  shows "tame (retry_loop n deadline delay fn) me Q mine held"
  using assms(2)
proof (induction n arbitrary: delay mine held)
  case (Suc n)
  show ?case
    by (simp only: retry_loop.simps tame_followed)
      (rule tame_mono [OF assms(1) [OF Suc.prems]], auto simp: Suc.IH split: option.splits)
qed simp

lemma tame_retry:
  assumes "\<And>m x. I m x \<Longrightarrow> tame fn me (\<lambda>r m' x'. case r of None \<Rightarrow> Q None m' x' | Some e \<Rightarrow> I m' x' \<and> Q (Some e) m' x') m x"
    and "I mine held"
  shows "tame (retry n budget fn) me Q mine held"
  using tame_retry_loop [where I = I, OF assms] by (simp add: retry_def)

section \<open>The processes keep to their share\<close>

text \<open>The files a process has read, and the template it names after them.\<close>

definition files_of :: "harness \<Rightarrow> migration list" where
  "files_of h = (case migrations h of Inl _ \<Rightarrow> [] | Inr ms \<Rightarrow> ms)"

definition template_name :: "harness \<Rightarrow> string" where
  "template_name h = template_of (take 12 (h_sum256 h (hashed (files_of h))))"

definition project_of :: "harness \<Rightarrow> project" where
  "project_of h = \<lparr>pj_staging = staging_of (template_name h) (h_Getpid h), pj_template = template_name h,
     pj_files = files_of h\<rparr>"

lemma project_simps [simp]:
  "pj_staging (project_of h) = staging_of (template_name h) (h_Getpid h)"
  "pj_template (project_of h) = template_name h" "pj_files (project_of h) = files_of h"
  by (simp_all add: project_of_def)

text \<open>
  What is taken from outside: goose reports success on a blank database only when it has applied
  every file, the driver reads back the name that replaceDBName has put into the DSN, and a
  digest has at least the twelve characters that are taken of it.
\<close>

definition goose_law :: "harness \<Rightarrow> bool" where
  "goose_law h = (\<forall>ms. h_goose h (h_ReadDir h) [] = (ms, None) \<longrightarrow> ms = files_of h)"

definition dsn_law :: "harness \<Rightarrow> bool" where
  "dsn_law h = (\<forall>x. h_database h (replaceDBName (h_DatabaseURL h) x) = x)"

definition digest_law :: "harness \<Rightarrow> bool" where
  "digest_law h = (\<forall>s. 12 \<le> length (h_sum256 h s))"

lemma tame_attempt:
  "tame (attempt c) me Q mine held \<longleftrightarrow> within_share me mine held c \<and>
     (\<forall>a mine' held'. share_outcome me mine held c a mine' held' \<longrightarrow>
        Q (case a of Inl e \<Rightarrow> Some e | Inr _ \<Rightarrow> None) mine' held')"
  by (simp add: attempt_def)

lemma tame_apply_each:
  "tame (apply_each (pj_staging me) ms err) me
     (\<lambda>r mine' held'. held' = held \<and> (r = None \<longrightarrow> err = None \<and> mine' = Some (s @ ms))) (Some s) held"
proof (induction ms arbitrary: s)
  case (Cons m ms)
  show ?case using Cons.IH [of "s @ [m]"] by (auto split: sum.splits)
qed simp

lemma tame_migrate:
  assumes "goose_law h" "h_database h dsn = pj_staging (project_of h)"
  shows "tame (migrate h dsn) (project_of h)
    (\<lambda>r mine' held'. held' = held \<and> (\<forall>u. r = Inr u \<longrightarrow> mine' = Some (files_of h))) (Some []) held"
proof -
  have "tame (goose_up h (pj_staging (project_of h))) (project_of h)
    (\<lambda>r mine' held'. held' = held \<and> (r = None \<longrightarrow> mine' = Some (files_of h))) (Some []) held"
    unfolding goose_up_def
  proof (simp only: tame.simps within_share.simps share_outcome.simps, intro conjI allI impI, goal_cases)
    case (2 a mine' held')
    show ?case
    proof (cases a)
      case (Inr x)
      obtain b ms err where g: "x = (b, [])" "h_goose h (h_ReadDir h) [] = (ms, err)"
        using 2 Inr by (metis option.inject surj_pair)
      then have "err = None \<Longrightarrow> ms = files_of h" using assms(1) by (simp add: goose_law_def)
      then show ?thesis
        using 2 Inr g tame_mono [OF tame_apply_each [of "project_of h" ms err held "[]"]] by simp
    qed (use 2 in simp)
  qed simp
  then show ?thesis
    unfolding migrate_def guarded_def
    by (auto simp: assms(2) tame_followed split: sum.splits option.splits elim!: tame_mono)
qed


text \<open>A template is promoted once its staging copy is whole, and in no other case.\<close>

lemma tame_promote:
  assumes "mine = None \<or> mine = Some (pj_files me)"
  shows "tame (retry fuel budget (attempt (RenameDatabase (pj_staging me) (pj_template me)))) me
    (\<lambda>r mine' held'. held' = held) mine held"
  by (rule tame_retry [where I = "\<lambda>m x. (m = None \<or> m = Some (pj_files me)) \<and> x = held"])
    (use assms in \<open>auto simp: tame_attempt split: sum.splits option.splits\<close>)

lemma tame_stage:
  assumes "goose_law h" "dsn_law h"
  shows "tame (stage fuel h (template_name h)) (project_of h) (\<lambda>r mine' held'. held' = held \<and>
    (\<forall>x. r = Inr x \<longrightarrow> x = template_name h)) mine held"
proof -
  let ?me = "project_of h"
  let ?Q = "\<lambda>r mine' held'. held' = held \<and> (\<forall>x. r = Inr x \<longrightarrow> x = template_name h)"
  let ?dsn = "replaceDBName (h_DatabaseURL h) (pj_staging ?me)"
  have m: "tame (migrate h ?dsn) ?me
      (\<lambda>r mine' held'. held' = held \<and> (\<forall>u. r = Inr u \<longrightarrow> mine' = Some (files_of h))) (Some []) held"
    by (rule tame_migrate [OF assms(1)]) (use assms(2) in \<open>simp add: dsn_law_def\<close>)
  have promote: "tame (retry fuel b (attempt (RenameDatabase (pj_staging ?me) (pj_template ?me)))) ?me
      (\<lambda>r mine' held'. held' = held) (Some (files_of h)) held" for b
    by (rule tame_promote) simp
  show ?thesis
    unfolding stage_def Let_def guarded_def
    by (auto simp: tame_followed ignored_def split: sum.splits
        intro!: tame_mono [OF m [simplified]] tame_mono [OF promote [simplified]] split: option.splits)
qed

lemma buildTemplate_of_files:
  "buildTemplate fuel h =
     (case migrations h of
        Inl e \<Rightarrow> Finished (Inl e)
      | Inr _ \<Rightarrow>
           guarded (OpenPool (maintenanceDSN (h_DatabaseURL h))) ''open maintenance connection'' (\<lambda>_.
           guarded ReserveConn ''reserve connection for advisory lock'' (\<lambda>_.
           deferring CloseConn (
             guarded AdvisoryLock ''take template lock'' (\<lambda>_.
             deferring AdvisoryUnlock (
               guarded (DatabaseExists (template_name h)) ''check for template'' (\<lambda>(exists, _).
               if exists then Finished (Inr (template_name h)) else stage fuel h (template_name h))))))))"
  by (cases "migrations h")
    (simp_all add: buildTemplate_def migrationsHash_def template_name_def files_of_def Let_def cong: if_cong)

lemma tame_buildTemplate:
  assumes "goose_law h" "dsn_law h"
  shows "tame (buildTemplate fuel h) (project_of h) (\<lambda>r mine' held'. held' = held \<and>
    (\<forall>x. r = Inr x \<longrightarrow> x = template_name h)) mine held"
  unfolding buildTemplate_of_files guarded_def deferring_def ignored_def
  by (auto simp: tame_followed split: sum.splits intro!: tame_mono [OF tame_stage [OF assms]])

lemma tame_clone:
  assumes "spare x"
  shows "tame (retry fuel budget (attempt (CloneDatabase x (pj_template me)))) me
    (\<lambda>r mine' held'. r = None \<longrightarrow> held' = Some x) mine held"
  by (rule tame_retry [where I = "\<lambda>_ _. True"])
    (use assms in \<open>auto simp: tame_attempt split: sum.splits option.splits\<close>)

lemma tame_DB:
  assumes "spare x" "\<forall>t. once = Inr t \<longrightarrow> t = template_name h"
  shows "tame (DB fuel h once x) (project_of h) (\<lambda>_ _ _. True) mine held"
proof (cases once)
  case (Inr t)
  with assms(2) have "t = pj_template (project_of h)" by simp
  with Inr show ?thesis
    using tame_mono [OF tame_clone [OF assms(1)]]
    by (auto simp: DB_def tame_followed ignored_def split: sum.splits option.splits
        intro!: tame_mono [OF tame_clone [OF assms(1), of fuel 5000000 "project_of h", simplified]])
qed (simp add: DB_def)

lemma tame_test_process:
  assumes "goose_law h" "dsn_law h" "\<forall>x \<in> set names. spare x"
  shows "tame (test_process fuel h names) (project_of h) (\<lambda>_ _ _. True) mine held"
proof -
  have "tame (run_tests fuel h once names) (project_of h) (\<lambda>_ _ _. True) mine held"
    if "\<forall>t. once = Inr t \<longrightarrow> t = template_name h" for once mine held
    using assms(3)
  proof (induction names arbitrary: mine held)
    case (Cons n ns)
    then show ?case
      using that by (auto simp: tame_followed intro!: tame_mono [OF tame_DB] tame_mono [OF Cons.IH])
  qed simp
  then show ?thesis
    by (auto simp: test_process_def tame_followed intro!: tame_mono [OF tame_buildTemplate [OF assms(1,2)]])
qed


section \<open>The server and one share\<close>

text \<open>The test database a process holds after an answer.\<close>

fun held_after :: "project \<Rightarrow> admin_call \<Rightarrow> found \<Rightarrow> string option \<Rightarrow> string option" where
  "held_after me (DropDatabase x) a held = (if x = pj_staging me then held else None)"
| "held_after me (CloneDatabase x t) a held = (if isl a then held else Some x)"
| "held_after me c a held = held"

definition fitting :: "project \<Rightarrow> string option \<Rightarrow> cluster \<Rightarrow> bool" where
  "fitting me held cl =
     (pj_staging me \<noteq> pj_template me \<and> \<not> spare (pj_staging me) \<and> \<not> spare (pj_template me) \<and>
      databases cl (pj_template me) \<in> {None, Some (pj_files me)} \<and>
      (\<forall>x. held = Some x \<longrightarrow> spare x \<and> databases cl x = Some (pj_files me)))"

lemmas cluster_simps = set_database_def release_lock_def refusal_def

lemma release_databases [simp]: "databases (release_lock i cl) = databases cl"
  by (simp add: release_lock_def)

text \<open>An answer is a possible share_outcome for the share, and so is an error in its place.\<close>

lemma perform_outcome:
  assumes "server_does i c cl = Some (a, cl')" "within_share me (databases cl (pj_staging me)) held c" "fitting me held cl"
    and "a' = a \<or> isl a'"
  shows "share_outcome me (databases cl (pj_staging me)) held c a' (databases cl' (pj_staging me)) (held_after me c a' held)"
  using assms
  by (cases c) (auto simp: cluster_simps fitting_def split: option.splits if_splits)

lemma refused_outcome:
  assumes "within_share me mine held c"
  shows "share_outcome me mine held c (Inl e) mine (held_after me c (Inl e) held)"
  using assms by (cases c) auto

text \<open>What a call changes outside the staging database.\<close>

lemma perform_changes:
  assumes "server_does i c cl = Some (a, cl')" "within_share me (databases cl (pj_staging me)) held c" "fitting me held cl"
    and "databases cl' x \<noteq> databases cl x" "x \<noteq> pj_staging me"
  shows "(x = pj_template me \<and> databases cl' x = Some (pj_files me)) \<or> held = Some x \<or>
    (spare x \<and> databases cl x = None)"
  using assms
  by (cases c) (auto simp: cluster_simps fitting_def split: option.splits if_splits)

text \<open>A database that is held after a call was held before, or is a fresh copy of the template.\<close>

lemma perform_held:
  assumes "server_does i c cl = Some (a, cl')" "within_share me (databases cl (pj_staging me)) held c" "fitting me held cl"
    and "a' = a \<or> isl a'" "held_after me c a' held = Some x"
  shows "spare x \<and> databases cl' x = Some (pj_files me) \<and> (held = Some x \<or> databases cl x = None)"
  using assms
  by (cases c) (auto simp: cluster_simps fitting_def split: option.splits if_splits)

lemma refused_held:
  assumes "within_share me mine held c" "held_after me c (Inl e) held = Some x"
  shows "held = Some x"
  using assms by (cases c) (auto split: if_splits)


section \<open>All processes together\<close>

definition whole :: "harness list \<Rightarrow> cluster \<Rightarrow> bool" where
  "whole hs cl = (\<forall>h \<in> set hs. databases cl (template_name h) \<in> {None, Some (files_of h)})"

text \<open>
  The processes of one run: different process ids, and a fingerprint that tells the sets of
  files in play apart.
\<close>

definition told_apart :: "harness list \<Rightarrow> bool" where
  "told_apart hs =
     (distinct (map h_Getpid hs) \<and>
      (\<forall>h \<in> set hs. \<forall>h' \<in> set hs. template_name h = template_name h' \<longrightarrow> files_of h = files_of h'))"

definition outside_laws :: "harness list \<Rightarrow> bool" where
  "outside_laws hs = (\<forall>h \<in> set hs. goose_law h \<and> dsn_law h \<and> digest_law h)"

definition lab_inv :: "harness list \<Rightarrow> (nat \<Rightarrow> string option) \<Rightarrow> lab \<Rightarrow> bool" where
  "lab_inv hs held s =
     (length (fst s) = length hs \<and> whole hs (snd s) \<and>
      (\<forall>i < length hs. \<forall>p. fst s ! i = Some p \<longrightarrow>
         tame p (project_of (hs ! i)) (\<lambda>_ _ _. True) (databases (snd s) (pj_staging (project_of (hs ! i)))) (held i)) \<and>
      (\<forall>i < length hs. \<forall>x. held i = Some x \<longrightarrow> spare x \<and> databases (snd s) x = Some (files_of (hs ! i))) \<and>
      (\<forall>i < length hs. \<forall>j < length hs. \<forall>x. i \<noteq> j \<longrightarrow> held i = Some x \<longrightarrow> held j \<noteq> Some x))"

lemma template_length: "digest_law h \<Longrightarrow> length (template_name h) = 26"
  by (simp add: digest_law_def template_name_def template_of_def)

lemma staging_inject:
  assumes "digest_law h" "digest_law h'" "staging_of (template_name h) p = staging_of (template_name h') q"
  shows "p = q"
  using assms template_length [of h] template_length [of h'] by (simp add: staging_of_def show_int_inject)

lemma staging_not_template:
  assumes "digest_law h" "digest_law h'"
  shows "staging_of (template_name h) p \<noteq> template_name h'"
proof
  assume "staging_of (template_name h) p = template_name h'"
  then have "length (staging_of (template_name h) p) = length (template_name h')" by simp
  with template_length [OF assms(1)] template_length [OF assms(2)] show False by (simp add: staging_of_def)
qed

lemma names_not_spare: "\<not> spare (template_name h)" "\<not> spare (staging_of (template_name h) p)"
  by (simp_all add: spare_def has_prefix_def template_name_def template_of_def staging_of_def)

lemma staging_distinct:
  assumes "told_apart hs" "outside_laws hs" "i < length hs" "j < length hs" "i \<noteq> j"
  shows "staging_of (template_name (hs ! i)) (h_Getpid (hs ! i)) \<noteq> staging_of (template_name (hs ! j)) (h_Getpid (hs ! j))"
  using assms staging_inject [of "hs ! i" "hs ! j"]
  by (metis distinct_conv_nth length_map nth_map nth_mem outside_laws_def told_apart_def)

lemma lab_tame:
  assumes "lab_inv hs held (ws, cl)" "i < length hs" "ws ! i = Some p"
  shows "tame p (project_of (hs ! i)) (\<lambda>_ _ _. True) (databases cl (pj_staging (project_of (hs ! i)))) (held i)"
  using assms unfolding lab_inv_def fst_conv snd_conv by blast

lemma lab_held:
  assumes "lab_inv hs held (ws, cl)" "i < length hs" "held i = Some x"
  shows "spare x \<and> databases cl x = Some (files_of (hs ! i))" and "j < length hs \<Longrightarrow> j \<noteq> i \<Longrightarrow> held j \<noteq> Some x"
  using assms unfolding lab_inv_def fst_conv snd_conv by blast+

lemma lab_whole: "lab_inv hs held (ws, cl) \<Longrightarrow> length ws = length hs \<and> whole hs cl"
  by (simp add: lab_inv_def)

lemma lab_invI:
  assumes "length ws = length hs" "whole hs cl"
    and "\<And>j p. j < length hs \<Longrightarrow> ws ! j = Some p \<Longrightarrow>
      tame p (project_of (hs ! j)) (\<lambda>_ _ _. True) (databases cl (pj_staging (project_of (hs ! j)))) (held j)"
    and "\<And>j x. j < length hs \<Longrightarrow> held j = Some x \<Longrightarrow> spare x \<and> databases cl x = Some (files_of (hs ! j))"
    and "\<And>j l x. j < length hs \<Longrightarrow> l < length hs \<Longrightarrow> j \<noteq> l \<Longrightarrow> held j = Some x \<Longrightarrow> held l \<noteq> Some x"
  shows "lab_inv hs held (ws, cl)"
  unfolding lab_inv_def fst_conv snd_conv using assms by blast

text \<open>Any one share of the state fits.\<close>

lemma lab_fitting:
  assumes "lab_inv hs held (ws, cl)" "outside_laws hs" "i < length hs"
  shows "fitting (project_of (hs ! i)) (held i) cl"
  using assms names_not_spare staging_not_template [of "hs ! i" "hs ! i"]
  by (auto simp: fitting_def lab_inv_def whole_def outside_laws_def)

text \<open>A call of one process, answered or not, leaves everything in order.\<close>

lemma lab_inv_call:
  assumes inv: "lab_inv hs held (ws, cl)" and laws: "outside_laws hs" "told_apart hs"
    and i: "i < length hs" "ws ! i = Some (Request c k)"
    and did: "server_does i c cl = Some (a, cl')" "a' = a \<or> isl a'"
  shows "lab_inv hs (held(i := held_after (project_of (hs ! i)) c a' (held i))) (ws[i := Some (k a')], cl')"
proof -
  let ?me = "\<lambda>j. project_of (hs ! j)"
  let ?held = "held(i := held_after (?me i) c a' (held i))"
  have t: "tame (Request c k) (?me i) (\<lambda>_ _ _. True) (databases cl (pj_staging (?me i))) (held i)"
    by (rule lab_tame [OF inv i])
  then have ok: "within_share (?me i) (databases cl (pj_staging (?me i))) (held i) c" by simp
  note fit = lab_fitting [OF inv laws(1) i(1)]
  note facts = did(1) ok fit
  have laws': "digest_law (hs ! j)" if "j < length hs" for j
    using laws(1) that by (simp add: outside_laws_def)
  have changes: "(x = template_name (hs ! i) \<and> databases cl' x = Some (files_of (hs ! i))) \<or>
      spare x \<and> (held i = Some x \<or> databases cl x = None)"
    if "databases cl' x \<noteq> databases cl x" "x \<noteq> pj_staging (?me i)" for x
    using perform_changes [OF facts that] fit by (auto simp: fitting_def)
  have kept: "databases cl' (pj_staging (?me j)) = databases cl (pj_staging (?me j))" if j: "j < length hs" "j \<noteq> i" for j
    using changes [of "pj_staging (?me j)"] staging_distinct [OF laws(2,1) i(1) j(1)] j(2)
      names_not_spare(2) [of "hs ! j" "h_Getpid (hs ! j)"]
      staging_not_template [OF laws' [OF j(1)] laws' [OF i(1)], of "h_Getpid (hs ! j)"]
    unfolding project_simps by metis
  have whole': "whole hs cl'"
    unfolding whole_def
  proof
    fix h assume h: "h \<in> set hs"
    then have "databases cl (template_name h) \<in> {None, Some (files_of h)}" "digest_law h"
      using inv laws(1) by (simp_all add: lab_inv_def whole_def outside_laws_def)
    moreover have "files_of (hs ! i) = files_of h" if "template_name h = template_name (hs ! i)"
      using laws(2) h i(1) that by (metis told_apart_def nth_mem)
    moreover have "template_name h \<noteq> pj_staging (?me i)"
      using staging_not_template [OF laws' [OF i(1)] \<open>digest_law h\<close>] by (metis project_simps(1))
    ultimately show "databases cl' (template_name h) \<in> {None, Some (files_of h)}"
      using changes [of "template_name h"] names_not_spare(1) [of h] by (metis insertCI)
  qed
  have mine: "spare x \<and> databases cl' x = Some (files_of (hs ! i)) \<and> (held i = Some x \<or> databases cl x = None)"
    if "?held i = Some x" for x
    using perform_held [OF facts did(2), of x] that by simp
  have theirs: "spare x \<and> databases cl' x = Some (files_of (hs ! j)) \<and> databases cl x \<noteq> None \<and> held i \<noteq> Some x"
    if j: "j < length hs" "j \<noteq> i" "held j = Some x" for j x
  proof -
    have x: "spare x" "databases cl x = Some (files_of (hs ! j))" "held i \<noteq> Some x"
      using inv i(1) j by (auto simp: lab_inv_def)
    moreover have "x \<noteq> template_name (hs ! i)" "x \<noteq> pj_staging (?me i)"
      using x(1) names_not_spare by auto
    ultimately show ?thesis using changes [of x] by fastforce
  qed
  have now: "tame (k a') (?me i) (\<lambda>_ _ _. True) (databases cl' (pj_staging (?me i))) (?held i)"
    using t perform_outcome [OF facts did(2)] by simp
  show ?thesis
  proof (rule lab_invI [OF _ whole'])
    show "length (ws[i := Some (k a')]) = length hs" using lab_whole [OF inv] by simp
    fix j p assume j: "j < length hs" "ws[i := Some (k a')] ! j = Some p"
    show "tame p (?me j) (\<lambda>_ _ _. True) (databases cl' (pj_staging (?me j))) (?held j)"
    proof (cases "j = i")
      case True
      with j now i(1) lab_whole [OF inv] show ?thesis by simp
    next
      case False
      with j lab_tame [OF inv j(1)] kept [OF j(1)] show ?thesis by simp
    qed
  next
    fix j x assume "j < length hs" "?held j = Some x"
    then show "spare x \<and> databases cl' x = Some (files_of (hs ! j))"
      using mine [of x] theirs [of j x] by (cases "j = i") simp_all
  next
    have clash: "?held j \<noteq> Some x" if "j < length hs" "j \<noteq> i" "?held i = Some x" for j x
      using mine [OF that(3)] theirs [OF that(1,2), of x] that(2) by fastforce
    fix j l x assume *: "j < length hs" "l < length hs" "j \<noteq> l" "?held j = Some x"
    show "?held l \<noteq> Some x"
    proof (cases "j = i \<or> l = i")
      case True
      with * clash [of j x] clash [of l x] show ?thesis by metis
    next
      case False
      with * lab_held(2) [OF inv, of j x l] show ?thesis by simp
    qed
  qed
qed

text \<open>A step that leaves the server alone: the process goes on, perhaps without its test database.\<close>

lemma lab_inv_quiet:
  assumes "lab_inv hs held (ws, cl)" "i < length hs" "x = held i \<or> x = None"
    and "\<And>p. q = Some p \<Longrightarrow>
      tame p (project_of (hs ! i)) (\<lambda>_ _ _. True) (databases cl (pj_staging (project_of (hs ! i)))) x"
    and "databases cl' = databases cl"
  shows "lab_inv hs (held(i := x)) (ws[i := q], cl')"
proof (rule lab_invI)
  show "length (ws[i := q]) = length hs" "whole hs cl'"
    using lab_whole [OF assms(1)] assms(5) by (simp_all add: whole_def)
  fix j p assume "j < length hs" "ws[i := q] ! j = Some p"
  then show "tame p (project_of (hs ! j)) (\<lambda>_ _ _. True) (databases cl' (pj_staging (project_of (hs ! j)))) ((held(i := x)) j)"
    using lab_tame [OF assms(1), of j p] assms(2,4) lab_whole [OF assms(1)] unfolding assms(5)
    by (cases "j = i") simp_all
next
  fix j y assume j: "j < length hs" "(held(i := x)) j = Some y"
  then have "held j = Some y" using assms(3) by (cases "j = i") auto
  then show "spare y \<and> databases cl' y = Some (files_of (hs ! j))"
    using lab_held(1) [OF assms(1) j(1)] assms(5) by simp
  fix l assume "l < length hs" "j \<noteq> l"
  then have "held l \<noteq> Some y" using lab_held(2) [OF assms(1) j(1) \<open>held j = Some y\<close>] by simp
  then show "(held(i := x)) l \<noteq> Some y" using assms(3) by (cases "l = i") auto
qed

lemma lab_inv_step:
  assumes "lab_step s s'" "lab_inv hs held s" "outside_laws hs" "told_apart hs"
  shows "\<exists>held'. lab_inv hs held' s'"
  using assms(1)
proof cases
  case (works i ws p w cl p' cl')
  then have inv: "lab_inv hs held (ws, cl)" using assms(2) by simp
  have i: "i < length hs" using works lab_whole [OF inv] by simp
  have t: "tame p (project_of (hs ! i)) (\<lambda>_ _ _. True) (databases cl (pj_staging (project_of (hs ! i)))) (held i)"
    by (rule lab_tame [OF inv i works(4)])
  show ?thesis
  proof (cases p)
    case (Request c k)
    show ?thesis
    proof (cases w)
      case Fair
      then obtain a where "server_does i c cl = Some (a, cl')" "p' = k a"
        using works(5) Request by auto
      then show ?thesis
        using lab_inv_call [OF inv assms(3,4) i, of c k a cl' a] works Request by auto
    next
      case (Unheard e)
      then obtain a where "server_does i c cl = Some (a, cl')" "p' = k (Inl e)"
        using works(5) Request by auto
      then show ?thesis
        using lab_inv_call [OF inv assms(3,4) i, of c k a cl' "Inl e"] works Request by auto
    next
      case (Refused e)
      let ?x = "held_after (project_of (hs ! i)) c (Inl e) (held i)"
      have ok: "within_share (project_of (hs ! i)) (databases cl (pj_staging (project_of (hs ! i)))) (held i) c"
        using t Request by simp
      have "tame (k (Inl e)) (project_of (hs ! i)) (\<lambda>_ _ _. True) (databases cl (pj_staging (project_of (hs ! i)))) ?x"
        using t Request refused_outcome [OF ok, of e] by simp
      moreover have "?x = held i \<or> ?x = None" using refused_held [OF ok, of e] by (cases ?x) auto
      ultimately show ?thesis
        using lab_inv_quiet [OF inv i, of ?x "Some (k (Inl e))" cl] works Refused Request by auto
    qed
  next
    case (Clock k)
    then have "p' = k (cluster_now cl)" "cl' = cl" using works(5) by (cases w; simp)+
    with Clock t works(2) show ?thesis using lab_inv_quiet [OF inv i, of "held i" "Some p'" cl] by auto
  next
    case (Until u q)
    then have "p' = q" "cl' = cl" using works(5) by (cases w; simp split: if_splits)+
    with Until t works(2) show ?thesis using lab_inv_quiet [OF inv i, of "held i" "Some p'" cl] by auto
  qed (use works in \<open>cases w; simp\<close>)+
next
  case (crashes i ws cl)
  then have inv: "lab_inv hs held (ws, cl)" using assms(2) by simp
  then have "i < length hs" using crashes lab_whole by force
  then show ?thesis using lab_inv_quiet [OF inv, of i "held i" None "release_lock i cl"] crashes by auto
qed (use assms(2) in \<open>auto simp: lab_inv_def whole_def\<close>)

lemma lab_inv_opened:
  assumes "whole (map fst hs) cl" "outside_laws (map fst hs)" "\<forall>t \<in> set hs. \<forall>x \<in> set (snd t). spare x"
  shows "lab_inv (map fst hs) (\<lambda>_. None) (opened fuel hs cl)"
proof -
  have "tame (test_process fuel (fst (hs ! i)) (snd (hs ! i))) (project_of (fst (hs ! i))) (\<lambda>_ _ _. True) m None"
    if "i < length hs" for i m
    using assms(2,3) nth_mem [OF that] by (intro tame_test_process) (auto simp: outside_laws_def)
  then show ?thesis
    using assms(1) by (auto simp: lab_inv_def opened_def split_beta)
qed

text \<open>A process that is about to run a test is one whose next call is RunTest.\<close>

fun testing :: "string \<Rightarrow> 'r admin option \<Rightarrow> bool" where
  "testing x (Some (Request (RunTest y) k)) = (x = y)"
| "testing x p = False"

lemma lab_templates:
  assumes "lab_step\<^sup>*\<^sup>* (opened fuel hs cl) (ws, cl')" "whole (map fst hs) cl" "outside_laws (map fst hs)"
    and "told_apart (map fst hs)" "\<forall>t \<in> set hs. \<forall>x \<in> set (snd t). spare x"
  shows "whole (map fst hs) cl'"
    and "i < length hs \<Longrightarrow> testing x (ws ! i) \<Longrightarrow> databases cl' x = Some (files_of (fst (hs ! i))) \<and>
      (\<forall>j < length hs. j \<noteq> i \<longrightarrow> \<not> testing x (ws ! j))"
proof -
  have "\<exists>held. lab_inv (map fst hs) held (ws, cl')"
    using assms(1)
  proof (induction "(ws, cl')" arbitrary: ws cl' rule: rtranclp_induct)
    case base
    then show ?case using lab_inv_opened [OF assms(2,3,5), of fuel] by auto
  next
    case (step s ws cl')
    then show ?case using lab_inv_step [OF step(2) _ assms(3,4)] by (cases s) blast
  qed
  then obtain held where inv: "lab_inv (map fst hs) held (ws, cl')" by blast
  then show "whole (map fst hs) cl'" by (simp add: lab_inv_def)
  have held: "held j = Some y" if "j < length hs" "testing y (ws ! j)" for j y
    using lab_tame [OF inv, of j] that by (auto elim!: testing.elims)
  show "databases cl' x = Some (files_of (fst (hs ! i))) \<and> (\<forall>j < length hs. j \<noteq> i \<longrightarrow> \<not> testing x (ws ! j))"
    if "i < length hs" "testing x (ws ! i)"
  proof (intro conjI allI impI notI)
    have i: "i < length (map fst hs)" "held i = Some x" using held that by simp_all
    then have "databases cl' x = Some (files_of (map fst hs ! i))" using inv by (simp add: lab_inv_def)
    then show "databases cl' x = Some (files_of (fst (hs ! i)))" using that(1) by simp
    fix j assume j: "j < length hs" "j \<noteq> i" "testing x (ws ! j)"
    then have "j < length (map fst hs)" "held j = Some x" using held by simp_all
    with lab_held(2) [OF inv i] j(2) show False by blast
  qed
qed


section \<open>Retrying ends\<close>

text \<open>A program that does not run out of rounds, started at time t, while time only moves forward.\<close>

primrec lasts :: "'r admin \<Rightarrow> int \<Rightarrow> bool" where
  "lasts (Finished r) t = True"
| "lasts OutOfFuel t = False"
| "lasts (Request c k) t = (\<forall>a t'. t \<le> t' \<longrightarrow> lasts (k a) t')"
| "lasts (Clock k) t = (\<forall>t'. t \<le> t' \<longrightarrow> lasts (k t') t')"
| "lasts (Until u p) t = (\<forall>t'. t \<le> t' \<longrightarrow> u \<le> t' \<longrightarrow> lasts p t')"

lemma lasts_later: "lasts p t \<Longrightarrow> t \<le> t' \<Longrightarrow> lasts p t'"
  by (induction p arbitrary: t t') (auto dest: order_trans)

lemma lasts_followed:
  assumes "lasts p t" "\<And>r t'. t \<le> t' \<Longrightarrow> lasts (k r) t'"
  shows "lasts (followed p k) t"
  using assms by (induction p arbitrary: t) (auto dest: order_trans)

text \<open>Each round sleeps ten milliseconds at least, so the budget bounds their number.\<close>

lemma lasts_retry_loop:
  assumes "deadline - t < 10000 * (int n - 1)" "10000 \<le> delay" "n \<noteq> 0"
  shows "lasts (retry_loop n deadline delay (attempt c)) t"
  using assms
proof (induction n arbitrary: t delay)
  case (Suc n)
  have round: "lasts (retry_loop n deadline d (attempt c)) u" if "t + 10000 \<le> u" "u - 10000 \<le> deadline" "10000 \<le> d" for u d
    using that Suc.prems by (intro Suc.IH) auto
  show ?case
    unfolding retry_loop.simps
  proof (rule lasts_followed)
    fix r t' assume "t \<le> t'"
    have again: "lasts (retry_loop n deadline d (attempt c)) u"
      if "t' \<le> now" "\<not> deadline < now" "now \<le> now'" "now' + delay \<le> u" "10000 \<le> d" for now now' u d
      using that \<open>t \<le> t'\<close> Suc.prems by (intro lasts_later [OF round [of "now + 10000" d]]) auto
    show "lasts (case r of None \<Rightarrow> Finished None
       | Some e \<Rightarrow> Clock (\<lambda>now.
           if now > deadline then Finished (Some e)
           else sleep delay (retry_loop n deadline (if delay < 200000 then delay * 2 else delay) (attempt c)))) t'"
      using Suc.prems(2) again order_trans by (fastforce simp: sleep_def split: option.splits)
  qed (simp add: attempt_def)
qed simp

lemma lasts_retry:
  assumes "budget < 10000 * (int fuel - 1)" "fuel \<noteq> 0"
  shows "lasts (retry fuel budget (attempt c)) t"
  using assms by (auto simp: retry_def intro!: lasts_retry_loop)

lemma lasts_steps [simp]:
  "lasts (guarded c msg k) t \<longleftrightarrow> (\<forall>x t'. t \<le> t' \<longrightarrow> lasts (k x) t')"
  "lasts (ignored c p) t \<longleftrightarrow> (\<forall>t'. t \<le> t' \<longrightarrow> lasts p t')"
  by (auto simp: guarded_def ignored_def split: sum.splits)

lemma lasts_deferring: "lasts p t \<Longrightarrow> lasts (deferring c p) t"
  unfolding deferring_def by (rule lasts_followed) simp_all

lemma lasts_migrate: "lasts (migrate h dsn) t"
proof -
  have "lasts (apply_each x ms err) u" for x ms err u
    by (induction ms arbitrary: u) (auto split: sum.splits)
  then show ?thesis
    by (auto simp: migrate_def goose_up_def intro!: lasts_followed split: sum.splits option.splits prod.splits)
qed

text \<open>502 rounds are enough for the five seconds a clone may take.\<close>

lemma lasts_test_process:
  assumes "502 \<le> fuel"
  shows "lasts (test_process fuel h names) t"
proof -
  have retry: "lasts (retry fuel budget (attempt c)) u" if "budget \<le> 5000000" for budget c u
    using assms that by (intro lasts_retry) auto
  have "lasts (stage fuel h name) u" for name u
    by (auto simp: stage_def Let_def intro!: lasts_followed lasts_migrate retry split: sum.splits)
  then have build: "lasts (buildTemplate fuel h) u" for u
    by (auto simp: buildTemplate_def Let_def intro!: lasts_deferring split: sum.splits)
  have DB: "lasts (DB fuel h once x) u" for once x u
    by (auto simp: DB_def intro!: lasts_followed retry split: sum.splits option.splits)
  have "lasts (run_tests fuel h once ns) u" for once ns u
    by (induction ns arbitrary: u) (auto intro!: lasts_followed DB)
  then show ?thesis
    by (auto simp: test_process_def intro!: lasts_followed build)
qed

lemma perform_time: "server_does i c cl = Some (a, cl') \<Longrightarrow> cluster_now cl' = cluster_now cl"
  by (cases c) (auto simp: cluster_simps split: option.splits if_splits)

lemma advance_lasts:
  assumes "advance w i p cl = Some (p', cl')" "lasts p (cluster_now cl)"
  shows "lasts p' (cluster_now cl') \<and> cluster_now cl' = cluster_now cl"
  using assms by (cases p; cases w) (auto split: if_splits dest: perform_time)

lemma lab_lasts:
  assumes "lab_step\<^sup>*\<^sup>* (opened fuel hs cl) s" "502 \<le> fuel"
  shows "\<forall>p \<in> set (fst s). p \<noteq> Some OutOfFuel"
proof -
  have "\<forall>p q. p \<in> set (fst s) \<longrightarrow> p = Some q \<longrightarrow> lasts q (cluster_now (snd s))"
    using assms(1)
  proof (induction rule: rtranclp_induct)
    case base
    then show ?case using lasts_test_process [OF assms(2)] by (auto simp: opened_def)
  next
    case (step s s')
    from step(2,3) show ?case
    proof (induction rule: lab_step.induct)
      case (works i ws p w cl p' cl')
      then have "lasts p (cluster_now cl)" by (metis fst_conv nth_mem snd_conv)
      with works show ?case
        using advance_lasts [OF works(3)] by (auto dest!: set_update_subset_insert [THEN subsetD])
    next
      case (crashes i ws cl)
      then show ?case by (auto simp: release_lock_def dest!: set_update_subset_insert [THEN subsetD])
    next
      case (passes dt ws cl)
      then show ?case using lasts_later by (fastforce simp del: lasts.simps)
    qed (simp add: release_lock_def)
  qed
  then show ?thesis by fastforce
qed

end
