(* ===== verification/FairWeather.thy ===== *)
theory FairWeather
  imports Template
begin

text \<open>
  The same processes when nothing fails: no call is refused, none goes unheard, no process dies.
  Then nobody is refused a template, and the run ends with every test run. This is where the
  advisory lock is needed: without it a second builder would find the name taken.
\<close>

inductive fair_step :: "lab \<Rightarrow> lab \<Rightarrow> bool" where
  works: "i < length ws \<Longrightarrow> ws ! i = Some p \<Longrightarrow> advance Fair i p cl = Some (p', cl') \<Longrightarrow>
    fair_step (ws, cl) (ws[i := Some p'], cl')"
| passes: "0 \<le> dt \<Longrightarrow> fair_step (ws, cl) (ws, cl\<lparr>cluster_now := cluster_now cl + dt\<rparr>)"

lemma fair_is_lab: "fair_step s s' \<Longrightarrow> lab_step s s'"
  by (induction rule: fair_step.induct) (auto intro: lab_step.intros)

section \<open>What a process knows\<close>

text \<open>
  Its staging database, whether it holds the lock, whether the template is there (known) or, while
  the lock is held, not there (absent), the test database in use, and the names yet to be used.
\<close>

record knowledge =
  k_mine :: "migration list option"
  k_locked :: bool
  k_known :: bool
  k_absent :: bool
  k_held :: "string option"
  k_todo :: "string list"

text \<open>A program that is never refused: the answers are those the knowledge lets it expect.\<close>

primrec sure :: "'r admin \<Rightarrow> project \<Rightarrow> ('r \<Rightarrow> knowledge \<Rightarrow> bool) \<Rightarrow> knowledge \<Rightarrow> bool" where
  "sure (Finished r) me Q kn = Q r kn"
| "sure OutOfFuel me Q kn = True"
| "sure (Request c k) me Q kn =
     (let ok = Inr (False, []) in
      case c of
        AdvisoryLock \<Rightarrow> \<not> k_locked kn \<and> \<not> k_absent kn \<and> sure (k ok) me Q (kn\<lparr>k_locked := True\<rparr>)
      | AdvisoryUnlock \<Rightarrow> sure (k ok) me Q (kn\<lparr>k_locked := False, k_absent := False\<rparr>)
      | CloseConn \<Rightarrow> sure (k ok) me Q (kn\<lparr>k_locked := False, k_absent := False\<rparr>)
      | DatabaseExists x \<Rightarrow> x = pj_template me \<and> k_locked kn \<and>
          sure (k (Inr (True, []))) me Q (kn\<lparr>k_known := True\<rparr>) \<and>
          sure (k ok) me Q (kn\<lparr>k_absent := True\<rparr>)
      | DropDatabase x \<Rightarrow>
          (if x = pj_staging me then sure (k ok) me Q (kn\<lparr>k_mine := None\<rparr>)
           else k_held kn = Some x \<and> sure (k ok) me Q (kn\<lparr>k_held := None\<rparr>))
      | CreateDatabase x \<Rightarrow> x = pj_staging me \<and> k_mine kn = None \<and> sure (k ok) me Q (kn\<lparr>k_mine := Some []\<rparr>)
      | CloneDatabase x t \<Rightarrow> t = pj_template me \<and> k_known kn \<and> x \<in> set (k_todo kn) \<and>
          sure (k ok) me Q (kn\<lparr>k_held := Some x, k_todo := remove1 x (k_todo kn)\<rparr>)
      | RenameDatabase x y \<Rightarrow> x = pj_staging me \<and> y = pj_template me \<and> k_mine kn \<noteq> None \<and> k_absent kn \<and>
          sure (k ok) me Q (kn\<lparr>k_mine := None, k_known := True, k_absent := False\<rparr>)
      | AppliedTo x \<Rightarrow> x = pj_staging me \<and> (\<exists>s. k_mine kn = Some s \<and> sure (k (Inr (True, s))) me Q kn)
      | ApplyTo x m \<Rightarrow> x = pj_staging me \<and>
          (\<exists>s. k_mine kn = Some s \<and> sure (k ok) me Q (kn\<lparr>k_mine := Some (s @ [m])\<rparr>))
      | _ \<Rightarrow> sure (k ok) me Q kn)"
| "sure (Clock k) me Q kn = (\<forall>t. sure (k t) me Q kn)"
| "sure (Until t p) me Q kn = sure p me Q kn"

lemma sure_followed: "sure (followed p k) me Q kn = sure p me (\<lambda>r. sure (k r) me Q) kn"
  by (induction p arbitrary: kn) (simp_all add: Let_def split: admin_call.split)

lemma sure_mono:
  "sure p me Q kn \<Longrightarrow> (\<And>r kn'. Q r kn' \<Longrightarrow> Q' r kn') \<Longrightarrow> sure p me Q' kn"
  by (induction p arbitrary: kn) (auto simp: Let_def split: admin_call.splits if_splits)

text \<open>An attempt that succeeds is not repeated.\<close>

lemma sure_retry:
  assumes "sure fn me (\<lambda>r kn'. r = None \<and> Q None kn') kn"
  shows "sure (retry fuel budget fn) me Q kn"
proof (cases fuel)
  case (Suc n)
  show ?thesis
    by (simp add: Suc retry_def sure_followed) (auto intro: sure_mono [OF assms])
qed (simp add: retry_def)

section \<open>A process that is not refused\<close>

text \<open>What it takes: a database, migrations that can be read and that goose applies.\<close>

definition healthy :: "harness \<Rightarrow> bool" where
  "healthy h =
     (h_DatabaseURL h \<noteq> [] \<and> (\<exists>ms. migrations h = Inr ms) \<and> h_dialect h = None \<and>
      h_goose h (h_ReadDir h) [] = (files_of h, None) \<and> dsn_law h \<and> digest_law h)"

definition unlocked :: "knowledge \<Rightarrow> bool" where
  "unlocked kn = (\<not> k_locked kn \<and> \<not> k_absent kn)"

lemma project_names_differ: "digest_law h \<Longrightarrow> pj_staging (project_of h) \<noteq> pj_template (project_of h)"
  using staging_not_template [of h h] by simp

lemma sure_apply_each:
  "sure (apply_each (pj_staging me) ms None) me (\<lambda>r kn'. r = None \<and> kn' = kn\<lparr>k_mine := Some (s @ ms)\<rparr>)
     (kn\<lparr>k_mine := Some s\<rparr>)"
proof (induction ms arbitrary: s)
  case (Cons m ms)
  show ?case using Cons.IH [of "s @ [m]"] by simp
qed simp

lemma sure_migrate:
  assumes "healthy h"
  shows "sure (migrate h (replaceDBName (h_DatabaseURL h) (pj_staging (project_of h)))) (project_of h)
    (\<lambda>r kn'. r = Inr () \<and> kn' = kn\<lparr>k_mine := Some (files_of h)\<rparr>) (kn\<lparr>k_mine := Some []\<rparr>)"
proof -
  have db: "h_database h (replaceDBName (h_DatabaseURL h) x) = x" for x
    using assms by (simp add: healthy_def dsn_law_def)
  show ?thesis
    using assms sure_apply_each [where me = "project_of h" and ms = "files_of h" and kn = kn and s = "[]"]
    by (simp add: migrate_def guarded_def goose_up_def healthy_def db sure_followed)
      (auto elim!: sure_mono)
qed

lemma sure_stage:
  assumes "healthy h" "k_absent kn"
  shows "sure (stage fuel h (template_name h)) (project_of h)
    (\<lambda>r kn'. r = Inr (template_name h) \<and> kn' = kn\<lparr>k_mine := None, k_known := True, k_absent := False\<rparr>) kn"
proof -
  have promote: "sure (retry fuel b (attempt (RenameDatabase (pj_staging (project_of h)) (pj_template (project_of h)))))
      (project_of h) (\<lambda>r kn'. r = None \<and> kn' = kn\<lparr>k_mine := None, k_known := True, k_absent := False\<rparr>)
      (kn\<lparr>k_mine := Some (files_of h)\<rparr>)" for b
    using assms(2) by (intro sure_retry) (simp add: attempt_def)
  show ?thesis
    using project_names_differ [of h] assms(1)
    by (auto simp: stage_def Let_def guarded_def sure_followed healthy_def intro!: sure_mono [OF promote [simplified]]
        sure_mono [OF sure_migrate [OF assms(1), of "kn", simplified]])
qed

lemma sure_buildTemplate:
  assumes "healthy h" "unlocked kn"
  shows "sure (buildTemplate fuel h) (project_of h)
    (\<lambda>r kn'. r = Inr (template_name h) \<and> unlocked kn' \<and> k_known kn' \<and> k_todo kn' = k_todo kn) kn"
proof -
  obtain ms where "migrations h = Inr ms" using assms(1) by (auto simp: healthy_def)
  then show ?thesis
    using assms
    by (auto simp: buildTemplate_of_files guarded_def deferring_def ignored_def sure_followed unlocked_def
        intro!: sure_mono [OF sure_stage])
qed

lemma sure_DB:
  assumes "healthy h" "unlocked kn" "k_known kn" "x \<in> set (k_todo kn)" "spare x"
  shows "sure (DB fuel h (Inr (template_name h)) x) (project_of h)
    (\<lambda>r kn'. r = Ran \<and> unlocked kn' \<and> k_known kn' \<and> k_todo kn' = remove1 x (k_todo kn)) kn"
proof -
  have clone: "sure (retry fuel b (attempt (CloneDatabase x (template_name h)))) (project_of h)
      (\<lambda>r kn'. r = None \<and> kn' = kn\<lparr>k_held := Some x, k_todo := remove1 x (k_todo kn)\<rparr>) kn" for b
    using assms by (intro sure_retry) (simp add: attempt_def)
  have "x \<noteq> pj_staging (project_of h)" using names_not_spare assms(5) by auto
  then show ?thesis
    using assms(2,3) by (auto simp: DB_def sure_followed ignored_def unlocked_def intro!: sure_mono [OF clone])
qed

definition settled_end :: "string list \<Rightarrow> verdict_of_test list \<Rightarrow> knowledge \<Rightarrow> bool" where
  "settled_end names r kn = (r = replicate (length names) Ran \<and> unlocked kn)"

lemma sure_test_process:
  assumes "healthy h" "unlocked kn" "k_todo kn = names" "\<forall>x \<in> set names. spare x"
  shows "sure (test_process fuel h names) (project_of h) (settled_end names) kn"
proof -
  have "sure (run_tests fuel h (Inr (template_name h)) ns) (project_of h)
      (\<lambda>r kn'. r = replicate (length ns) Ran \<and> unlocked kn') kn"
    if "unlocked kn" "k_known kn" "k_todo kn = ns" "\<forall>x \<in> set ns. spare x" for ns kn
    using that
  proof (induction ns arbitrary: kn)
    case (Cons n ns)
    have rest: "sure (followed (run_tests fuel h (Inr (template_name h)) ns) (\<lambda>vs. Finished (Ran # vs)))
        (project_of h) (\<lambda>r kn'. r = replicate (length (n # ns)) Ran \<and> unlocked kn') kn1"
      if "unlocked kn1" "k_known kn1" "k_todo kn1 = ns" for kn1
      unfolding sure_followed by (rule sure_mono [OF Cons.IH]) (use that Cons.prems in auto)
    show ?case
      by (simp only: run_tests.simps sure_followed [of "DB _ _ _ _"], rule sure_mono [OF sure_DB [OF assms(1)]])
        (use Cons.prems rest in auto)
  qed simp
  then have "sure (run_tests fuel h (Inr (template_name h)) names) (project_of h) (settled_end names) kn"
    if "unlocked kn" "k_known kn" "k_todo kn = names" for kn
    by (rule sure_mono) (use that assms(4) in \<open>simp_all add: settled_end_def\<close>)
  then show ?thesis
    using assms
    by (auto simp: test_process_def sure_followed healthy_def settled_end_def intro!: sure_mono [OF sure_buildTemplate])
qed

section \<open>Knowledge and the server\<close>

definition knows :: "project \<Rightarrow> nat \<Rightarrow> knowledge \<Rightarrow> cluster \<Rightarrow> bool" where
  "knows me i kn cl =
     (k_mine kn = databases cl (pj_staging me) \<and> (k_locked kn \<longleftrightarrow> template_lock cl = Some i) \<and>
      (k_known kn \<longrightarrow> databases cl (pj_template me) \<noteq> None) \<and>
      (k_absent kn \<longrightarrow> k_locked kn \<and> databases cl (pj_template me) = None) \<and>
      distinct (k_todo kn) \<and> (\<forall>x \<in> set (k_todo kn). spare x \<and> databases cl x = None) \<and>
      (\<forall>x. k_held kn = Some x \<longrightarrow> spare x))"

definition good_names :: "project \<Rightarrow> bool" where
  "good_names me = (pj_staging me \<noteq> pj_template me \<and> \<not> spare (pj_staging me) \<and> \<not> spare (pj_template me))"

text \<open>What the others see of a call: the staging database, the template under the lock, spare names.\<close>

definition unobtrusive :: "project \<Rightarrow> nat \<Rightarrow> knowledge \<Rightarrow> cluster \<Rightarrow> cluster \<Rightarrow> bool" where
  "unobtrusive me i kn cl cl' =
     ((\<forall>x. databases cl' x \<noteq> databases cl x \<longrightarrow>
         x = pj_staging me \<or> x = pj_template me \<and> k_locked kn \<and> databases cl' x \<noteq> None \<or>
         spare x \<and> (x \<in> set (k_todo kn) \<or> databases cl' x = None)) \<and>
      (template_lock cl' = template_lock cl \<or>
         template_lock cl \<in> {None, Some i} \<and> template_lock cl' \<in> {None, Some i}))"

text \<open>A call of a sure program goes as expected, unless it waits for the lock.\<close>

lemma sure_call:
  assumes "sure (Request c k) me Q kn" "knows me i kn cl" "good_names me" "server_does i c cl = Some (a, cl')"
  shows "\<exists>kn'. sure (k a) me Q kn' \<and> knows me i kn' cl' \<and> set (k_todo kn') \<subseteq> set (k_todo kn) \<and>
    unobtrusive me i kn cl cl' \<and> cluster_now cl' = cluster_now cl"
proof (cases c)
  case (AdvisoryLock)
  show ?thesis
    by (rule exI [of _ "kn\<lparr>k_locked := True\<rparr>"])
      (use assms AdvisoryLock in \<open>auto simp: knows_def unobtrusive_def split: if_splits\<close>)
next
  case AdvisoryUnlock
  show ?thesis
    by (rule exI [of _ "kn\<lparr>k_locked := False, k_absent := False\<rparr>"])
      (use assms AdvisoryUnlock in \<open>auto simp: knows_def unobtrusive_def release_lock_def split: if_splits\<close>)
next
  case CloseConn
  show ?thesis
    by (rule exI [of _ "kn\<lparr>k_locked := False, k_absent := False\<rparr>"])
      (use assms CloseConn in \<open>auto simp: knows_def unobtrusive_def release_lock_def split: if_splits\<close>)
next
  case (DatabaseExists x)
  show ?thesis
    by (rule exI [of _ "if databases cl x \<noteq> None then kn\<lparr>k_known := True\<rparr> else kn\<lparr>k_absent := True\<rparr>"])
      (use assms DatabaseExists in \<open>auto simp: knows_def unobtrusive_def\<close>)
next
  case (DropDatabase x)
  show ?thesis
    by (rule exI [of _ "if x = pj_staging me then kn\<lparr>k_mine := None\<rparr> else kn\<lparr>k_held := None\<rparr>"])
      (use assms DropDatabase in \<open>auto simp: knows_def unobtrusive_def good_names_def set_database_def split: if_splits\<close>)
next
  case (CreateDatabase x)
  show ?thesis
    by (rule exI [of _ "kn\<lparr>k_mine := Some []\<rparr>"])
      (use assms CreateDatabase in \<open>auto simp: knows_def unobtrusive_def good_names_def set_database_def split: option.splits\<close>)
next
  case (CloneDatabase x t)
  show ?thesis
    by (rule exI [of _ "kn\<lparr>k_held := Some x, k_todo := remove1 x (k_todo kn)\<rparr>"])
      (use assms CloneDatabase in \<open>auto simp: knows_def unobtrusive_def good_names_def set_database_def refusal_def
          dest: notin_set_remove1 split: option.splits if_splits\<close>)
next
  case (RenameDatabase x y)
  show ?thesis
    by (rule exI [of _ "kn\<lparr>k_mine := None, k_known := True, k_absent := False\<rparr>"])
      (use assms RenameDatabase in \<open>auto simp: knows_def unobtrusive_def good_names_def set_database_def refusal_def
          split: option.splits if_splits\<close>)
next
  case (AppliedTo x)
  show ?thesis
    by (rule exI [of _ kn])
      (use assms AppliedTo in \<open>auto simp: knows_def unobtrusive_def refusal_def split: option.splits\<close>)
next
  case (ApplyTo x m)
  then obtain s where "k_mine kn = Some s" using assms(1) by auto
  then show ?thesis
    by (intro exI [of _ "kn\<lparr>k_mine := Some (s @ [m])\<rparr>"])
      (use assms ApplyTo in \<open>auto simp: knows_def unobtrusive_def good_names_def set_database_def refusal_def split: option.splits\<close>)
qed (use assms in \<open>auto simp: unobtrusive_def\<close>)

text \<open>Only the lock makes a sure program wait.\<close>

lemma sure_not_blocked:
  assumes "sure (Request c k) me Q kn" "template_lock cl \<in> {None, Some i}"
  shows "server_does i c cl \<noteq> None"
  using assms by (cases c) (auto simp: refusal_def split: option.splits)

text \<open>The others' knowledge stays true.\<close>

lemma knows_frame:
  assumes "knows me' j kn' cl" "unobtrusive me i kn cl cl'" "knows me i kn cl" "i \<noteq> j"
    and "good_names me'" "pj_staging me' \<noteq> pj_staging me" "pj_staging me' \<noteq> pj_template me" "pj_template me' \<noteq> pj_staging me"
    and "\<not> spare (pj_staging me)" "\<not> spare (pj_template me)" "set (k_todo kn) \<inter> set (k_todo kn') = {}"
  shows "knows me' j kn' cl'"
proof -
  have changes: "x = pj_staging me \<or> x = pj_template me \<and> k_locked kn \<and> databases cl' x \<noteq> None \<or>
      spare x \<and> (x \<in> set (k_todo kn) \<or> databases cl' x = None)"
    if "databases cl' x \<noteq> databases cl x" for x
    using assms(2) that by (simp add: unobtrusive_def)
  have staging: "databases cl' (pj_staging me') = databases cl (pj_staging me')"
    using changes [of "pj_staging me'"] assms(5-8) by (auto simp: good_names_def)
  have lock: "template_lock cl' = Some j \<longleftrightarrow> template_lock cl = Some j"
    using assms(2,4) by (auto simp: unobtrusive_def)
  have known: "databases cl' (pj_template me') \<noteq> None" if "databases cl (pj_template me') \<noteq> None"
    using changes [of "pj_template me'"] that assms(5,8) unfolding good_names_def by metis
  have absent: "databases cl' (pj_template me') = None"
    if "databases cl (pj_template me') = None" "template_lock cl = Some j"
  proof -
    have "\<not> k_locked kn" using assms(3,4) that(2) by (auto simp: knows_def)
    then show ?thesis using changes [of "pj_template me'"] that assms(5,8) unfolding good_names_def by metis
  qed
  have todo: "databases cl' x = None" if "x \<in> set (k_todo kn')" for x
  proof -
    have "spare x" "databases cl x = None" "x \<notin> set (k_todo kn)"
      using that assms(1,11) by (auto simp: knows_def)
    then show ?thesis using changes [of x] assms(9,10) by metis
  qed
  show ?thesis
    using assms(1) staging lock known absent todo by (auto simp: knows_def)
qed

section \<open>All processes, nothing failing\<close>

type_synonym tests = "(harness \<times> string list) list"

definition fair_inv :: "tests \<Rightarrow> (nat \<Rightarrow> knowledge) \<Rightarrow> lab \<Rightarrow> bool" where
  "fair_inv hs kns s =
     (length (fst s) = length hs \<and>
      (\<forall>i < length hs. \<exists>p. fst s ! i = Some p \<and> lasts p (cluster_now (snd s)) \<and>
         sure p (project_of (fst (hs ! i))) (settled_end (snd (hs ! i))) (kns i) \<and>
         knows (project_of (fst (hs ! i))) i (kns i) (snd s)) \<and>
      (\<forall>i < length hs. \<forall>j < length hs. i \<noteq> j \<longrightarrow> set (k_todo (kns i)) \<inter> set (k_todo (kns j)) = {}) \<and>
      (\<forall>i. template_lock (snd s) = Some i \<longrightarrow> i < length hs))"

definition good_tests :: "tests \<Rightarrow> bool" where
  "good_tests hs = (told_apart (map fst hs) \<and> (\<forall>t \<in> set hs. healthy (fst t)))"

lemma good_testsD:
  assumes "good_tests hs" "i < length hs"
  shows "healthy (fst (hs ! i))" "digest_law (fst (hs ! i))" "good_names (project_of (fst (hs ! i)))"
proof -
  show h: "healthy (fst (hs ! i))" using assms by (simp add: good_tests_def)
  then show d: "digest_law (fst (hs ! i))" by (simp add: healthy_def)
  show "good_names (project_of (fst (hs ! i)))"
    using project_names_differ [OF d] names_not_spare by (simp add: good_names_def)
qed

lemma good_tests_apart:
  assumes "good_tests hs" "i < length hs" "j < length hs" "i \<noteq> j"
  shows "pj_staging (project_of (fst (hs ! i))) \<noteq> pj_staging (project_of (fst (hs ! j)))"
    and "pj_staging (project_of (fst (hs ! i))) \<noteq> pj_template (project_of (fst (hs ! j)))"
proof -
  note d = good_testsD(2) [OF assms(1,2)] good_testsD(2) [OF assms(1,3)]
  have "h_Getpid (fst (hs ! i)) \<noteq> h_Getpid (fst (hs ! j))"
    using assms by (auto simp: good_tests_def told_apart_def distinct_conv_nth)
  then show "pj_staging (project_of (fst (hs ! i))) \<noteq> pj_staging (project_of (fst (hs ! j)))"
    using staging_inject [OF d] by auto
  show "pj_staging (project_of (fst (hs ! i))) \<noteq> pj_template (project_of (fst (hs ! j)))"
    using staging_not_template [OF d] by simp
qed

lemma fair_thread:
  assumes "fair_inv hs kns (ws, cl)" "i < length hs" "ws ! i = Some p"
  shows "lasts p (cluster_now cl)" "sure p (project_of (fst (hs ! i))) (settled_end (snd (hs ! i))) (kns i)"
    "knows (project_of (fst (hs ! i))) i (kns i) cl"
  using assms by (auto simp: fair_inv_def)

text \<open>One process moves, the others keep what they know.\<close>

lemma fair_inv_move:
  assumes "fair_inv hs kns (ws, cl)" "good_tests hs" "i < length hs"
    and "lasts p' (cluster_now cl')" "sure p' (project_of (fst (hs ! i))) (settled_end (snd (hs ! i))) kn'"
    and "knows (project_of (fst (hs ! i))) i kn' cl'" "set (k_todo kn') \<subseteq> set (k_todo (kns i))"
    and "unobtrusive (project_of (fst (hs ! i))) i (kns i) cl cl'" "cluster_now cl \<le> cluster_now cl'"
  shows "fair_inv hs (kns(i := kn')) (ws[i := Some p'], cl')"
proof -
  let ?me = "\<lambda>j. project_of (fst (hs ! j))"
  have len: "length ws = length hs" using assms(1) by (simp add: fair_inv_def)
  have mine: "knows (?me i) i (kns i) cl" using assms(1,3) by (auto simp: fair_inv_def)
  have disjoint: "set (k_todo (kns j)) \<inter> set (k_todo (kns l)) = {}" if "j < length hs" "l < length hs" "j \<noteq> l" for j l
    using assms(1) that by (simp add: fair_inv_def)
  have others: "\<exists>p. ws ! j = Some p \<and> lasts p (cluster_now cl') \<and>
      sure p (?me j) (settled_end (snd (hs ! j))) (kns j) \<and> knows (?me j) j (kns j) cl'"
    if j: "j < length hs" "j \<noteq> i" for j
  proof -
    obtain p where p: "ws ! j = Some p" using assms(1) j(1) by (auto simp: fair_inv_def)
    note th = fair_thread [OF assms(1) j(1) p]
    have "knows (?me j) j (kns j) cl'"
      using knows_frame [OF th(3) assms(8) mine] good_tests_apart [OF assms(2) j(1) assms(3)]
        good_tests_apart(2) [OF assms(2,3) j(1)] good_testsD(3) [OF assms(2)] j assms(3) disjoint [of i j]
      unfolding good_names_def by metis
    with p th lasts_later [OF th(1) assms(9)] show ?thesis by blast
  qed
  show ?thesis
    unfolding fair_inv_def fst_conv snd_conv
  proof (intro conjI allI impI)
    fix j assume "j < length hs"
    then show "\<exists>p. ws[i := Some p'] ! j = Some p \<and> lasts p (cluster_now cl') \<and>
        sure p (?me j) (settled_end (snd (hs ! j))) ((kns(i := kn')) j) \<and> knows (?me j) j ((kns(i := kn')) j) cl'"
      using others [of j] assms(3-6) len by (cases "j = i") simp_all
  next
    fix j l assume "j < length hs" "l < length hs" "j \<noteq> l"
    then show "set (k_todo ((kns(i := kn')) j)) \<inter> set (k_todo ((kns(i := kn')) l)) = {}"
      using disjoint [of j l] assms(7) by (cases "j = i"; cases "l = i") auto
  next
    fix j assume "template_lock cl' = Some j"
    then have "j = i \<or> template_lock cl = Some j" using assms(8) by (auto simp: unobtrusive_def)
    then show "j < length hs" using assms(1,3) by (auto simp: fair_inv_def)
  qed (use len in simp)
qed

lemma unobtrusive_same:
  "databases cl' = databases cl \<Longrightarrow> template_lock cl' = template_lock cl \<Longrightarrow> unobtrusive me i kn cl cl'"
  by (simp add: unobtrusive_def)

lemma fair_inv_step:
  assumes "fair_step s s'" "fair_inv hs kns s" "good_tests hs"
  shows "\<exists>kns'. fair_inv hs kns' s'"
  using assms(1)
proof cases
  case (works i ws p cl p' cl')
  then have inv: "fair_inv hs kns (ws, cl)" using assms(2) by simp
  then have i: "i < length hs" using works(3) by (simp add: fair_inv_def)
  note th = fair_thread [OF inv i works(4)]
  have last: "lasts p' (cluster_now cl')" "cluster_now cl' = cluster_now cl"
    using advance_lasts [OF works(5) th(1)] by blast+
  show ?thesis
  proof (cases p)
    case (Request c k)
    then obtain a where a: "server_does i c cl = Some (a, cl')" "p' = k a" using works(5) by auto
    from sure_call [OF th(2) [unfolded Request] th(3) good_testsD(3) [OF assms(3) i] a(1)] last a(2) works(2)
    show ?thesis using fair_inv_move [OF inv assms(3) i last(1)] by auto
  next
    case (Clock k)
    then have "p' = k (cluster_now cl)" "cl' = cl" using works(5) by force+
    with th Clock last works(2) show ?thesis
      using fair_inv_move [OF inv assms(3) i, of p' cl "kns i"] by (auto simp: unobtrusive_same)
  next
    case (Until u q)
    then have "p' = q" "cl' = cl" using works(5) by (force split: if_splits)+
    with th Until last works(2) show ?thesis
      using fair_inv_move [OF inv assms(3) i, of p' cl "kns i"] by (auto simp: unobtrusive_same)
  qed (use works(5) in simp_all)
next
  case (passes dt ws cl)
  have inv: "fair_inv hs kns (ws, cl)" using assms(2) passes(1) by simp
  have later: "lasts p (cluster_now cl + dt)" if "lasts p (cluster_now cl)" for p :: "verdict_of_test list admin"
    using lasts_later [OF that, of "cluster_now cl + dt"] passes(3) by simp
  have same: "knows me i kn (cl\<lparr>cluster_now := t\<rparr>) = knows me i kn cl" for me i kn t
    by (simp add: knows_def)
  have "fair_inv hs kns s'"
    using inv later unfolding passes(2) fair_inv_def fst_conv snd_conv same by simp blast
  then show ?thesis by blast
qed

lemma fair_inv_steps:
  "fair_step\<^sup>*\<^sup>* s s' \<Longrightarrow> good_tests hs \<Longrightarrow> fair_inv hs kns s \<Longrightarrow> \<exists>kns'. fair_inv hs kns' s'"
  by (induction rule: rtranclp_induct) (use fair_inv_step in blast)+

text \<open>The holder of the lock, or anybody when it is free, can go on to its end alone.\<close>

lemma solo:
  assumes "good_tests hs" "fair_inv hs kns (ws, cl)" "i < length hs" "ws ! i = Some p"
    and "template_lock cl \<in> {None, Some i}"
  shows "\<exists>r cl'. fair_step\<^sup>*\<^sup>* (ws, cl) (ws[i := Some (Finished r)], cl') \<and> template_lock cl' \<in> {None, Some i}"
  using assms(2-5)
proof (induction p arbitrary: ws cl kns)
  case (Finished r)
  then have "ws[i := Some (Finished r)] = ws" by (metis list_update_id)
  with Finished show ?case by (metis rtranclp.rtrancl_refl)
next
  case OutOfFuel
  then show ?case using fair_thread(1) [OF OutOfFuel(1-3)] by simp
next
  case (Request c k)
  note th = fair_thread [OF Request.prems(1-3)]
  obtain a cl1 where a: "server_does i c cl = Some (a, cl1)"
    using sure_not_blocked [OF th(2) Request.prems(4)] by auto
  have len: "i < length ws" using Request.prems(1,2) by (simp add: fair_inv_def)
  have step: "fair_step (ws, cl) (ws[i := Some (k a)], cl1)"
    using a len Request.prems(3) by (auto intro!: fair_step.works)
  obtain kns1 where inv: "fair_inv hs kns1 (ws[i := Some (k a)], cl1)"
    using fair_inv_step [OF step Request.prems(1) assms(1)] by blast
  have "template_lock cl1 \<in> {None, Some i}"
    using sure_call [OF th(2,3) good_testsD(3) [OF assms(1) Request.prems(2)] a] Request.prems(4)
    by (auto simp: unobtrusive_def)
  from Request.IH [OF rangeI [of k a] inv Request.prems(2) _ this] len obtain r cl'
    where "fair_step\<^sup>*\<^sup>* (ws[i := Some (k a)], cl1) (ws[i := Some (Finished r)], cl')" "template_lock cl' \<in> {None, Some i}"
    by auto
  with step show ?case by (meson converse_rtranclp_into_rtranclp)
next
  case (Clock k)
  have len: "i < length ws" using Clock.prems(1,2) by (simp add: fair_inv_def)
  have step: "fair_step (ws, cl) (ws[i := Some (k (cluster_now cl))], cl)"
    using len Clock.prems(3) by (auto intro!: fair_step.works)
  obtain kns1 where inv: "fair_inv hs kns1 (ws[i := Some (k (cluster_now cl))], cl)"
    using fair_inv_step [OF step Clock.prems(1) assms(1)] by blast
  from Clock.IH [OF rangeI [of k "cluster_now cl"] inv Clock.prems(2) _ Clock.prems(4)] len obtain r cl'
    where "fair_step\<^sup>*\<^sup>* (ws[i := Some (k (cluster_now cl))], cl) (ws[i := Some (Finished r)], cl')" "template_lock cl' \<in> {None, Some i}"
    by auto
  with step show ?case by (meson converse_rtranclp_into_rtranclp)
next
  case (Until u q)
  let ?cl = "cl\<lparr>cluster_now := cluster_now cl + max 0 (u - cluster_now cl)\<rparr>"
  have len: "i < length ws" using Until.prems(1,2) by (simp add: fair_inv_def)
  have wait: "fair_step (ws, cl) (ws, ?cl)" by (rule fair_step.passes) simp
  have step: "fair_step (ws, ?cl) (ws[i := Some q], ?cl)"
    by (rule fair_step.works [OF len Until.prems(3)]) simp
  obtain kns1 where "fair_inv hs kns1 (ws, ?cl)"
    using fair_inv_step [OF wait Until.prems(1) assms(1)] by blast
  then obtain kns2 where inv: "fair_inv hs kns2 (ws[i := Some q], ?cl)"
    using fair_inv_step [OF step _ assms(1)] by blast
  have "template_lock ?cl \<in> {None, Some i}" using Until.prems(4) by simp
  from Until.IH [OF inv Until.prems(2) _ this] len
  obtain r cl' where "fair_step\<^sup>*\<^sup>* (ws[i := Some q], ?cl) (ws[i := Some (Finished r)], cl')" "template_lock cl' \<in> {None, Some i}"
    by auto
  then show ?case using wait step by (meson converse_rtranclp_into_rtranclp)
qed

text \<open>A process that has ended has run its tests and holds no lock.\<close>

lemma fair_finished:
  assumes "fair_inv hs kns (ws, cl)" "i < length hs" "ws ! i = Some (Finished r)"
  shows "r = replicate (length (snd (hs ! i))) Ran" "template_lock cl \<noteq> Some i"
  using fair_thread [OF assms] by (simp_all add: settled_end_def unlocked_def knows_def)

definition has_ended :: "'r admin option \<Rightarrow> bool" where
  "has_ended p = (case p of Some (Finished _) \<Rightarrow> True | _ \<Rightarrow> False)"

lemma finishedD: "has_ended p \<Longrightarrow> \<exists>r. p = Some (Finished r)"
  by (auto simp: has_ended_def split: option.splits admin.splits)

lemma solo_done:
  assumes "good_tests hs" "fair_inv hs kns (ws, cl)" "i < length hs" "template_lock cl \<in> {None, Some i}"
  shows "\<exists>r cl' kns'. fair_step\<^sup>*\<^sup>* (ws, cl) (ws[i := Some (Finished r)], cl') \<and>
    fair_inv hs kns' (ws[i := Some (Finished r)], cl') \<and> template_lock cl' = None"
proof -
  obtain p where "ws ! i = Some p" using assms(2,3) by (auto simp: fair_inv_def)
  from solo [OF assms(1-3) this assms(4)]
  obtain r cl' where s: "fair_step\<^sup>*\<^sup>* (ws, cl) (ws[i := Some (Finished r)], cl')" "template_lock cl' \<in> {None, Some i}"
    by blast
  from fair_inv_steps [OF s(1) assms(1,2)] obtain kns' where inv: "fair_inv hs kns' (ws[i := Some (Finished r)], cl')"
    by blast
  have "i < length ws" using assms(2,3) by (simp add: fair_inv_def)
  with fair_finished(2) [OF inv assms(3)] s(2) have "template_lock cl' = None" by auto
  with s(1) inv show ?thesis by blast
qed

lemma all_done:
  assumes "good_tests hs" "fair_inv hs kns (ws, cl)" "template_lock cl = None" "m \<le> length hs"
  shows "\<exists>ws' cl' kns'. fair_step\<^sup>*\<^sup>* (ws, cl) (ws', cl') \<and> fair_inv hs kns' (ws', cl') \<and> template_lock cl' = None \<and>
    (\<forall>i < m. has_ended (ws' ! i))"
  using assms(4)
proof (induction m)
  case 0
  show ?case
    by (rule exI [of _ ws], rule exI [of _ cl], rule exI [of _ kns]) (use assms in simp)
next
  case (Suc m)
  then obtain ws' cl' kns' where IH: "fair_step\<^sup>*\<^sup>* (ws, cl) (ws', cl')" "fair_inv hs kns' (ws', cl')"
    "template_lock cl' = None" "\<forall>i < m. has_ended (ws' ! i)"
    by auto
  obtain r cl2 kns2 where m: "fair_step\<^sup>*\<^sup>* (ws', cl') (ws'[m := Some (Finished r)], cl2)"
    "fair_inv hs kns2 (ws'[m := Some (Finished r)], cl2)" "template_lock cl2 = None"
    using solo_done [OF assms(1) IH(2), of m] IH(3) Suc.prems by auto
  have "m < length ws'" using IH(2) Suc.prems by (simp add: fair_inv_def)
  then have "\<forall>i < Suc m. has_ended (ws'[m := Some (Finished r)] ! i)"
    using IH(4) by (auto simp: less_Suc_eq has_ended_def)
  with m rtranclp_trans [OF IH(1) m(1)] show ?case by blast
qed

text \<open>From wherever a fair run has got to, it can be carried to the end with every test run.\<close>

lemma fair_run_ends:
  assumes "good_tests hs" "fair_inv hs kns s"
  shows "\<exists>s'. fair_step\<^sup>*\<^sup>* s s' \<and> fst s' = map (\<lambda>t. Some (Finished (replicate (length (snd t)) Ran))) hs"
proof -
  obtain ws cl where s: "s = (ws, cl)" by (cases s)
  have "\<exists>ws1 cl1 kns1. fair_step\<^sup>*\<^sup>* (ws, cl) (ws1, cl1) \<and> fair_inv hs kns1 (ws1, cl1) \<and> template_lock cl1 = None"
  proof (cases "template_lock cl")
    case (Some i)
    then have "i < length hs" using assms(2) s by (simp add: fair_inv_def)
    with solo_done [OF assms(1) assms(2) [unfolded s]] Some show ?thesis by blast
  qed (use assms(2) s in blast)
  then obtain ws1 cl1 kns1 where one: "fair_step\<^sup>*\<^sup>* (ws, cl) (ws1, cl1)" "fair_inv hs kns1 (ws1, cl1)"
    "template_lock cl1 = None" by blast
  from all_done [OF assms(1) this(2,3) le_refl] obtain ws2 cl2 kns2 where two: "fair_step\<^sup>*\<^sup>* (ws1, cl1) (ws2, cl2)"
    "fair_inv hs kns2 (ws2, cl2)" "\<forall>i < length hs. has_ended (ws2 ! i)" by blast
  have "ws2 = map (\<lambda>t. Some (Finished (replicate (length (snd t)) Ran))) hs"
  proof (rule nth_equalityI)
    show len: "length ws2 = length (map (\<lambda>t. Some (Finished (replicate (length (snd t)) Ran))) hs)"
      using two(2) by (simp add: fair_inv_def)
    fix i assume "i < length ws2"
    then have i: "i < length hs" using len by simp
    then obtain r where "ws2 ! i = Some (Finished r)"
      using two(3) finishedD by blast
    with fair_finished(1) [OF two(2) i] i
    show "ws2 ! i = map (\<lambda>t. Some (Finished (replicate (length (snd t)) Ran))) hs ! i" by simp
  qed
  with rtranclp_trans [OF one(1) two(1)] show ?thesis using s by force
qed

text \<open>A run starts with the lock free and with no test database of its names.\<close>

lemma fair_inv_opened:
  assumes "good_tests hs" "502 \<le> fuel" "template_lock cl = None" "distinct (concat (map snd hs))"
    and "\<forall>t \<in> set hs. \<forall>x \<in> set (snd t). spare x \<and> databases cl x = None"
  shows "\<exists>kns. fair_inv hs kns (opened fuel hs cl)"
proof -
  let ?kn = "\<lambda>i. \<lparr>k_mine = databases cl (pj_staging (project_of (fst (hs ! i)))), k_locked = False, k_known = False,
    k_absent = False, k_held = None, k_todo = snd (hs ! i)\<rparr>"
  have each: "sure (test_process fuel (fst (hs ! i)) (snd (hs ! i))) (project_of (fst (hs ! i)))
      (settled_end (snd (hs ! i))) (?kn i) \<and> knows (project_of (fst (hs ! i))) i (?kn i) cl"
    if i: "i < length hs" for i
  proof -
    have "\<forall>x \<in> set (snd (hs ! i)). spare x \<and> databases cl x = None" using assms(5) nth_mem [OF i] by blast
    moreover have "distinct (snd (hs ! i))" using assms(4) i by (simp add: distinct_concat_iff)
    ultimately show ?thesis
      using sure_test_process [OF good_testsD(1) [OF assms(1) i], of "?kn i" "snd (hs ! i)" fuel] assms(3)
      by (simp add: unlocked_def knows_def)
  qed
  have apart: "set (snd (hs ! i)) \<inter> set (snd (hs ! j)) = {}" if "i < length hs" "j < length hs" "i \<noteq> j" for i j
    using assms(4) that
  proof (induction hs arbitrary: i j)
    case (Cons t ts)
    have front: "set (snd t) \<inter> set (snd (ts ! l)) = {}" if "l < length ts" for l
      using Cons.prems(1) nth_mem [OF that] by auto
    have rest: "set (snd (ts ! l)) \<inter> set (snd (ts ! m)) = {}" if "l < length ts" "m < length ts" "l \<noteq> m" for l m
      using Cons.IH [of l m] Cons.prems(1) that by simp
    from Cons.prems(2-4) show ?case using front rest by (cases i; cases j) (simp_all add: Int_commute)
  qed simp
  show ?thesis
    by (rule exI [of _ ?kn])
      (use each apart assms(3) in \<open>auto simp: fair_inv_def opened_def split_beta lasts_test_process [OF assms(2)]\<close>)
qed

end
