(* ===== verification/TestRuns.thy ===== *)
theory TestRuns
  imports FairWeather
begin

text \<open>
  Two test processes on which the properties of the test databases are tried: the first dies in
  the middle of its migrations, the second builds the template and gets to its test.
\<close>

definition sample_dir :: "dirent list" where
  "sample_dir =
     [\<lparr>de_Name = ''2.sql'', de_IsDir = False, de_Content = Inr ''B''\<rparr>,
      \<lparr>de_Name = ''1.sql'', de_IsDir = False, de_Content = Inr ''A''\<rparr>,
      \<lparr>de_Name = ''notes'', de_IsDir = False, de_Content = Inr ''''\<rparr>]"

definition sample_harness :: "int \<Rightarrow> harness" where
  "sample_harness pid =
     \<lparr>h_DatabaseURL = ''pg://h/app'', h_Getpid = pid, h_ReadDir = Inr sample_dir, h_sum256 = (\<lambda>s. ''0123456789ab''),
      h_goose = (\<lambda>_ applied. (drop (length applied) [(''1.sql'', ''A''), (''2.sql'', ''B'')], None)),
      h_dialect = None, h_database = drop 7\<rparr>"

definition sample_tests :: tests where
  "sample_tests = [(sample_harness 1, [''dbt_1'']), (sample_harness 2, [''dbt_2''])]"

definition blank_cluster :: cluster where
  "blank_cluster = \<lparr>databases = (\<lambda>_. None), template_lock = None, cluster_now = 0\<rparr>"

lemma sample_files: "migrations (sample_harness pid) = Inr [(''1.sql'', ''A''), (''2.sql'', ''B'')]"
proof -
  have "filter (\<lambda>e. \<not> de_IsDir e \<and> has_suffix (de_Name e) ''.sql'') sample_dir = take 2 sample_dir"
    by (simp add: sample_dir_def has_suffix_def has_prefix_def)
  moreover have "sort_key de_Name (take 2 sample_dir) = [sample_dir ! 1, sample_dir ! 0]"
    by (simp add: sample_dir_def less_eq_char_def list_le_def)
  ultimately show ?thesis
    by (simp add: migrations_def sample_harness_def sql_files_def) (simp add: sample_dir_def)
qed

lemma sample_names:
  "files_of (sample_harness pid) = [(''1.sql'', ''A''), (''2.sql'', ''B'')]"
  "template_name (sample_harness pid) = ''doorbust_tmpl_0123456789ab''"
  by (simp_all add: files_of_def sample_files template_name_def template_of_def) (simp add: sample_harness_def)

lemma sample_replace: "replaceDBName ''pg://h/app'' x = ''pg://h/'' @ x"
  using replaceDBName_path [of "''pg''" "''h''" "''app''" "[]" x] by simp

lemma sample_laws: "good_tests sample_tests" "outside_laws (map fst sample_tests)"
proof -
  have "dsn_law (sample_harness pid)" for pid
    by (simp add: dsn_law_def sample_harness_def sample_replace)
  moreover have "digest_law (sample_harness pid)" for pid
    by (simp add: digest_law_def sample_harness_def)
  moreover have "h_goose (sample_harness pid) (h_ReadDir (sample_harness pid)) [] = (files_of (sample_harness pid), None)" for pid
    unfolding sample_names by (simp add: sample_harness_def)
  ultimately have "healthy (sample_harness pid)" "goose_law (sample_harness pid) \<and> dsn_law (sample_harness pid) \<and> digest_law (sample_harness pid)" for pid
    by (simp_all add: healthy_def goose_law_def sample_files) (simp add: sample_harness_def)
  then show "good_tests sample_tests" "outside_laws (map fst sample_tests)"
    by (simp_all add: good_tests_def outside_laws_def sample_tests_def told_apart_def sample_names)
      (simp add: sample_harness_def)
qed

text \<open>A schedule: who moves, in which weather, and who dies.\<close>

datatype act = Does nat weather | Dies nat

fun drive :: "act list \<Rightarrow> lab \<Rightarrow> lab option" where
  "drive [] s = Some s"
| "drive (Dies i # acts) (ws, cl) =
     (if i < length ws then drive acts (ws[i := None], release_lock i cl) else None)"
| "drive (Does i w # acts) (ws, cl) =
     (if i < length ws then
        (case ws ! i of
           None \<Rightarrow> None
         | Some p \<Rightarrow> (case advance w i p cl of
             None \<Rightarrow> None
           | Some (p', cl') \<Rightarrow> drive acts (ws[i := Some p'], cl')))
      else None)"

lemma drive_steps: "drive acts s = Some s' \<Longrightarrow> lab_step\<^sup>*\<^sup>* s s'"
proof (induction acts s rule: drive.induct)
  case (2 i acts ws cl)
  then have "i < length ws" "lab_step\<^sup>*\<^sup>* (ws[i := None], release_lock i cl) s'" by (auto split: if_splits)
  then show ?case by (meson converse_rtranclp_into_rtranclp lab_step.crashes)
next
  case (3 i w acts ws cl)
  then obtain p p' cl' where "i < length ws" "ws ! i = Some p" "advance w i p cl = Some (p', cl')"
    "lab_step\<^sup>*\<^sup>* (ws[i := Some p'], cl') s'"
    by (auto split: if_splits option.splits)
  then show ?case by (meson converse_rtranclp_into_rtranclp lab_step.works)
qed simp

lemma retry_loop_more:
  "0 < n \<Longrightarrow> retry_loop n deadline delay fn =
     followed fn (\<lambda>err.
       case err of
         None \<Rightarrow> Finished None
       | Some e \<Rightarrow> Clock (\<lambda>now.
           if now > deadline then Finished (Some e)
           else sleep delay (retry_loop (n - 1) deadline (if delay < 200000 then delay * 2 else delay) fn)))"
proof (cases n)
  case (Suc m)
  then show ?thesis by (simp only: Suc retry_loop.simps diff_Suc_1)
qed simp

definition crash_and_go :: "act list" where
  "crash_and_go = replicate 9 (Does 0 Fair) @ [Dies 0] @ replicate 18 (Does 1 Fair)"

lemma crash_and_go_played:
  "\<exists>ws cl. drive crash_and_go (opened 502 sample_tests blank_cluster) = Some (ws, cl) \<and> testing ''dbt_2'' (ws ! 1) \<and>
     databases cl ''doorbust_tmpl_0123456789ab_building_1'' = Some [(''1.sql'', ''A'')]"
proof -
  have pids: "show_int 1 = ''1''" "show_int 2 = ''2''"
    by code_simp+
  have acts: "crash_and_go = [Does 0 Fair, Does 0 Fair, Does 0 Fair, Does 0 Fair, Does 0 Fair, Does 0 Fair, Does 0 Fair,
    Does 0 Fair, Does 0 Fair, Dies 0, Does 1 Fair, Does 1 Fair, Does 1 Fair, Does 1 Fair, Does 1 Fair, Does 1 Fair,
    Does 1 Fair, Does 1 Fair, Does 1 Fair, Does 1 Fair, Does 1 Fair, Does 1 Fair, Does 1 Fair, Does 1 Fair, Does 1 Fair,
    Does 1 Fair, Does 1 Fair, Does 1 Fair]"
    by (simp add: crash_and_go_def eval_nat_numeral)
  have h: "h_DatabaseURL (sample_harness pid) = ''pg://h/app''" "h_Getpid (sample_harness pid) = pid"
    "h_dialect (sample_harness pid) = None" "h_database (sample_harness pid) = drop 7"
    "h_goose (sample_harness pid) d a = (drop (length a) [(''1.sql'', ''A''), (''2.sql'', ''B'')], None)" for pid d a
    by (simp_all add: sample_harness_def)
  show ?thesis
    by (simp add: acts opened_def sample_tests_def test_process_def buildTemplate_of_files sample_files
        sample_names guarded_def deferring_def ignored_def stage_def Let_def staging_of_def pids h migrate_def
        goose_up_def sample_replace maintenanceDSN_def retry_def retry_loop_more attempt_def DB_def blank_cluster_def
        set_database_def release_lock_def)
qed

end
