(* ===== verification/Spec2Isabelle.thy ===== *)
theory Spec2Isabelle
  imports Sample BenchMain BenchTraffic Retries FakeOidc Support TestRuns
begin

text \<open>
  doorbust: a flash-sale order service in Go and its load benchmark.

  The program. One process (src/cmd) serves an HTTP API and a single-page app, and runs three
  background jobs: a sweeper that expires abandoned reservations, a worker that applies Stripe
  events from an inbox table to orders, and a poller that fills that table. All lasting state
  is in PostgreSQL, reached through generated statements (src/internal/adapters/postgresql/sqlc).
  A buyer reserves a unit (POST /orders), checks out (a Stripe payment intent) and is fulfilled
  when the payment event arrives; a cancelled, failed or expired order gives its unit back. The
  reserve is done by one of three arms, chosen by name at boot, and may be wrapped so that a
  repeated request with the same Idempotency-Key reserves once. A second binary (src/bench)
  starts the app on a throwaway database, drives it on a fixed schedule, checks the database
  afterwards and judges its own numbers.

  Theories and code, in the order of their imports.

    Prelude, Strconv, Float64     tables as lists of rows, Go's decimal conversions and integer
                                  narrowing, float64 rounding
    Rows, Writes                  sqlc/models.go, orders/status.go; row versions, the constraints
                                  of the migrations, the invariant db_inv of the database
    Prog, Queries                 Go functions that talk to the database as trees of steps; one
                                  definition per method of sqlc/queries.sql.go
    Sessions, Safety, Statements, any interleaving of any number of programs (sys_step,
    History                       reachable), the proof rules for one program, what every
                                  statement owes the accounting, what histories preserve
    Json, Auth, Web, RateLimit,   internal/json, internal/auth, internal/web, internal/ratelimit,
    Ops                           internal/env, cmd/ready.go, cmd/pprof.go
    Customers                     internal/customers: Link, the two resolvers, GetOrCreate
    Reserve, Idempotency          internal/orders/strategy*.go
    Orders, OrdersSpec, Sweep     internal/orders/service.go and sweeper.go, the specification of
                                  each operation, the sweeper
    Payments, Worker, Poller      internal/payments
    Products, Handlers            internal/products, the HTTP handlers of the three packages
    Api                           cmd/api.go: mount, the routes, the middleware, app_prog (which
                                  programs the sessions of a running process execute)
    Config, Boot                  cmd/main.go, internal/env, adapters/postgresql/pool.go; boot;
                                  run of cmd/api.go as a step relation on goroutines (life)
    Ghost                         protocols: what each session knows and may do, lifted to every
                                  interleaving once and for all (protocol_laws)
    Ledger, Purchase              the protocol of orders: which session made which order, and what
                                  each answer of POST /orders owes the account
    Keys, Retries                 the protocol of an idempotency key: who holds it, what is recorded
                                  under it, and the requests that race for it
    BenchReport, BenchLoad,       src/bench: result.go and applyValidity; classify, recorder,
    BenchRun, BenchVerify,        schedule, memory; loadgen.Run, shapes, guard, model; seeding and
    BenchExec                     Check; Execute and the commands
    BenchHost                     meta.go and os.go, RaiseFileLimit of client.go; the environment of
                                  the app a run starts, as the app's configuration reads it
    BenchMain                     bench/main.go: defaults of the flags, exit codes, the summary
    BenchProbe, BenchTraffic      exec.go; the load and the probe beside the app, and the client's
                                  totals against the orders table
    JsonText, JsonRound, Wire     encoding/json between text and value, with its round trip; the two
                                  ends of the wire: request_body and Decode, WriteError and
                                  ClassifyResponse
    StripeStub, Support           the bytes of a stored event and the stand-in for Stripe's API
                                  (testsupport/stripeapi.go); seed.go and assert.go
    FakeOidc                      the stand-in for the user pool (testsupport/fakeoidc, oidc.go,
                                  workload/tokens.go) and auth.NewVerifier
    TestDb, Template, FairWeather the databases of the tests (testsupport/db.go): the template and
                                  its clones, many test processes on one server with everything
                                  failing (lab_step), and with nothing failing (fair_step)
    Sample, TestRuns              a small shop and two test processes on which the properties are
                                  tried

  Correspondence. A row struct is a record with the columns as fields, a table a list of rows,
  a nullable column an option. A Go error is a value of the type error, a fallible call a sum
  (Inl the error). A function that uses the database is a prog, run alone (run) or with others
  (reachable); a transaction reads its own versions over the committed ones, takes row locks
  that make others wait, and shows its versions to others at commit (READ COMMITTED). Each step
  may be Healthy, lose its request, or lose its reply (the commit happened, the caller sees an
  error). A goroutine's position is its remaining program, so nothing is said of the time a
  step takes. int32 and int64 conversions wrap as Go's do; times are integers.

  What the lemmas show. C1 to C6 hold of every state any interleaving of requests and jobs can
  reach, under every failure of the environment: no oversell, sales within capacity, the order
  lifecycle, records that are permanent (keys, events, links of customers), rows that keep their
  types, and that the answers of POST /orders and the orders table agree one to one (there, a lost
  message does not answer in the words of a sentinel error). C7 to C11 are the reserve: one
  contract for three arms, every outcome, retries one after the other (C9) and racing (C10), and the
  one way a retry does reserve twice. C12 to C17 are the order operations against their
  specifications, and the sweeper: when it terminates, and the setting with which it does not.
  C18 to C22 are worker and poller, down to the bytes of a stored event (C22), C23 to C26 the linking of customers, C27 to C30
  bounds, the two ends of the wire, the token guard and the tokens it is given. C31 to C35 are
  the benchmark: that its check of the database passes with the client's own counts (it rests on
  C1's invariant and C6's account), that its statistics lose no request, that its results are
  judged and describe the run they come from, and that it empties only the database it may.
  C36 to C38 are the rate limiter, the boot and the end of the process, C39 and C40 the test
  databases: whole and unshared whatever fails, and all tests run when nothing does. Locales state the contracts: row_store (a keyed
  table), resolver (a way to a customer id) and calm_resolver (one that makes no order),
  reserve_strategy (what a caller of an arm relies on), committed_history and version_history
  (what carries over from one change to all of history), protocol_laws (a ghost for every
  session, kept true by each step); each is interpreted on the model's own operations.

  Fuel. sweepAll and drain are loops without a bound in the code. They take fuel and answer
  False when it runs out, so that not returning is a value. C17: with a batch size above zero,
  one more than the number of due orders is enough; with batch size zero no amount is.
  C19: one more than the attempts left in the inbox is enough to drain it. The ticker loops of
  the jobs run over an explicit list of ticks, ended by the cancelled context. A retry of the test
  harness sleeps ten milliseconds a round at least, so 502 rounds outlast its five seconds (C39).

  Parameters. Code that is not in the repository is an argument: the Stripe client and its
  decoding of events (what it keeps of a stored event is a named hypothesis in C22), the OpenID
  verifier (its documented laws are named hypotheses in C30), SHA-256, the token bucket of
  x/time/rate, url.Parse, goose, the file system, the clock, random draws, and, for the
  benchmark, the answer of each outside call (bench_env) and the fate of each request
  (observation). The theorems hold for all of them; the witnesses use simple concrete ones.

  Idealisations. Isolation is READ COMMITTED with row and unique-index locks; a statement is one
  step, and deadlock detection is one of the lost requests. Ties of ORDER BY follow the order of
  the table. A float64 has 53 significant bits and an unbounded exponent. Whether a connection
  of the pool is free is not modelled.

  Not modelled. Library middleware (request ids, logging, panic recovery, the request timeout,
  CORS) and the router's path matching; opening connections; serving
  the profiler; the generated interfaces of sqlc; the options of HTTP
  clients; the benchmark's timing probes, its busy wait and its migrations (their results are
  parameters), as the answers of git, of the system calls and of SHOW are; flag parsing and
  the usage text.
\<close>

section \<open>Any interleaving of the running process\<close>

text \<open>The race of the witnesses: two buyers, one unit, the second request inside the first's transaction.\<close>

definition race :: "(nat \<times> choice) list" where
  "race = [(0, Healthy), (1, Healthy)] @ replicate 6 (0, Healthy) @ replicate 4 (1, Healthy)"

definition buyers :: "string \<Rightarrow> unit prog list" where
  "buyers key =
     [buy (sample_config ''baseline'' False) (post_order ''token-ann'' key),
      buy (sample_config ''baseline'' False) (post_order ''token-bob'' key)]"

lemma buyers_app: "list_all (app_prog (sample_config ''baseline'' False)) (buyers key)"
  by (simp add: buyers_def buy_app_prog)

lemma race_played:
  "\<exists>s. play race (start_with (shop 1 [] [] []) 50 (buyers [])) = Some s \<and>
     reachable (app_prog (sample_config ''baseline'' False)) (initial (shop 1 [] [] []) 50) s \<and>
     map o_CustomerID (orders (committed (shared s))) = [1] \<and> reserved_of 1 (committed (shared s)) = 1 \<and>
     th_prog (threads s ! 0) = ret () \<and> th_prog (threads s ! 1) = ret ()"
  by (rule played [OF _ buyers_app])
    (simp add: race_def buyers_def sample_service buy_reserves reserve_programs shop_tables shop_statements
      play_simps eval_nat_numeral stock_val_def)

text \<open>
  C1. No oversell. Whatever requests and background jobs run, however their steps
  interleave and whichever calls fail, lose their request or lose their reply: for every
  product the reserved count never goes below zero nor above the quantity, and it is
  exactly the number of live (pending or awaiting payment) orders of the product.
\<close>

theorem no_oversell:
  assumes "db_inv d" "reachable (app_prog a) (initial d n) s"
  shows "0 \<le> reserved_of p (committed (shared s)) \<and>
    reserved_of p (committed (shared s)) \<le> quantity_of p (committed (shared s)) \<and>
    reserved_of p (committed (shared s)) = live_orders p (committed (shared s))"
proof -
  have "db_inv (committed (shared s))"
    using reachable_sound [OF assms(2,1) app_prog_safe] by (simp add: sys_inv_def)
  then show ?thesis using db_inv_not_oversold(1,2) db_invD(4) by blast
qed

theorem no_oversell_witness:
  "\<exists>s. play race (start_with (shop 1 [] [] []) 50 (buyers [])) = Some s \<and>
     quantity_of 1 (committed (shared s)) \<ge> 1 \<and> live_orders 1 (committed (shared s)) = 1"
proof -
  obtain s where s: "play race (start_with (shop 1 [] [] []) 50 (buyers [])) = Some s"
    "reachable (app_prog (sample_config ''baseline'' False)) (initial (shop 1 [] [] []) 50) s"
    "reserved_of 1 (committed (shared s)) = 1"
    using race_played by blast
  have "db_inv (shop 1 [] [] [])" by (rule shop_inv) simp_all
  from no_oversell [OF this s(2), of 1] s show ?thesis by (intro exI [of _ s]) simp
qed

text \<open>
  C2. Never more promised than there was. Between any two moments of a run the capacity of
  a product that has stock (units on the shelf, reserved ones included, plus units sold)
  does not change, and live and completed orders together never exceed it.
\<close>

theorem promises_within_capacity:
  assumes "db_inv d" "reachable (app_prog a) (initial d n) s" "reachable (app_prog a) s s'"
    and "find_stock p (committed (shared s)) \<noteq> None"
  shows "capacity p (committed (shared s')) = capacity p (committed (shared s)) \<and>
    live_orders p (committed (shared s')) + sold_orders p (committed (shared s')) \<le> capacity p (committed (shared s))"
proof -
  have "capacity_history (committed (shared s)) (committed (shared s'))"
    by (rule capacity_log.between [OF assms(2,3,1) app_prog_safe])
  moreover have "db_inv (committed (shared s'))"
    using reachable_steps [OF assms(3) _ app_prog_safe] reachable_sound [OF assms(2,1) app_prog_safe]
    by (simp add: sys_inv_def)
  ultimately show ?thesis
    using assms(4) db_inv_not_oversold(3) by (metis capacity_history_def)
qed

theorem promises_within_capacity_witness:
  "\<exists>s. play race (start_with (shop 1 [] [] []) 50 (buyers [])) = Some s \<and>
     live_orders 1 (committed (shared s)) + sold_orders 1 (committed (shared s)) \<le> 1"
proof -
  let ?P = "app_prog (sample_config ''baseline'' False)"
  obtain s where s: "play race (start_with (shop 1 [] [] []) 50 (buyers [])) = Some s"
    "reachable ?P (initial (shop 1 [] [] []) 50) s"
    using race_played by blast
  have "db_inv (shop 1 [] [] [])" by (rule shop_inv) simp_all
  from promises_within_capacity [OF this reachable.start s(2), of 1] s(1) show ?thesis
    by (intro exI [of _ s])
      (simp add: initial_def shop_def find_stock_def capacity_def stock_val_def count_orders_def)
qed

text \<open>
  C3. The order lifecycle. Between any two moments of a run an order that exists keeps
  existing, with its id, customer, product, price snapshot and creation time, and its
  status has only moved along the edges of status.go; a terminal status is final.
\<close>

theorem orders_follow_the_lifecycle:
  assumes "db_inv d" "reachable (app_prog a) (initial d n) s" "reachable (app_prog a) s s'"
    and "find_order i (committed (shared s)) = Some r"
  shows "\<exists>r'. find_order i (committed (shared s')) = Some r' \<and> same_order r r' \<and>
    lifecycle\<^sup>*\<^sup>* (o_Status r) (o_Status r') \<and> (live_status (o_Status r) \<or> o_Status r' = o_Status r)"
proof -
  have "order_history (committed (shared s)) (committed (shared s'))"
    by (rule order_log.between [OF assms(2,3,1) app_prog_safe])
  with assms(4) show ?thesis unfolding order_history_def using lifecycle_stuck by blast
qed

text \<open>The sweeper's turn in the shop: order 1 is due at time 200.\<close>

definition sweep_turn :: "unit prog" where
  "sweep_turn = discard (sweepAll 1 2)"

lemma sweep_turn_app: "app_prog (sample_config arm b) sweep_turn"
  using app_prog.job [OF job_prog.sweeper [of "sample_config arm b" 1]] by (simp add: sweep_turn_def sample_config_def)

definition overdue_shop :: db where
  "overdue_shop = shop 2 [sample_order 1 1 ''pending'' None] [] [sample_event ''evt'' ''customer.created'' ''x'' 0]"

lemma overdue_inv: "db_inv overdue_shop"
  unfolding overdue_shop_def by (rule shop_inv) (simp_all add: sample_order_def is_live_def)

lemma sweep_played:
  "\<exists>s. play (replicate 5 (0, Healthy)) (start_with overdue_shop 200 [sweep_turn]) = Some s \<and>
     reachable (app_prog (sample_config ''baseline'' False)) (initial overdue_shop 200) s \<and>
     map o_Status (orders (committed (shared s))) = [StatusExpired] \<and> reserved_of 1 (committed (shared s)) = 0"
  by (rule played)
    (simp_all add: sweep_turn_app,
      simp add: overdue_shop_def sweep_turn_def discard_def svc_SweepExpired_def ExpireOrders_def expire_batch_def
      expirable_def expire_order_def shop_tables shop_statements play_simps eval_nat_numeral sample_order_def
      stock_val_def)

theorem orders_follow_the_lifecycle_witness:
  "\<exists>s r'. play (replicate 5 (0, Healthy)) (start_with overdue_shop 200 [sweep_turn]) = Some s \<and>
     find_order 1 (committed (shared s)) = Some r' \<and> lifecycle\<^sup>*\<^sup>* StatusPending (o_Status r') \<and>
     same_order (sample_order 1 1 ''pending'' None) r'"
proof -
  obtain s where s: "play (replicate 5 (0, Healthy)) (start_with overdue_shop 200 [sweep_turn]) = Some s"
    "reachable (app_prog (sample_config ''baseline'' False)) (initial overdue_shop 200) s"
    using sweep_played by blast
  have "find_order 1 (committed (shared (initial overdue_shop 200))) = Some (sample_order 1 1 StatusPending None)"
    by (simp add: initial_def overdue_shop_def shop_def find_order_def sample_order_def status_defs)
  from orders_follow_the_lifecycle [OF overdue_inv reachable.start s(2) this] s(1)
  show ?thesis by (auto simp: sample_order_def status_defs)
qed

text \<open>
  C4. Records are permanent. Between any two moments of a run: an idempotency key that carries an
  order keeps it, unchanged; a stored Stripe event stays stored with its type, payload and
  creation time, its attempts only grow, and once processed it stays processed; a customers row
  that carries a Cognito subject keeps it.
\<close>

theorem records_are_permanent:
  assumes "db_inv d" "reachable (app_prog a) (initial d n) s" "reachable (app_prog a) s s'"
  shows "(\<forall>k r. find_idem k (committed (shared s)) = Some r \<longrightarrow> i_OrderID r \<noteq> None \<longrightarrow>
      find_idem k (committed (shared s')) = Some r) \<and>
    (\<forall>i v. find_event i (committed (shared s)) = Some v \<longrightarrow>
      (\<exists>v'. find_event i (committed (shared s')) = Some v' \<and> later_event v v')) \<and>
    (\<forall>i c sub. find_customer i (committed (shared s)) = Some c \<longrightarrow> c_CognitoSub c = Some sub \<longrightarrow>
      (\<exists>c'. find_customer i (committed (shared s')) = Some c' \<and> c_CognitoSub c' = Some sub))"
proof -
  have "idem_history (committed (shared s)) (committed (shared s'))"
    by (rule idem_log.between [OF assms(2,3,1) app_prog_safe])
  moreover have "event_history (committed (shared s)) (committed (shared s'))"
    by (rule event_log.between [OF assms(2,3,1) app_prog_safe])
  moreover have "customer_history (committed (shared s)) (committed (shared s'))"
    by (rule customer_log.between [OF assms(2,3,1) app_prog_safe])
  ultimately show ?thesis unfolding idem_history_def event_history_def customer_history_def by blast
qed

definition answered_key :: order_idempotency where
  "answered_key = \<lparr>i_CognitoSub = ''ann'', i_IdemKey = ''k'', i_RequestHash = ''product_id='' @ show_int 1, i_OrderID = Some 1, i_CreatedAt = 0\<rparr>"

definition used_shop :: db where
  "used_shop = shop 2 [sample_order 1 1 ''pending'' None] [answered_key] []"

lemma used_inv: "db_inv used_shop"
  unfolding used_shop_def by (rule shop_inv) (simp_all add: sample_order_def is_live_def)

text \<open>The shop of the sweeper's turn with a used key: what is recorded is there after the sweep.\<close>

definition record_shop :: db where
  "record_shop = overdue_shop\<lparr>idems := [answered_key]\<rparr>"

lemma record_inv: "db_inv record_shop"
  using overdue_inv unfolding record_shop_def db_inv_def stock_val_def count_orders_def
  by (simp add: find_stock_def find_product_def)

lemma record_played:
  "\<exists>s. play (replicate 5 (0, Healthy)) (start_with record_shop 200 [sweep_turn]) = Some s \<and>
     reachable (app_prog (sample_config ''baseline'' False)) (initial record_shop 200) s \<and>
     map o_Status (orders (committed (shared s))) = [StatusExpired]"
  by (rule played)
    (simp_all add: sweep_turn_app,
      simp add: record_shop_def overdue_shop_def sweep_turn_def discard_def svc_SweepExpired_def ExpireOrders_def
      expire_batch_def expirable_def expire_order_def shop_tables shop_statements play_simps eval_nat_numeral
      sample_order_def)

theorem records_are_permanent_witness:
  "\<exists>s v'. play (replicate 5 (0, Healthy)) (start_with record_shop 200 [sweep_turn]) = Some s \<and>
     find_idem (''ann'', ''k'') (committed (shared s)) = Some answered_key \<and>
     find_event ''evt'' (committed (shared s)) = Some v' \<and> e_Payload v' = ''x'' \<and>
     (\<exists>c'. find_customer 1 (committed (shared s)) = Some c' \<and> c_CognitoSub c' = Some ''ann'')"
proof -
  obtain s where s: "play (replicate 5 (0, Healthy)) (start_with record_shop 200 [sweep_turn]) = Some s"
    "reachable (app_prog (sample_config ''baseline'' False)) (initial record_shop 200) s"
    using record_played by blast
  let ?d = "committed (shared (initial record_shop 200 :: unit sys))"
  have "find_idem (''ann'', ''k'') ?d = Some answered_key" "i_OrderID answered_key \<noteq> None"
    "find_event ''evt'' ?d = Some (sample_event ''evt'' ''customer.created'' ''x'' 0)"
    "find_customer 1 ?d = Some (hd sample_customers)" "c_CognitoSub (hd sample_customers) = Some ''ann''"
    by (simp_all add: initial_def record_shop_def overdue_shop_def shop_def find_idem_def find_event_def find_customer_def
        i_key_def answered_key_def sample_event_def sample_customers_def)
  with records_are_permanent [OF record_inv reachable.start s(2)] s(1) show ?thesis
    by (fastforce simp: later_event_def sample_event_def)
qed

text \<open>
  C5. Rows keep their types. Whatever runs, every order has a status of the CHECK, an amount of at
  least zero and a deadline by which the sweeper finds it, and it has a payment intent when it is
  awaiting payment, completed or failed and none when it is pending or cancelled; prices, stock
  counters and the attempts of events stay within theirs.
\<close>

theorem tables_keep_their_types:
  assumes "db_inv d" "tables_typed d" "reachable (app_prog a) (initial d n) s"
  shows "tables_typed (committed (shared s))"
  using typed_log.between [OF reachable.start assms(3,1) app_prog_safe] assms(2) by (simp add: initial_def)

theorem tables_keep_their_types_witness:
  "\<exists>s r. play race (start_with (shop 1 [] [] []) 50 (buyers [])) = Some s \<and>
     orders (committed (shared s)) = [r] \<and> order_typed r"
proof -
  obtain s where s: "play race (start_with (shop 1 [] [] []) 50 (buyers [])) = Some s"
    "reachable (app_prog (sample_config ''baseline'' False)) (initial (shop 1 [] [] []) 50) s"
    "map o_CustomerID (orders (committed (shared s))) = [1]"
    using race_played by (elim exE conjE) (rule that)
  have "db_inv (shop 1 [] [] [])" by (rule shop_inv) simp_all
  moreover have "tables_typed (shop 1 [] [] [])"
    by (simp add: tables_typed_def shop_def sample_product_def stock_check_def)
  ultimately have typed: "tables_typed (committed (shared s))"
    by (rule tables_keep_their_types [OF _ _ s(2)])
  obtain r where "orders (committed (shared s)) = [r]"
    using s(3) by (metis length_0_conv length_Suc_conv length_map list.size(3) list.size(4))
  with typed s(1) show ?thesis unfolding tables_typed_def by (metis list.set_intros(1))
qed






section \<open>Reserving\<close>

text \<open>
  C7. One contract, three arms. Run alone, every arm of the reserve path (baseline,
  reserve-last, cte) answers with the result of one specification and leaves stock and
  orders in one and the same state, the failures included.
\<close>

theorem arms_meet_one_contract:
  assumes "locks g = []" "ready (committed g)"
    and "link_spec (rp_Claims p) (auto_env i g) = Reply (Inr c) ws sq"
    and "reserve_spec (rp_ProductID p) (c_ID c) (rp_ExpiresAt p) (clock g) (committed (install ws sq g)) = (r, d')"
  shows "\<exists>g'. run [] i (arm_Reserve DirectResolve a p) [] g = Some ([], r, [], g') \<and>
    stocks (committed g') = stocks d' \<and> orders (committed g') = orders d'"
  using arm_Reserve_effect [OF assms, of a] by blast

text \<open>
  C8. Out of stock is told from no such product. Run alone, an arm fails with ErrNoRows (a
  404) exactly when the product or its stock row does not exist, with ErrOutOfStock (a 409)
  exactly when it exists and no unit is free, and otherwise returns a pending order of that
  customer at the product's current price.
\<close>

theorem reserve_outcomes:
  assumes "locks g = []" "ready (committed g)"
    and "link_spec (rp_Claims p) (auto_env i g) = Reply (Inr c) ws sq"
  shows "\<exists>r g'. run [] i (arm_Reserve DirectResolve a p) [] g = Some ([], r, [], g') \<and>
    (case (find_product (rp_ProductID p) (committed g), find_stock (rp_ProductID p) (committed g)) of
       (Some q, Some s) \<Rightarrow>
         if s_NumReserved s < s_Quantity s
         then (\<exists>order. r = Inr order \<and> o_Status order = StatusPending \<and> o_CustomerID order = c_ID c \<and>
                o_ProductID order = rp_ProductID p \<and> o_TotalInCents order = p_PriceInCents q \<and>
                o_ExpiresAt order = Some (rp_ExpiresAt p))
         else r = Inl ErrOutOfStock
     | _ \<Rightarrow> r = Inl ErrNoRows)"
proof -
  obtain r d' where rd: "reserve_spec (rp_ProductID p) (c_ID c) (rp_ExpiresAt p) (clock g) (committed (install ws sq g)) = (r, d')"
    by fastforce
  obtain g' where "run [] i (arm_Reserve DirectResolve a p) [] g = Some ([], r, [], g')"
    using arm_Reserve_effect [OF assms rd, of a] by blast
  moreover have "ws = [] \<or> (\<exists>old c. ws = [WCustomer old c])"
    using link_spec_shape [OF _ assms(3)] assms(2) by (auto simp: ready_def)
  ultimately show ?thesis
    using reserve_outcome [of ws "rp_ProductID p" "c_ID c" "rp_ExpiresAt p" g sq] rd
    by (intro exI [of _ r] exI [of _ g']) (auto simp: new_order_def split: option.split)
qed

abbreviation fresh_shop :: "int \<Rightarrow> gstate" where
  "fresh_shop q \<equiv> shop_state (shop q [] [] []) 50"

lemma fresh_ready: "0 \<le> q \<Longrightarrow> ready (committed (fresh_shop q))"
  by (simp add: shop_ready)

theorem arms_meet_one_contract_witness:
  "\<exists>g'. run [] 0 (arm_Reserve DirectResolve CteStrategy (sample_params ann [])) [] (fresh_shop 0) =
      Some ([], Inl ErrOutOfStock, [], g') \<and> orders (committed g') = []"
proof -
  have "reserve_spec 1 (c_ID (hd sample_customers)) 950 50 (shop 0 [] [] []) = (Inl ErrOutOfStock, shop 0 [] [] [])"
    by (simp add: reserve_spec_def shop_finds)
  moreover have "orders (shop 0 [] [] []) = []" by (simp add: shop_def)
  moreover note arms_meet_one_contract [of "fresh_shop 0" "sample_params ann []" 0 "hd sample_customers" "[]" "[]"
      "Inl ErrOutOfStock" "shop 0 [] [] []" CteStrategy]
  ultimately show ?thesis
    using fresh_ready [of 0] by (auto simp: sample_params_def shop_link)
qed

theorem reserve_outcomes_witness:
  "\<exists>order g'. run [] 0 (arm_Reserve DirectResolve (TxnStrategy True) (sample_params ann [])) [] (fresh_shop 1) =
      Some ([], Inr order, [], g') \<and> o_CustomerID order = 1 \<and> o_TotalInCents order = 500"
  using reserve_outcomes [of "fresh_shop 1" "sample_params ann []" 0 "hd sample_customers" "[]" "[]" "TxnStrategy True"]
    fresh_ready [of 1]
  by (auto simp: sample_params_def shop_link shop_finds) (auto simp: sample_customers_def sample_product_def)

text \<open>
  C9. A retry reserves once. A reserve under a fresh idempotency key takes one unit and
  creates one order; the retry of it (same caller, same key, a later expiry) answers with
  that very order and changes nothing; and the same key with another product (another digest) is
  ErrIdempotencyKeyReused, and changes nothing either.
\<close>

theorem a_key_buys_once:
  assumes "keyed p" "locks g = []" "ready (committed g)" "find_idem (idem_key_of p) (committed g) = None"
    and "link_spec (rp_Claims p) (auto_env i g) = Reply (Inr c) ws sq"
    and "find_product (rp_ProductID p) (committed g) = Some q"
    and "find_stock (rp_ProductID p) (committed g) = Some s" "s_NumReserved s < s_Quantity s"
  shows "\<exists>order g1. run [] i (idem_Reserve sum256 (arm_Reserve DirectResolve a) p) [] g = Some ([], Inr order, [], g1) \<and>
    run [] j (idem_Reserve sum256 (arm_Reserve DirectResolve a) (p\<lparr>rp_ExpiresAt := x\<rparr>)) [] g1 =
      Some ([], Inr order, [], g1) \<and>
    (\<forall>p'. idem_key_of p' = idem_key_of p \<and> requestHash sum256 (rp_ProductID p') \<noteq> requestHash sum256 (rp_ProductID p) \<longrightarrow>
       run [] j (idem_Reserve sum256 (arm_Reserve DirectResolve a) p') [] g1 = Some ([], Inl ErrIdempotencyKeyReused, [], g1)) \<and>
    reserved_of (rp_ProductID p) (committed g1) = reserved_of (rp_ProductID p) (committed g) + 1 \<and>
    length (orders (committed g1)) = length (orders (committed g)) + 1"
  by (rule retry_arm [OF assms])

theorem a_key_buys_once_witness:
  "\<exists>order g1. run [] 0 (idem_Reserve (\<lambda>s. s) (arm_Reserve DirectResolve CteStrategy) (sample_params ann ''k'')) []
      (fresh_shop 5) = Some ([], Inr order, [], g1) \<and>
    run [] 1 (idem_Reserve (\<lambda>s. s) (arm_Reserve DirectResolve CteStrategy) ((sample_params ann ''k'')\<lparr>rp_ExpiresAt := 2000\<rparr>))
      [] g1 = Some ([], Inr order, [], g1) \<and>
    run [] 1 (idem_Reserve (\<lambda>s. s) (arm_Reserve DirectResolve CteStrategy) ((sample_params ann ''k'')\<lparr>rp_ProductID := 2\<rparr>))
      [] g1 = Some ([], Inl ErrIdempotencyKeyReused, [], g1) \<and> length (orders (committed g1)) = 1"
proof -
  have "keyed (sample_params ann ''k'')" by (simp add: keyed_def sample_params_def ann_def)
  moreover have "find_idem (idem_key_of (sample_params ann ''k'')) (committed (fresh_shop 5)) = None"
    by (simp add: shop_def find_idem_def)
  moreover have "requestHash (\<lambda>s. s) 2 \<noteq> requestHash (\<lambda>s. s) 1" by (simp add: requestHash_def show_int_inject)
  moreover have "orders (shop 5 [] [] []) = []" by (simp add: shop_def)
  ultimately show ?thesis
    using a_key_buys_once [of "sample_params ann ''k''" "fresh_shop 5" 0 "hd sample_customers" "[]" "[]"
        sample_product "\<lparr>s_ID = 1, s_ProductID = 1, s_Quantity = 5, s_NumReserved = 0\<rparr>" "\<lambda>s. s" CteStrategy 1 2000]
      fresh_ready [of 5]
    by (auto simp: shop_link shop_finds sample_params_def)
qed







text \<open>
  A failed attempt gives its key back. A keyed reserve that finds the product sold out
  answers ErrOutOfStock and leaves no row for its key, so a later retry can still succeed.
\<close>

theorem failed_attempt_releases_its_key:
  assumes "keyed p" "locks g = []" "ready (committed g)" "find_idem (idem_key_of p) (committed g) = None"
    and "link_spec (rp_Claims p) (auto_env i g) = Reply (Inr c) ws sq"
    and "find_product (rp_ProductID p) (committed g) = Some q"
    and "find_stock (rp_ProductID p) (committed g) = Some s" "s_Quantity s \<le> s_NumReserved s"
  shows "\<exists>g1. run [] i (idem_Reserve sum256 (arm_Reserve DirectResolve a) p) [] g = Some ([], Inl ErrOutOfStock, [], g1) \<and>
    find_idem (idem_key_of p) (committed g1) = None"
  by (rule sold_out_releases [OF assms])

theorem failed_attempt_releases_its_key_witness:
  "\<exists>g1. run [] 0 (idem_Reserve (\<lambda>s. s) (arm_Reserve DirectResolve (TxnStrategy False)) (sample_params bob ''k'')) []
      (fresh_shop 0) = Some ([], Inl ErrOutOfStock, [], g1) \<and> find_idem (''bob'', ''k'') (committed g1) = None"
proof -
  have "keyed (sample_params bob ''k'')" by (simp add: keyed_def sample_params_def bob_def)
  moreover have "find_idem (idem_key_of (sample_params bob ''k'')) (committed (fresh_shop 0)) = None"
    by (simp add: shop_def find_idem_def)
  ultimately show ?thesis
    using failed_attempt_releases_its_key [of "sample_params bob ''k''" "fresh_shop 0" 0 "hd (tl sample_customers)" "[]" "[]"
        sample_product "\<lparr>s_ID = 1, s_ProductID = 1, s_Quantity = 0, s_NumReserved = 0\<rparr>" "\<lambda>s. s" "TxnStrategy False"]
      fresh_ready [of 0]
    by (auto simp: shop_link shop_finds sample_params_def) (auto simp: bob_def)
qed



section \<open>The order lifecycle, operation by operation\<close>

text \<open>The shop with one order of Ann's in a given status, and an inbox.\<close>

definition order_shop :: "string \<Rightarrow> string option \<Rightarrow> stripe_event list \<Rightarrow> db" where
  "order_shop st intent vs = shop 3 [sample_order 1 1 st intent] [] vs"

lemma order_shop_inv: "db_inv (order_shop st intent vs)"
  unfolding order_shop_def by (rule shop_inv) (simp_all add: sample_order_def)

lemma order_shop_finds:
  "find_order 1 (order_shop st intent vs) = Some (sample_order 1 1 st intent)"
  "find_stock 1 (order_shop st intent vs) =
     Some \<lparr>s_ID = 1, s_ProductID = 1, s_Quantity = 3, s_NumReserved = (if live_status st then 1 else 0)\<rparr>"
  "by_intent t (order_shop st intent vs) = (if intent = Some t then Some (sample_order 1 1 st intent) else None)"
  "join_customer (order_shop st intent vs) (sample_order 1 1 st' intent') =
     Some \<lparr>j_Order = sample_order 1 1 st' intent', j_CustomerEmail = ''a@x'', j_CustomerCognitoSub = Some ''ann''\<rparr>"
  "orders (order_shop st intent vs) = [sample_order 1 1 st intent]" "events (order_shop st intent vs) = vs"
  by (simp_all add: order_shop_def shop_def find_order_def find_stock_def sample_order_def by_intent_def
      join_customer_def find_customer_def sample_customers_def is_live_def)

text \<open>
  C12. Cancelling. Run alone, CancelOrder answers and changes the database exactly as its
  specification says: 404 without the order, ErrForbidden for another caller,
  ErrOrderNotPending unless the order is pending, and otherwise the order becomes cancelled
  and its unit is given back.
\<close>

theorem cancelling:
  assumes "locks g = []" "db_inv (committed g)"
  shows "run [] i (svc_CancelOrder k cl) [] g =
    (let (r, d') = cancel_spec k cl (committed g) in Some ([], r, [], g\<lparr>committed := d'\<rparr>))"
  by (rule run_CancelOrder [OF assms])

theorem cancelling_witness:
  "\<exists>d'. run [] 0 (svc_CancelOrder 1 ann) [] (shop_state (order_shop StatusPending None []) 50) =
      Some ([], Inr (sample_order 1 1 StatusCancelled None), [], shop_state d' 50) \<and> reserved_of 1 d' = 0"
  using cancelling [of "shop_state (order_shop StatusPending None []) 50" 0 1 ann] order_shop_inv
  by (simp add: cancel_spec_def order_shop_finds owner_of_def owns_def unreserve_def row_simps stock_val_def shop_state_def)
    (simp add: ann_def unreserve_def order_shop_finds row_simps)

text \<open>
  C13. Checking out. Run alone, Checkout answers and changes the database exactly as its
  specification says; the status, the payment intent and the new deadline are written
  together, and a gateway failure changes nothing.
\<close>

theorem checking_out:
  assumes "locks g = []"
  shows "run [] i (svc_Checkout s now k cl) [] g =
    (let (r, d') = checkout_spec s now k cl (committed g) in Some ([], r, [], g\<lparr>committed := d'\<rparr>))"
  by (rule run_Checkout [OF assms])

theorem checking_out_witness:
  "run [] 0 (svc_Checkout (sample_service (sample_config ''cte'' False)) 60 1 bob) []
      (shop_state (order_shop StatusPending None []) 50) =
    Some ([], Inl ErrForbidden, [], shop_state (order_shop StatusPending None []) 50)"
  using checking_out [of "shop_state (order_shop StatusPending None []) 50" 0 _ 60 1 bob]
  by (simp add: checkout_spec_def order_shop_finds owner_of_def owns_def bob_def shop_state_def)

text \<open>
  C14. A payment's outcome. Run alone, or under the worker's open transaction, FulfillPayment and
  FailPayment answer and change the database exactly as their specifications say: an order
  awaiting payment is completed and its reserved unit leaves the shelf, or is failed and its unit
  given back; a completed order is left alone by either; fulfilling in any other status is
  ErrPaidButNotFulfillable without a change, and failing leaves it alone.
\<close>

theorem payments_settle:
  assumes "clear (i, Suc (length st)) g" "db_inv (committed g)"
  shows "run [] i (svc_FulfillPayment t) st g =
      (let (r, d') = fulfill_spec t (committed g) in Some ([], r, st, g\<lparr>committed := d'\<rparr>)) \<and>
    run [] i (svc_FailPayment t) st g =
      (let (r, d') = fail_spec t (committed g) in Some ([], r, st, g\<lparr>committed := d'\<rparr>))"
  using run_FulfillPayment [OF assms] run_FailPayment [OF assms] by blast

theorem payments_settle_witness:
  "\<exists>d1 d2. run [] 0 (svc_FulfillPayment ''pi'') [] (shop_state (order_shop StatusAwaitingPayment (Some ''pi'') []) 50) =
      Some ([], Inr (), [], shop_state d1 50) \<and> quantity_of 1 d1 = 2 \<and> reserved_of 1 d1 = 0 \<and>
    run [] 0 (svc_FailPayment ''pi'') [] (shop_state (order_shop StatusAwaitingPayment (Some ''pi'') []) 50) =
      Some ([], Inr (), [], shop_state d2 50) \<and> quantity_of 1 d2 = 3 \<and> reserved_of 1 d2 = 0"
  using payments_settle [of 0 "[]" "shop_state (order_shop StatusAwaitingPayment (Some ''pi'') []) 50" "''pi''"] order_shop_inv
  by (simp add: fulfill_spec_def fail_spec_def order_shop_finds sell_def unreserve_def row_simps stock_val_def shop_state_def)

text \<open>
  C15. Redelivery is harmless. Delivering a payment_intent.succeeded (or failed) event for
  an intent a second time, right after it has been handled, succeeds and changes nothing.
\<close>

theorem redelivery_is_harmless:
  assumes "locks g = []" "db_inv (committed g)" "pay = svc_FulfillPayment t \<or> pay = svc_FailPayment t"
    and "run [] i pay [] g = Some ([], Inr (), [], g')"
  shows "run [] j pay [] g' = Some ([], Inr (), [], g')"
proof -
  have inv: "db_inv (committed g')"
    using pooled_run(2) [OF closed_pooled assms(4,1,2)] assms(3) closed_FulfillPayment closed_FailPayment by blast
  from assms(3) show ?thesis
  proof
    assume p: "pay = svc_FulfillPayment t"
    then have g': "fulfill_spec t (committed g) = (Inr (), committed g')" "locks g' = []"
      using assms run_FulfillPayment [of i "[]" g t] by (auto split: prod.splits)
    from fulfill_again [OF assms(2) this(1)] show ?thesis
      using p inv g' run_FulfillPayment [of j "[]" g' t] by simp
  next
    assume p: "pay = svc_FailPayment t"
    then have g': "fail_spec t (committed g) = (Inr (), committed g')" "locks g' = []"
      using assms run_FailPayment [of i "[]" g t] by (auto split: prod.splits)
    from fail_again [OF assms(2) this(1)] show ?thesis
      using p inv g' run_FailPayment [of j "[]" g' t] by simp
  qed
qed

theorem redelivery_is_harmless_witness:
  "\<exists>g'. run [] 0 (svc_FailPayment ''pi'') [] (shop_state (order_shop StatusAwaitingPayment (Some ''pi'') []) 50) =
      Some ([], Inr (), [], g') \<and> run [] 1 (svc_FailPayment ''pi'') [] g' = Some ([], Inr (), [], g')"
proof -
  let ?g = "shop_state (order_shop StatusAwaitingPayment (Some ''pi'') []) 50"
  have inv: "db_inv (committed ?g)" using order_shop_inv by simp
  have "\<exists>g'. run [] 0 (svc_FailPayment ''pi'') [] ?g = Some ([], Inr (), [], g')"
    using run_FailPayment [of 0 "[]" ?g "''pi''"] inv by (simp add: fail_spec_def order_shop_finds)
  then obtain g' where g': "run [] 0 (svc_FailPayment ''pi'') [] ?g = Some ([], Inr (), [], g')" by blast
  from redelivery_is_harmless [OF _ inv _ g'] g' show ?thesis by auto
qed

section \<open>The sweeper\<close>

text \<open>
  C16. One sweep. Run alone, SweepExpired takes the oldest overdue live orders, at most
  batchSize of them, expires exactly these, gives back exactly their units, sells nothing,
  and answers with their number.
\<close>

theorem one_sweep:
  assumes "locks g = []" "db_inv (committed g)" "0 \<le> b" "batch = due_batch b (clock g) (committed g)"
  shows "\<exists>d'. run [] i (svc_SweepExpired b) [] g = Some ([], Inr (int (length batch)), [], g\<lparr>committed := d'\<rparr>) \<and>
    orders d' = map (expire_in batch) (orders (committed g)) \<and>
    reserved_of p d' = reserved_of p (committed g) - products_of p batch \<and>
    quantity_of p d' = quantity_of p (committed g) \<and>
    int (length batch) = min b (int (due_count (clock g) (committed g)))"
proof (intro exI conjI)
  show "run [] i (svc_SweepExpired b) [] g =
      Some ([], Inr (int (length batch)), [], g\<lparr>committed := sweep_db batch (committed g)\<rparr>)"
    using run_SweepExpired [OF assms(1-3), of i] assms(4) by (simp add: Let_def)
qed (use sweep_db_effect [OF assms(2,4)] length_due_batch [of b "clock g" "committed g"] assms(3,4) in simp_all)

theorem one_sweep_witness:
  "\<exists>d'. run [] 0 (svc_SweepExpired 5) [] (shop_state (order_shop StatusPending None []) 200) =
      Some ([], Inr 1, [], shop_state d' 200) \<and> reserved_of 1 d' = 0"
proof -
  let ?d = "order_shop StatusPending None []"
  have batch: "due_batch 5 200 ?d = [sample_order 1 1 StatusPending None]"
    by (simp add: due_batch_def due_def order_shop_finds)
  have "reserved_of 1 ?d = 1" by (simp add: stock_val_def order_shop_finds)
  then show ?thesis
    using one_sweep [of "shop_state ?d 200" 5 "due_batch 5 200 ?d" 0 1] order_shop_inv
    by (auto simp: batch shop_state_def products_of_def)
qed

text \<open>
  C17. When a tick of the sweeper ends. With a positive batch size the loop of sweepAll returns
  (the number of overdue orders plus one is fuel enough), the invariant holds, and no order that
  was due at that time is left live. With a batch size of zero it never returns: every sweep
  releases nothing, nothing is not less than zero, and no amount of fuel ends it.
\<close>

theorem sweeping_ends:
  assumes "locks g = []" "db_inv (committed g)"
  shows "(\<forall>b fuel. 0 < b \<and> due_count (clock g) (committed g) < fuel \<longrightarrow>
      (\<exists>d'. run [] i (sweepAll fuel b) [] g = Some ([], Inr True, [], g\<lparr>committed := d'\<rparr>) \<and>
        db_inv d' \<and> (\<forall>r \<in> set (orders d'). \<not> due (clock g) r))) \<and>
    (\<forall>fuel. run [] i (sweepAll fuel 0) [] g = Some ([], Inr False, [], g))"
proof (intro conjI allI impI)
  fix b :: int and fuel assume "0 < b \<and> due_count (clock g) (committed g) < fuel"
  with run_sweepAll [OF assms, of b fuel i]
  show "\<exists>d'. run [] i (sweepAll fuel b) [] g = Some ([], Inr True, [], g\<lparr>committed := d'\<rparr>) \<and>
      db_inv d' \<and> (\<forall>r \<in> set (orders d'). \<not> due (clock g) r)"
    by (auto simp: due_count_def filter_empty_conv)
qed (use run_sweepAll_zero [OF assms] in blast)

theorem sweeping_ends_witness:
  "(\<exists>d'. run [] 0 (sweepAll 2 1) [] (shop_state (order_shop StatusPending None []) 200) =
      Some ([], Inr True, [], shop_state d' 200) \<and> (\<forall>r \<in> set (orders d'). \<not> due 200 r)) \<and>
   run [] 0 (sweepAll 1000 0) [] (shop_state (order_shop StatusPending None []) 200) =
     Some ([], Inr False, [], shop_state (order_shop StatusPending None []) 200)"
proof -
  let ?g = "shop_state (order_shop StatusPending None []) 200"
  have ok: "locks ?g = []" "db_inv (committed ?g)" and few: "due_count (clock ?g) (committed ?g) < 2"
    using order_shop_inv by (simp_all add: due_count_def order_shop_finds due_def)
  note both = sweeping_ends [OF ok, of 0]
  from both [THEN conjunct1, THEN spec, of 1, THEN spec, of 2] few both [THEN conjunct2, THEN spec, of 1000]
  show ?thesis by (auto simp: shop_state_def)
qed

section \<open>The inbox worker\<close>

text \<open>
  C18. One event. Run alone, processNext takes the oldest unprocessed event with attempts
  left, applies it to its order (fulfil, fail or ignore, by its type), and records the
  outcome on the event in the same step: processed for good, or one more attempt and the
  error; with nothing to claim it answers false and changes nothing.
\<close>

theorem one_event:
  assumes "locks g = []" "db_inv (committed g)" "distinct (map e_ID (events (committed g)))"
  shows "run [] i (processNext pe m) [] g =
    (case process_spec pe m (clock g) (committed g) of (b, d') \<Rightarrow> Some ([], Inr b, [], g\<lparr>committed := d'\<rparr>))"
  by (rule run_processNext [OF assms])

definition paid_event :: stripe_event where
  "paid_event = sample_event ''evt'' PaymentIntentSucceeded ''pi'' 0"

abbreviation sample_payments :: payments_env where
  "sample_payments \<equiv> payments_of (sample_config ''cte'' False)"

lemma paid_applies:
  "apply_spec sample_payments paid_event d = fulfill_spec ''pi'' d"
  by (simp add: apply_spec_def paid_event_def sample_event_def actionFor_def event_type_defs paymentIntentID_def
      payments_of_def sample_config_def decode_struct_def id_field_def same_field_def lower_char_def decode_string_def)

theorem one_event_witness:
  "\<exists>d'. run [] 0 (processNext sample_payments 3) [] (shop_state (order_shop StatusAwaitingPayment (Some ''pi'') [paid_event]) 60) =
      Some ([], Inr True, [], shop_state d' 60) \<and> quantity_of 1 d' = 2 \<and>
      map_option e_ProcessedAt (find_event ''evt'' d') = Some (Some 60)"
proof -
  let ?d = "order_shop StatusAwaitingPayment (Some ''pi'') [paid_event]"
  have ev: "e_ID paid_event = ''evt''" "e_ProcessedAt paid_event = None" "e_Attempts paid_event = 0"
    by (simp_all add: paid_event_def sample_event_def)
  then have cl: "claimables 3 ?d = [paid_event]" by (simp add: claimables_def order_shop_finds)
  show ?thesis
    using one_event [of "shop_state ?d 60" 0 sample_payments 3] order_shop_inv ev
    by (simp add: process_spec_def cl paid_applies fulfill_spec_def order_shop_finds sell_def row_simps stock_val_def
        marked_def settles_def shop_state_def Let_def)
qed

text \<open>
  C19. A drain ends. The loop of drain returns (one more than the attempts the inbox has
  left is fuel enough), and then every event is processed or has used up its attempts.
\<close>

theorem draining_ends:
  assumes "locks g = []" "db_inv (committed g)" "distinct (map e_ID (events (committed g)))"
    and "attempts_left m (committed g) < fuel"
  shows "\<exists>d'. run [] i (drain fuel pe m) [] g = Some ([], Inr True, [], g\<lparr>committed := d'\<rparr>) \<and> db_inv d' \<and>
    (\<forall>v \<in> set (events d'). e_ProcessedAt v \<noteq> None \<or> m \<le> e_Attempts v)"
  using run_drain [OF assms, of i pe] unfolding claimables_Nil .

theorem draining_ends_witness:
  "\<exists>d'. run [] 0 (drain 9 sample_payments 3) [] (shop_state (order_shop StatusAwaitingPayment (Some ''pi'') [paid_event]) 60) =
      Some ([], Inr True, [], shop_state d' 60) \<and> (\<forall>v \<in> set (events d'). e_ProcessedAt v \<noteq> None \<or> 3 \<le> e_Attempts v)"
  using draining_ends [of "shop_state (order_shop StatusAwaitingPayment (Some ''pi'') [paid_event]) 60" 3 9 0 sample_payments]
    order_shop_inv
  by (auto simp: shop_state_def order_shop_finds attempts_left_def left_of_def paid_event_def sample_event_def)

section \<open>The event poller\<close>


definition sample_msg :: "string \<Rightarrow> int \<Rightarrow> stripe_msg" where
  "sample_msg k created = \<lparr>m_ID = k, m_Type = PaymentIntentSucceeded, m_Created = created, m_Raw = Some ''pi''\<rparr>"

text \<open>A listing that gives these messages whatever it is asked for, and then breaks off or not.\<close>

definition sample_poller :: "stripe_msg list \<Rightarrow> error option \<Rightarrow> poller" where
  "sample_poller ms err =
     \<lparr>list_events = (\<lambda>types since. (ms, err)), marshal = (\<lambda>m raw. Inr raw), po_overlap = micros 120,
      po_initialLookback = micros 3600\<rparr>"


text \<open>
  C21. A broken listing can lose an event. Stripe lists newest first. When a listing breaks
  off after the newest event has been stored, the cursor is that event's time, and the next
  poll asks only for events at most the overlap older: an event further back that the broken
  listing did not reach is below the bound of every later poll.
\<close>

theorem broken_listing_skips:
  assumes "locks g = []" "find_event (m_ID newest) (committed g) = None"
    and "list_events po eventTypeFilter (unix (sinceFor po (cursor_of (committed g)) now)) = ([newest], Some err)"
    and "eventPayload po newest = Inr payload"
    and "micros (m_Created missed + 1) + po_overlap po \<le> micros (m_Created newest)"
  shows "\<exists>g'. run [] i (poll po now) [] g = Some ([], Inr (1, 1, Some (Wrapped ''list stripe events'' err)), [], g') \<and>
    (\<forall>now'. m_Created missed < unix (sinceFor po (cursor_of (committed g')) now'))"
proof -
  let ?v = "inbox_row newest payload (clock g)"
  let ?g' = "g\<lparr>committed := put_event ?v (committed g)\<rparr>"
  have new: "find_event (m_ID newest) (put_event ?v (committed g)) = Some ?v"
    by (simp add: row_simps inbox_row_def)
  have "run [] i (poll po now) [] g = Some ([], Inr (1, 1, Some (Wrapped ''list stripe events'' err)), [], ?g')"
    using run_poll [OF assms(1,3)] assms(2,4) new by (simp add: store_all_def store_msg_def)
  moreover obtain t where t: "cursor_of (put_event ?v (committed g)) = Some t" "micros (m_Created newest) \<le> t"
    using cursor_covers [of ?v "put_event ?v (committed g)" "micros (m_Created newest)"] find_by_SomeD new
    by (fastforce simp: inbox_row_def find_event_def)
  moreover have "m_Created missed < unix (t - po_overlap po)"
  proof -
    have "micros (m_Created missed + 1) \<le> t - po_overlap po" using assms(5) t(2) by simp
    from zdiv_mono1 [OF this, of 1000000] show ?thesis by (simp add: unix_def micros_def)
  qed
  ultimately show ?thesis by (intro exI [of _ ?g']) (simp add: sinceFor_def)
qed

theorem broken_listing_skips_witness:
  "\<exists>g'. run [] 0 (poll (sample_poller [sample_msg ''new'' 1000] (Some (Infra ''eof''))) (micros 1001)) []
      (shop_state (shop 1 [] [] []) 50) =
      Some ([], Inr (1, 1, Some (Wrapped ''list stripe events'' (Infra ''eof''))), [], g') \<and>
    (\<forall>now'. 500 < unix (sinceFor (sample_poller [] None) (cursor_of (committed g')) now'))"
proof -
  let ?g = "shop_state (shop 1 [] [] []) 50" and ?new = "sample_msg ''new'' 1000"
  let ?po = "sample_poller [?new] (Some (Infra ''eof''))"
  have h: "find_event (m_ID ?new) (committed ?g) = None" "eventPayload ?po ?new = Inr ''pi''"
    "list_events ?po t s = ([?new], Some (Infra ''eof''))"
    "micros (m_Created (sample_msg ''old'' 500) + 1) + po_overlap ?po \<le> micros (m_Created ?new)" for t s
    by (simp_all add: shop_def find_event_def sample_poller_def eventPayload_def sample_msg_def micros_def)
  have "sinceFor (sample_poller [] None) = sinceFor ?po"
    by (simp add: fun_eq_iff sinceFor_def sample_poller_def split: option.split)
  then show ?thesis
    using broken_listing_skips [OF _ h(1,3,2,4), of 0 "micros 1001"] by (simp add: sample_msg_def)
qed



section \<open>Who the caller is\<close>

text \<open>
  C23. Linking is idempotent. Once GetOrCreate (customers.Link) has answered a caller with a
  row that carries the caller's subject, the row has the caller's email (when there is one),
  and the next call answers with the same row and changes nothing.
\<close>

theorem linking_is_idempotent:
  assumes "locks g = []" "customers_wf (committed g)" "Subject cl \<noteq> []"
    and "link_spec cl (auto_env i g) = Reply (Inr c) ws sq" "c_CognitoSub c = Some (Subject cl)"
  shows "\<exists>g'. run [] i (GetOrCreate cl) [] g = Some ([], Inr c, [], g') \<and>
    (c_Email c = Email cl \<or> Email cl = []) \<and>
    run [] j (GetOrCreate cl) [] g' = Some ([], Inr c, [], g')"
proof -
  let ?g = "install ws sq g"
  have owner: "by_sub (Subject cl) (applys ws (committed g)) = Some c" "c_Email c = Email cl \<or> Email cl = []"
    using link_spec_owner [OF assms(2) _ assms(4,5,3)] by (simp_all add: auto_env_def)
  then have "link_spec cl (auto_env j ?g) = Reply (Inr c) [] []"
    using assms(3) by (simp add: link_spec_def subject_param_def auto_env_def by_sub_def row_simps)
  then have "run [] j (Link cl) [] ?g = Some ([], Inr c, [], ?g)"
    using run_Link_ok [of ?g cl j c "[]" "[]"] assms(1) by simp
  with run_Link_ok [OF assms(1,4)] owner(2) show ?thesis
    by (intro exI [of _ ?g]) (simp add: GetOrCreate_def)
qed

definition carl :: claims where "carl = \<lparr>Subject = ''carl'', Email = ''c@x'', Groups = []\<rparr>"

definition carls_row :: customer where
  "carls_row = \<lparr>c_ID = 3, c_Email = ''c@x'', c_CreatedAt = 50, c_CognitoSub = Some ''carl''\<rparr>"

lemma carl_links:
  "link_spec carl (auto_env i (fresh_shop 1)) = Reply (Inr carls_row) [WCustomer None carls_row] [CustomerSeq]"
  by (simp add: link_spec_def subject_param_def carl_def auto_env_def by_sub_def by_email_def shop_def
      sample_customers_def LinkCustomer_def Let_def sub_taken_def find_customer_def carls_row_def)

theorem linking_is_idempotent_witness:
  "\<exists>g'. run [] 0 (GetOrCreate carl) [] (fresh_shop 1) = Some ([], Inr carls_row, [], g') \<and>
     run [] 1 (GetOrCreate carl) [] g' = Some ([], Inr carls_row, [], g')"
  using linking_is_idempotent [OF _ _ _ carl_links, where i = 0 and j = 1] shop_customers_wf
  by (simp add: carl_def carls_row_def)



text \<open>
  C25. Inside a transaction Link's retry is of no use. When the first attempt meets a unique
  violation in an open transaction, the transaction is aborted, every further attempt meets
  only that, and the caller gets the aborted-transaction error, not a customer.
\<close>

theorem retry_in_transaction_is_futile:
  assumes "tx_state t = TxLive" "locks g = []"
    and "link_spec cl (tx_env i t (Suc (length ts)) g) = Reply (Inl UniqueViolation) ws sq"
  shows "run [] i (Link cl) (t # ts) g = Some ([], Inl ErrTxAborted, tx_fail t # ts, install [] sq g)"
  by (rule run_Link_tx_violation [OF assms])

definition renamed :: claims where "renamed = \<lparr>Subject = ''ann'', Email = ''b@x'', Groups = []\<rparr>"

theorem retry_in_transaction_is_futile_witness:
  "run [] 0 (Link renamed) [\<lparr>tx_state = TxLive, tx_writes = [], tx_now = 50\<rparr>] (fresh_shop 1) =
     Some ([], Inl ErrTxAborted, [\<lparr>tx_state = TxFailed, tx_writes = [], tx_now = 50\<rparr>], fresh_shop 1)"
proof -
  let ?t = "\<lparr>tx_state = TxLive, tx_writes = [], tx_now = 50\<rparr>"
  have "link_spec renamed (tx_env 0 ?t (Suc (length [])) (fresh_shop 1)) = Reply (Inl UniqueViolation) [] []"
    by (simp add: link_spec_def subject_param_def renamed_def tx_env_def by_sub_def shop_def sample_customers_def
        UpdateCustomerEmail_def find_customer_def reply_defs)
  from retry_in_transaction_is_futile [OF _ _ this] show ?thesis
    by (simp add: tx_fail_def install_def shop_state_def)
qed



section \<open>The HTTP surface\<close>

text \<open>
  Strategy names round-trip. The name of every arm selects that arm, the empty name selects the
  baseline, and a name is accepted only if it is empty or one of StrategyNames: a misspelt
  RESERVE_STRATEGY is an error at boot, never a silent default.
\<close>

lemma strategy_names_round_trip:
  "StrategyByName (arm_Name a) = Inr a \<and> StrategyByName '''' = Inr (TxnStrategy False) \<and>
   arm_Name a \<in> set StrategyNames \<and>
   ((\<exists>b. StrategyByName n = Inr b) \<longleftrightarrow> n = '''' \<or> n \<in> set StrategyNames)"
  by (cases a)
    (auto simp: StrategyByName_def StrategyNames_def StrategyBaseline_def StrategyReserveLast_def StrategyCTE_def)



text \<open>Beyond 32 bits the conversion wraps: a limit of 2^31 is accepted as a negative one.\<close>

lemma pagination_wraps:
  "parsePagination [(''limit'', ''2147483648'')] = Inr (- 2147483648, 0)"
  "parsePagination [(''limit'', ''4294967297'')] = Inr (1, 0)"
proof -
  have p: "parse_int64 ''2147483648'' = Some 2147483648" "parse_int64 ''4294967297'' = Some 4294967297"
    by (simp_all add: parse_int64_def read_nat_def digit_value_def is_digit_def Let_def)
  then show "parsePagination [(''limit'', ''2147483648'')] = Inr (- 2147483648, 0)"
    "parsePagination [(''limit'', ''4294967297'')] = Inr (1, 0)"
    by (simp_all add: parsePagination_def get_first_def int32_def maxListLimit_def Let_def)
qed

definition order_sentinels :: "error list" where
  "order_sentinels = [ErrNoRows, ErrForbidden, ErrOutOfStock, ErrOrderNotPending, ErrIdempotencyKeyReused, ErrReserveInProgress]"

text \<open>
  C28. The two ends of the wire agree. The body the load generator sends for a product is read by
  the app's strict decoder as that product, whatever int64 its id is; and the body the app
  answers an order error with is read by the generator as what the error means: not found,
  unauthorized, out of stock, another conflict, or a server error for any error that wraps none
  of the sentinels. (The generator reads 8 KiB of an answer.)
\<close>

theorem wire_round_trip:
  assumes "- (2 ^ 63) \<le> i" "i < 2 ^ 63" "length (body_text data (writeOrderError drv e)) \<le> 8 * 1024"
  shows "Decode json_decode order_field 0 (request_body i) = Some i \<and>
    ClassifyResponse json_unmarshal (r_Status (writeOrderError drv e)) (body_text data (writeOrderError drv e)) =
      outcome_of_error e"
  using request_read [OF assms(1,2)] answer_read [OF assms(3)] by blast

theorem wire_round_trip_witness:
  "Decode json_decode order_field 0 (request_body (- 9223372036854775808)) = Some (- 9223372036854775808) \<and>
   ClassifyResponse json_unmarshal 409 (body_text (\<lambda>x :: api_body. []) (writeOrderError (\<lambda>e. []) (Wrapped ''reserve'' ErrOutOfStock))) =
     OutcomeOutOfStock"
proof -
  have "length (body_text (\<lambda>x :: api_body. []) (writeOrderError (\<lambda>e. []) (Wrapped ''reserve'' ErrOutOfStock))) \<le> 8 * 1024"
    by (simp add: writeOrderError_def error_envelope_def json_encode_def quote_def rune_more_def rune_tail_def
        continues_def escape_def code_defs)
  from wire_round_trip [OF _ _ this, of "- 9223372036854775808"] show ?thesis
    by (simp add: writeOrderError_def outcome_of_error_def)
qed

text \<open>
  Errors keep their meaning and their secrets. The answer to an order error is decided
  by the sentinel it wraps, however it is wrapped: 404, 403 or one of the 409 codes; any
  error that wraps none of them is a 500 whose body does not depend on the error.
\<close>

theorem order_errors_answered:
  "r_Status (writeOrderError drv (Wrapped m e)) = r_Status (writeOrderError drv e) \<and>
   (writeOrderError drv e = WriteInternalError \<longleftrightarrow> \<not> list_ex (errors_Is e) order_sentinels) \<and>
   (r_Status (writeOrderError drv e) \<in> {403, 404, 409, 500}) \<and>
   (r_Status (writeOrderError drv e) = 404 \<longleftrightarrow> errors_Is e ErrNoRows)"
  by (simp add: writeOrderError_def order_sentinels_def WriteInternalError_def WriteError_def write_body_def)



text \<open>
  C30. A minted token is its claims. The issuer of the tests and the benchmark is accepted by the
  app's own discovery, and a token it mints passes the middleware with exactly the claims it was
  minted for, until the second it expires; one that names another issuer or audience, has
  expired, or is signed by a key the issuer does not advertise, is answered 401. (token_law and
  discovery_law are what go-jose and go-oidc document, of this token and these documents.)
\<close>

theorem minted_tokens_verify:
  assumes "discovery_law lib (docs_at lib (is_url i) i) (is_url i)"
    and "Mint lib i now rogue c opts = Inr raw" "signing_key i rogue opts = Inr sk"
    and "token_law lib sk (is_keyID i) (mint_payload i now c opts)"
    and "mo_RogueKey opts \<Longrightarrow> jose_public lib sk \<noteq> jose_public lib (is_key i)"
    and "bearerToken r = Some raw"
  shows "\<exists>idv. NewVerifier lib (docs_at lib (is_url i) i) (keys_at lib (is_url i) i) (is_url i) (is_audience i) = Inr idv \<and>
    (\<forall>later. Middleware deny (idv later) next r =
      (if genuine i now opts later then next (NewContext c r)
       else deny (WriteError 401 CodeUnauthorized ''invalid bearer token'')))"
proof -
  have "Middleware deny (oidc_Verify lib (keys_at lib (is_url i) i) (is_url i, is_url i @ JWKSPath) (is_audience i) later) next r =
      (if genuine i now opts later then next (NewContext c r)
       else deny (WriteError 401 CodeUnauthorized ''invalid bearer token''))" for later
    using mint_verifies [OF assms(2-5), of later] assms(6) by (auto simp: Middleware_def split: if_splits)
  then show ?thesis by (simp add: discovered [OF assms(1)])
qed

text \<open>
  Libraries that keep what is documented of one payload, and Ann's token at noon: hers until
  one, and never when it is signed with another key.
\<close>

definition sample_oidc :: "(string \<times> json) list \<Rightarrow> oidc_lib" where
  "sample_oidc ms =
     \<lparr>jose_public = (\<lambda>k. ''public '' @ k), jose_sign = (\<lambda>k kid body. Inr k),
      oidc_NewProvider = (\<lambda>fetch url. case fetch (url @ DiscoveryPath) of
          Inr (JObj d) \<Rightarrow> (case (map_of d ''issuer'', map_of d ''jwks_uri'') of
              (Some (JStr s), Some (JStr k)) \<Rightarrow> if s = url then Inr (url, k) else Inl (Infra ''issuer'')
            | _ \<Rightarrow> Inl (Infra ''document''))
        | _ \<Rightarrow> Inl (Infra ''document'')),
      oidc_Verify = (\<lambda>fetch p client now raw.
        case (fetch (snd p), map_of ms ''iss'', map_of ms ''aud'', map_of ms ''sub'', map_of ms ''exp'') of
          (Inr ks, Some (JStr iss), Some (JStr aud), Some (JStr sub), Some (JInt ex)) \<Rightarrow>
            if iss = fst p \<and> aud = client \<and> now \<le> ex * Second \<and>
              list_ex (\<lambda>k. jk_Key k = ''public '' @ raw \<and> jk_KeyID k = ''test-key-1'' \<and> jk_Algorithm k = RS256 \<and> jk_Use k = ''sig'') ks
            then Inr (sub, JObj ms) else Inl (Infra ''token'')
        | _ \<Rightarrow> Inl (Infra ''token''))\<rparr>"

lemma sample_oidc_laws: "discovery_law (sample_oidc ms) fetch url" "token_law (sample_oidc ms) sk ''test-key-1'' ms"
  by (auto simp: sample_oidc_def discovery_law_def token_law_def list_ex_iff)

definition sample_issuer :: issuer where
  "sample_issuer = SetURL ''http://127.0.0.1:9'' \<lparr>is_key = ''k1'', is_keyID = ''test-key-1'', is_audience = ''client'', is_url = []\<rparr>"

abbreviation noon :: int where "noon \<equiv> 12 * 3600 * Second"

abbreviation ann_payload :: "(string \<times> json) list" where
  "ann_payload \<equiv> mint_payload sample_issuer noon ann Token_options"

lemma same_payload: "mint_payload sample_issuer noon ann BadSignatureToken_options = ann_payload"
  by (simp add: mint_payload_def BadSignatureToken_options_def Token_options_def ordinary_def)

abbreviation let_in :: "(int \<Rightarrow> string \<Rightarrow> error + (string \<times> json)) \<Rightarrow> int \<Rightarrow> string \<Rightarrow> claims option" where
  "let_in idv later raw \<equiv> Middleware (\<lambda>resp :: api_body response. None) (idv later) q_Claims (post_order raw [])"

theorem minted_tokens_verify_witness:
  "\<exists>idv. NewVerifier (sample_oidc ann_payload) (docs_at (sample_oidc ann_payload) ''http://127.0.0.1:9'' sample_issuer)
       (keys_at (sample_oidc ann_payload) ''http://127.0.0.1:9'' sample_issuer) ''http://127.0.0.1:9'' ''client'' = Inr idv \<and>
     let_in idv (noon + 3600 * Second) ''k1'' = Some ann \<and> let_in idv (noon + 3601 * Second) ''k1'' = None \<and>
     let_in idv noon ''k2'' = None"
proof -
  let ?lib = "sample_oidc ann_payload" and ?i = sample_issuer
  have i: "is_url ?i = ''http://127.0.0.1:9''" "is_audience ?i = ''client''" "is_keyID ?i = ''test-key-1''" "is_key ?i = ''k1''"
    by (simp_all add: sample_issuer_def SetURL_def)
  have good: "signing_key ?i (Inl ErrNoRows) Token_options = Inr ''k1''"
    and bad: "signing_key ?i (Inr ''k2'') BadSignatureToken_options = Inr ''k2''"
    by (simp_all add: signing_key_def i Token_options_def BadSignatureToken_options_def ordinary_def)
  have mint: "Mint ?lib ?i noon (Inl ErrNoRows) ann Token_options = Inr ''k1''"
    "Mint ?lib ?i noon (Inr ''k2'') ann BadSignatureToken_options = Inr ''k2''"
    by (simp_all add: Mint_def good bad same_payload) (simp_all add: sample_oidc_def)
  have law: "token_law ?lib ''k1'' (is_keyID ?i) ann_payload"
    "token_law ?lib ''k2'' (is_keyID ?i) (mint_payload ?i noon ann BadSignatureToken_options)"
    unfolding i(3) same_payload by (rule sample_oidc_laws)+
  have gen: "genuine ?i noon Token_options (noon + 3600 * Second)" "\<not> genuine ?i noon Token_options (noon + 3601 * Second)"
    "\<not> genuine ?i noon BadSignatureToken_options noon" "\<not> mo_RogueKey Token_options"
    by (simp_all add: genuine_def Token_options_def BadSignatureToken_options_def ordinary_def Second_def)
  have bearer: "bearerToken (post_order raw []) = Some raw" for raw
    by (simp add: bearerToken_def post_order_def get_first_def has_prefix_def)
  have other: "jose_public ?lib ''k2'' \<noteq> jose_public ?lib (is_key ?i)" by (simp add: sample_oidc_def i)
  note app = minted_tokens_verify [OF sample_oidc_laws(1), of _ _ _ _ _ _ _ _ _ "\<lambda>resp :: api_body response. None" q_Claims]
  obtain idv where idv: "NewVerifier ?lib (docs_at ?lib (is_url ?i) ?i) (keys_at ?lib (is_url ?i) ?i) (is_url ?i) (is_audience ?i) = Inr idv"
    "\<And>later. let_in idv later ''k1'' =
      (if genuine ?i noon Token_options later then q_Claims (NewContext ann (post_order ''k1'' [])) else None)"
    using app [OF mint(1) good law(1) _ bearer] gen(4) by blast
  then have "let_in idv later ''k2'' =
      (if genuine ?i noon BadSignatureToken_options later then q_Claims (NewContext ann (post_order ''k2'' [])) else None)" for later
    using app [OF mint(2) bad law(2) other bearer] by auto
  with idv gen show ?thesis
    unfolding i by (intro exI [of _ idv]) (simp add: NewContext_def)
qed

text \<open>
  Creating a product creates its stock. Run alone, CreateProduct inserts the product
  and its only stock row in one transaction: nothing reserved, the whole quantity for sale;
  the answer shows both.
\<close>

theorem creating_a_product:
  assumes "locks g = []" "0 \<le> cp_PriceInCents p" "0 \<le> cp_Quantity p"
    and "find_product (product_seq (committed g)) (committed g) = None"
    and "find_stock (product_seq (committed g)) (committed g) = None"
  shows "\<exists>row d'. run [] i (svc_CreateProduct p) [] g = Some ([], Inr row, [], g\<lparr>committed := d'\<rparr>) \<and>
    pr_ID row = product_seq (committed g) \<and> pr_PriceInCents row = cp_PriceInCents p \<and>
    quantity_of (pr_ID row) d' = cp_Quantity p \<and> reserved_of (pr_ID row) d' = 0 \<and>
    orders d' = orders (committed g)"
  by (intro exI conjI, rule run_CreateProduct [OF assms])
    (simp_all add: create_spec_def row_simps stock_val_def put_stock_def put_product_def find_stock_def)

theorem creating_a_product_witness:
  "\<exists>row d'. run [] 0 (svc_CreateProduct \<lparr>cp_Name = ''chair'', cp_PriceInCents = 900, cp_StartAt = 0, cp_Quantity = 4\<rparr>) []
      (fresh_shop 1) = Some ([], Inr row, [], (fresh_shop 1)\<lparr>committed := d'\<rparr>) \<and> pr_ID row = 2 \<and> quantity_of 2 d' = 4"
  using creating_a_product [of "fresh_shop 1" "\<lparr>cp_Name = ''chair'', cp_PriceInCents = 900, cp_StartAt = 0, cp_Quantity = 4\<rparr>" 0]
  by (auto simp: shop_def find_product_def find_stock_def sample_product_def)

section \<open>The benchmark's consistency check\<close>

text \<open>
  C31. The benchmark's check passes when it should. Seed an empty database, let the app serve
  the load on it together with everything else it runs and with the probe, however all of it
  interleaves and whatever is lost, and let the recorder hold what the client was told: if no
  request was told of a server error (such a run is void anyway), the consistency check, made
  with the client's own totals at any moment, passes.
\<close>

theorem benchmark_check_agrees:
  assumes "run [] j (seeding pl t bs) [] (shop_state (Reset d0) t) = Some (cs, Inr ids, st, g0)"
    and "list_all (purchase a) ps" "reaches lossy (beside a) (start_with (committed g0) n ps) s"
    and "told render s (length ps) fates"
    and "length obs = length sched" "list_all (\<lambda>ob. ob_outcome ob \<noteq> OutcomeGeneratorSaturated) obs"
    and "mset (sent_outcomes (recorded m start sched obs)) = mset (map (fate_outcome unmarshal) fates)"
    and "OutcomeServerError \<notin> set (outcome (recorded m start sched obs))"
  shows "\<exists>inv. run [] i (Check drv ids (pl_Quantity pl) (totalReserved (recorded m start sched obs))
        (totalUnknown (recorded m start sched obs))) [] (shared s) = Some ([], Inr inv, [], shared s) \<and> Passed inv"
proof (rule honest_run [OF assms(1) _ _ assms(2-4) recorded_ok [OF assms(5)] assms(7,8)])
  show "\<forall>ob \<in> set obs. ob_outcome ob \<noteq> OutcomeGeneratorSaturated"
    using assms(6) by (simp add: list_all_iff)
qed simp_all

text \<open>One lamp, one buyer who is in the middle of the load, and a client that hears of her order.\<close>

definition one_lamp :: plan where
  "one_lamp = \<lparr>pl_Name = ''lamp'', pl_SKUs = 1, pl_Quantity = 1, pl_pick = (\<lambda>i draw. 0)\<rparr>"

definition ann_buys :: buyer where
  "ann_buys = \<lparr>by_Subject = ''ann'', by_Email = ''a@x'', by_Token = ''token-ann''\<rparr>"

definition seeded_lamp :: db where
  "seeded_lamp =
     \<lparr>customers = [\<lparr>c_ID = 1, c_Email = ''a@x'', c_CreatedAt = 50, c_CognitoSub = Some ''ann''\<rparr>],
      products = [\<lparr>p_ID = 1, p_Name = ''bench-lamp-0'', p_PriceInCents = 1999, p_CreatedAt = 50, p_StartAt = 50 - Hour\<rparr>],
      stocks = [\<lparr>s_ID = 1, s_ProductID = 1, s_Quantity = 1, s_NumReserved = 0\<rparr>],
      orders = [], idems = [], events = [],
      customer_seq = 2, product_seq = 2, stock_seq = 2, order_seq = 1\<rparr>"

lemma digit_zero: "digit 0 = CHR ''0''"
  by code_simp

lemma lamp_seeded:
  "run [] 0 (seeding one_lamp 50 [ann_buys]) [] (shop_state (Reset (shop 1 [] [] [])) 50) =
     Some ([], Inr [1], [], shop_state seeded_lamp 50)"
  by (simp add: Reset_empty seeding_def SeedProducts_def one_lamp_def ann_buys_def prog_simps CreateProduct_def
      CreateStock_def LinkCustomer_def empty_db_def table_defs stock_check_def by_email_def sub_taken_def Let_def
      burns_def shop_state_def seeded_lamp_def seed_name_def show_nat.simps install_def
      digit_zero)

definition one_asker :: "api_body response option prog list" where
  "one_asker = [ask (sample_config ''baseline'' False) (post_order ''token-ann'' [])]"

lemma lamp_sold:
  "\<exists>s. play (replicate 7 (0, Healthy)) (start_with seeded_lamp 60 one_asker) = Some s \<and>
     map_option r_Status (answer_to s 0) = Some 201"
  by (simp add: one_asker_def sample_service ask_reserves reserve_programs seeded_lamp_def shop_tables shop_statements
      play_simps eval_nat_numeral stock_val_def told_order_def answer_to_def ret_def)

definition one_send :: "observation list" where
  "one_send = [\<lparr>ob_sentAt = 0, ob_outcome = OutcomeReserved, ob_done = 20, ob_release = 20\<rparr>]"

lemma one_recorded: "recorded 1 0 [0] one_send =
    \<lparr>arrival = [20], service = [20], lag = [0], outcome = [OutcomeReserved], sent = [True]\<rparr>"
  by (simp add: one_send_def recorded_def newRecorder_def send_one_def in_flight_def)

theorem benchmark_check_agrees_witness:
  "\<exists>s inv. play (replicate 7 (0, Healthy)) (start_with seeded_lamp 60 one_asker) = Some s \<and>
     run [] 0 (Check (\<lambda>e. []) [1] 1 1 0) [] (shared s) = Some ([], Inr inv, [], shared s) \<and> Passed inv"
proof -
  let ?a = "sample_config ''baseline'' False" and ?r = "recorded 1 0 [0] one_send"
  obtain s where s: "play (replicate 7 (0, Healthy)) (start_with seeded_lamp 60 one_asker) = Some s"
    "map_option r_Status (answer_to s 0) = Some 201"
    using lamp_sold by (elim exE conjE) (rule that)
  have "list_all (\<lambda>m. fault_ok lossy (snd m)) (replicate 7 (0, Healthy))"
    by (simp add: fault_ok_def list_all_iff)
  from play_reaches [OF s(1) this reaches.start]
  have load: "reaches lossy (beside ?a) (start_with (committed (shop_state seeded_lamp 50)) 60 one_asker) s" by simp
  have asks: "list_all (purchase ?a) one_asker" by (simp add: one_asker_def ask_purchase)
  have told: "told (\<lambda>b. []) s (length one_asker) [Inr (201, [])]"
    using s(2) by (auto simp: told_def one_asker_def)
  have totals: "totalReserved ?r = 1" "totalUnknown ?r = 0"
    by (simp_all add: one_recorded totalReserved_def totalUnknown_def)
  have "mset (sent_outcomes ?r) = mset (map (fate_outcome (\<lambda>s. None)) [Inr (201, [])])" "OutcomeServerError \<notin> set (outcome ?r)"
    by (simp_all add: one_recorded sent_outcomes_def fate_outcome_def ClassifyResponse_def)
  from benchmark_check_agrees [OF lamp_seeded asks load told _ _ this, of 0 "\<lambda>e. []"] s(1) show ?thesis
    unfolding totals by (simp add: one_send_def one_lamp_def)
qed

section \<open>A benchmark run\<close>

text \<open>
  C32. No request of a run vanishes. Every scheduled request of the measured window is counted
  under exactly one outcome; it was sent and measured, or counted as generator_saturated; the
  reported percentiles are in order; and the reserves of the window are among the reserves
  of the whole run that are compared with the orders table.
\<close>

theorem requests_accounted_for:
  assumes "length obs = length sched" "list_all (\<lambda>ob. ob_outcome ob \<noteq> OutcomeGeneratorSaturated) obs"
    and "Run m warmup start sched obs elapsed = Inr out"
  shows "sum_list (map (rs_Outcomes out) OutcomeNames) = Requests (rs_Schedule out) \<and>
    rs_Outcomes out ''generator_saturated'' = GeneratorSaturated (rs_Schedule out) \<and>
    PCount (Overall (rs_Latency out)) + GeneratorSaturated (rs_Schedule out) = Requests (rs_Schedule out) \<and>
    ordered (Overall (rs_Latency out)) \<and> rs_Reserved out \<le> rs_ReservedTotal out"
  using Run_reports [OF assms(1) _ assms(3)] assms(2) by (simp add: list_all_iff)

text \<open>Two requests with one permit, the second due while the first is in flight.\<close>

definition two_sends :: "observation list" where
  "two_sends = [\<lparr>ob_sentAt = 0, ob_outcome = OutcomeReserved, ob_done = 20, ob_release = 20\<rparr>,
     \<lparr>ob_sentAt = 10, ob_outcome = OutcomeReserved, ob_done = 30, ob_release = 30\<rparr>]"

lemma two_recorded: "recorded 1 0 [0, 10] two_sends =
    \<lparr>arrival = [20, 0], service = [20, 0], lag = [0, 0], outcome = [OutcomeReserved, OutcomeGeneratorSaturated],
     sent = [True, False]\<rparr>"
  by (simp add: two_sends_def recorded_def newRecorder_def send_one_def in_flight_def)

theorem requests_accounted_for_witness:
  "\<exists>out. Run 1 0 0 [0, 10] two_sends 40 = Inr out \<and>
     rs_Outcomes out ''generator_saturated'' = 1 \<and> Requests (rs_Schedule out) = 2 \<and> PCount (Overall (rs_Latency out)) = 1"
proof -
  have "GeneratorSaturated (scheduleStats (recorded 1 0 [0, 10] two_sends) 0) = 1"
    "Requests (scheduleStats (recorded 1 0 [0, 10] two_sends) 0) = 2"
    by (simp_all add: two_recorded scheduleStats_def Let_def)
  moreover obtain out where out: "Run 1 0 0 [0, 10] two_sends 40 = Inr out"
    "rs_Schedule out = scheduleStats (recorded 1 0 [0, 10] two_sends) 0"
    by (simp add: Run_def Let_def split_beta window_def)
  ultimately show ?thesis
    using requests_accounted_for [OF _ _ out(1)] by (auto simp: two_sends_def)
qed


text \<open>A machine on which the first calls of a run work and later ones may not.\<close>

definition bench_box :: "error + unit \<Rightarrow> bench_env" where
  "bench_box up =
     \<lparr>be_collect = zero_meta, be_file_limit = None,
      be_url_path = (\<lambda>dsn. if dsn = ''pg'' then Some ''/doorbust_bench'' else None), be_meminfo = None,
      be_open_pool = Inr (), be_migrate = Inr (), be_reset = Inr (), be_probe_table = Inr (),
      be_db_info = \<lparr>ServerVersion = ''17'', SynchronousCommit = ''off'', Fsync = ''on'', MaxConnections = ''100'', SharedBuffers = []\<rparr>,
      be_draw = (\<lambda>k. 0), be_seed_products = (\<lambda>pl. Inr [1]), be_issuer = Inr ''http://127.0.0.1:1'',
      be_mint = (\<lambda>sub mail. Inr sub), be_seed_customers = (\<lambda>bs. Inr ()), be_start_app = Inr (),
      be_ready = (case up of Inl e \<Rightarrow> [None] | Inr u \<Rightarrow> [None, Some 200]),
      be_customer = Inr 1, be_exec = Inr 0, be_rtt_probes = [], be_commit_probes = [],
      be_observe = (\<lambda>sched. [\<lparr>ob_sentAt = 0, ob_outcome = OutcomeReserved, ob_done = 0, ob_release = 0\<rparr>]),
      be_started = 0, be_elapsed = 1000000000,
      be_check = (\<lambda>ids q r u. \<lparr>Passed = True, Checks = []\<rparr>), be_fixed = (\<lambda>n x. [])\<rparr>"

definition bench_flags :: options where
  "bench_flags =
     \<lparr>op_DSN = ''pg'', op_AllowUnsafeTarget = False, op_MigrationsDir = [], op_AppBinary = [], op_Addr = '':8099'',
      op_Arm = ''cte'', op_CustomerCache = False, op_LogRequests = False, op_DBMaxConns = 25,
      op_Shape = ''doorbuster'', op_Arrivals = ''fixed'', op_Rate = 1, op_Duration = 1000000000, op_Warmup = 0,
      op_Buyers = 1, op_MaxInFlight = 64, op_Timeout = 0, op_SpinSlack = 0, op_GitSHA = ''abc'', op_Tier = 1,
      op_SessionID = ''s'', op_AppGOMAXPROCS = 4, op_AllowDirty = False, op_Seed = 1\<rparr>"

lemma one_second: "Seconds 1000000000 = 1" "fl 1 = 1" "fl 1000000000 = 1000000000"
  using fl_exact [of 1] fl_exact [of 1000000000] by (simp_all add: Seconds_def Second_def)

lemma bench_schedule: "BuildSchedule ''fixed'' 1 1000000000 draw = Inr [0]"
  by (simp add: BuildSchedule_def one_second Second_def ArrivalsFixed_def trunc_int_def Let_def)

lemma bench_plan: "PlanFor ''doorbuster'' 1 =
    Inr \<lparr>pl_Name = ''doorbuster'', pl_SKUs = 1, pl_Quantity = 1, pl_pick = (\<lambda>i draw. 0)\<rparr>"
  by (simp add: PlanFor_def shape_defs int32_small Let_def)

lemma bench_target: "CheckTarget (be_url_path (bench_box r)) ''pg'' False = None"
proof -
  have "contains (map lower_char ''doorbust_bench'') safeMarker"
    unfolding contains_iff by (intro exI [of _ "''doorbust_''"] exI [of _ "[]"]) (simp add: lower_char_def safeMarker_def)
  then show ?thesis by (simp add: CheckTarget_def databaseName_def bench_box_def has_prefix_def)
qed

lemmas bench_run = Execute_def prepare_run_def measure_run_def trace_simps attribution_def file_limit_def
  CheckMemoryBudget_def availableBytes_def MintBuyers_def waitReady_def wrap_def Let_def

lemma bench_box_target: "be_url_path (bench_box r) = (\<lambda>dsn. if dsn = ''pg'' then Some ''/doorbust_bench'' else None)"
  by (simp add: bench_box_def)





text \<open>
  C35. The database is only emptied when it is meant to be. A run migrates or truncates the
  database it is pointed at only if its name contains the marker, or the operator insisted;
  and an app it has started is stopped exactly once, before the database is checked.
\<close>

theorem database_is_guarded:
  assumes "Migrate \<in> set (fst (Execute w opts)) \<or> ResetDatabase \<in> set (fst (Execute w opts))"
  shows "(op_AllowUnsafeTarget opts \<or>
      (\<exists>name a b. databaseName (be_url_path w) (op_DSN opts) = Inr name \<and> map lower_char name = a @ ''bench'' @ b)) \<and>
    (StartApp env \<in> set (fst (Execute w opts)) \<and> be_start_app w = Inr () \<longrightarrow> stopped_once (fst (Execute w opts)))"
proof -
  have "CheckTarget (be_url_path w) (op_DSN opts) (op_AllowUnsafeTarget opts) = None"
    using assms Execute_guarded [of Migrate w opts] Execute_guarded [of ResetDatabase w opts] by blast
  then have "op_AllowUnsafeTarget opts \<or>
      (\<exists>name a b. databaseName (be_url_path w) (op_DSN opts) = Inr name \<and> map lower_char name = a @ ''bench'' @ b)"
    by (auto simp: CheckTarget_def contains_iff safeMarker_def split: sum.splits if_splits)
  with Execute_settled [of w opts] show ?thesis by (auto simp: settled_def)
qed

theorem database_is_guarded_witness:
  "stopped_once (fst (Execute (bench_box (Inl (Infra ''down''))) bench_flags))"
proof -
  let ?t = "fst (Execute (bench_box (Inl (Infra ''down''))) bench_flags)"
  have "Migrate \<in> set ?t" "StartApp (app_environment bench_flags ''http://127.0.0.1:1'') \<in> set ?t"
    using bench_target [of "Inl (Infra ''down'')"]
    by (simp_all add: bench_run bench_flags_def bench_box_def bench_schedule bench_plan zero_meta_def)
  then show ?thesis
    using database_is_guarded [of "bench_box (Inl (Infra ''down''))" bench_flags "app_environment bench_flags ''http://127.0.0.1:1''"]
    by (simp add: bench_box_def)
qed

section \<open>Limiting, booting, stopping\<close>







section \<open>The databases of the tests\<close>





end
